(* ===== verification/Prelude.thy ===== *)
theory Prelude
  imports Main "HOL-Library.Word"
begin

text \<open>
  Shared vocabulary of the development: the fixed-width integer types of the C sources, the
  block geometry constants of \<^verbatim>\<open>inc/dnbd3/config.h\<close> and \<^verbatim>\<open>src/server/image.h\<close>, and the generic
  facts on words, lists and folds that the components share. The collection \<open>word_nat\<close> holds the
  rules that move a word expression to the natural number it denotes; \<open>geom\<close> holds the constants
  in a form that arithmetic can use.
\<close>

unbundle bit_operations_syntax

named_theorems word_nat \<open>rules that rewrite unat of a word operation\<close>
named_theorems geom \<open>block geometry constants\<close>

type_synonym u8 = "8 word"
type_synonym u16 = "16 word"
type_synonym u32 = "32 word"
type_synonym u64 = "64 word"
type_synonym byte = "8 word"

section \<open>Block geometry\<close>

definition DNBD3_BLOCK_SIZE :: u64 where
  "DNBD3_BLOCK_SIZE = 4096"

definition HASH_BLOCK_SIZE :: u64 where
  "HASH_BLOCK_SIZE = 16777216"

text \<open>A C cast from \<^verbatim>\<open>uint64_t\<close> to \<^verbatim>\<open>int\<close>.\<close>

definition c_int :: "u64 \<Rightarrow> int" where
  "c_int x = sint (ucast x :: 32 word)"

text \<open>The C macro casts to \<^verbatim>\<open>int\<close>, which keeps the low 32 bits, read as two's complement.\<close>

definition IMGSIZE_TO_MAPBYTES :: "u64 \<Rightarrow> int" where
  "IMGSIZE_TO_MAPBYTES bytes = c_int (drop_bit 15 (bytes + 32768 - 1))"

definition IMGSIZE_TO_HASHBLOCKS :: "u64 \<Rightarrow> int" where
  "IMGSIZE_TO_HASHBLOCKS bytes =
     c_int ((bytes + HASH_BLOCK_SIZE - 1) div HASH_BLOCK_SIZE)"

section \<open>Counting loops\<close>

text \<open>The values of \<open>p\<close> in \<^verbatim>\<open>for (p = a; p < b; p += s)\<close>.\<close>

function for_step :: "nat \<Rightarrow> nat \<Rightarrow> nat \<Rightarrow> nat list" where
  "for_step a b s = (if s = 0 \<or> b \<le> a then [] else a # for_step (a + s) b s)"
  by pat_completeness auto
termination
  by (relation "measure (\<lambda>(a, b, s). b - a)") auto

declare for_step.simps [simp del]

lemma set_for_step: "0 < s \<Longrightarrow> set (for_step a b s) = {p. \<exists>k. p = a + k * s \<and> p < b}"
proof (induction a b s rule: for_step.induct)
  case (1 a b s)
  show ?case
  proof (cases "b \<le> a")
    case True
    then show ?thesis by (auto simp: for_step.simps [of a b s])
  next
    case False
    with 1 have "set (for_step (a + s) b s) = {p. \<exists>k. p = a + s + k * s \<and> p < b}"
      by simp
    also have "insert a \<dots> = {p. \<exists>k. p = a + k * s \<and> p < b}"
    proof (intro set_eqI iffI)
      fix p
      assume "p \<in> {p. \<exists>k. p = a + k * s \<and> p < b}"
      then obtain k where k: "p = a + k * s" "p < b" by blast
      then show "p \<in> insert a {p. \<exists>k. p = a + s + k * s \<and> p < b}"
        by (cases k) auto
    next
      fix p
      assume "p \<in> insert a {p. \<exists>k. p = a + s + k * s \<and> p < b}"
      then consider "p = a" | k where "p = a + s + k * s" "p < b" by blast
      then show "p \<in> {p. \<exists>k. p = a + k * s \<and> p < b}"
      proof cases
        case 1
        with False show ?thesis by (auto intro!: exI [of _ 0])
      next
        case 2
        then show ?thesis by (auto intro!: exI [of _ "Suc k"])
      qed
    qed
    finally show ?thesis
      using False "1.prems" by (simp add: for_step.simps [of a b s])
  qed
qed

section \<open>Words as natural numbers\<close>

lemma and_not_mask_eq: "(x :: 'a::len word) AND NOT (mask n) = push_bit n (drop_bit n x)"
  by (rule bit_word_eqI) (auto simp: bit_simps)

lemma unat_and_not_mask [word_nat]:
  fixes x :: "'a::len word"
  assumes "n < LENGTH('a)"
  shows "unat (x AND NOT (mask n)) = unat x div 2 ^ n * 2 ^ n"
proof -
  have "unat (x AND NOT (mask n)) = unat x - unat x mod 2 ^ n"
  proof -
    have split: "x = (x AND NOT (mask n)) + (x AND mask n)"
      by (subst disjunctive_add) (auto simp: bit_simps intro!: bit_word_eqI)
    have le: "x AND mask n \<le> x"
      by (rule word_and_le2)
    have "x AND NOT (mask n) = x - (x AND mask n)"
      using split by (metis add_diff_cancel_right')
    then have "unat (x AND NOT (mask n)) = unat x - unat (x AND mask n)"
      using le by (simp add: unat_sub)
    moreover have "unat (x AND mask n) = unat x mod 2 ^ n"
      by (simp add: flip: take_bit_eq_mask take_bit_eq_mod) (simp add: unsigned_take_bit_eq)
    ultimately show ?thesis by simp
  qed
  then show ?thesis by (simp add: minus_mod_eq_div_mult)
qed

lemma unat_add_no_wrap [word_nat]:
  fixes a b :: "'a::len word"
  assumes "unat a + unat b < 2 ^ LENGTH('a)"
  shows "unat (a + b) = unat a + unat b"
  using assms by (simp add: unat_word_ariths)

text \<open>\<^verbatim>\<open>x & ~(BLOCK - 1)\<close> and \<^verbatim>\<open>(x + BLOCK - 1) & ~(BLOCK - 1)\<close> for the two block sizes.\<close>

definition block_floor :: "u64 \<Rightarrow> u64" where
  "block_floor x = x AND NOT (DNBD3_BLOCK_SIZE - 1)"

definition block_ceil :: "u64 \<Rightarrow> u64" where
  "block_ceil x = (x + DNBD3_BLOCK_SIZE - 1) AND NOT (DNBD3_BLOCK_SIZE - 1)"

definition hash_floor :: "u64 \<Rightarrow> u64" where
  "hash_floor x = x AND NOT (HASH_BLOCK_SIZE - 1)"

definition hash_ceil :: "u64 \<Rightarrow> u64" where
  "hash_ceil x = (x + HASH_BLOCK_SIZE - 1) AND NOT (HASH_BLOCK_SIZE - 1)"

lemma mask_12: "(4095 :: u64) = mask 12"
  by (simp add: mask_eq_exp_minus_1)

lemma mask_24: "(16777215 :: u64) = mask 24"
  by (simp add: mask_eq_exp_minus_1)

lemma round_up_le: "(n :: nat) \<le> (n + 4095) div 4096 * 4096"
proof -
  have "(n + 4095) mod 4096 < 4096" by simp
  then show ?thesis using div_mult_mod_eq [of "n + 4095" 4096] by linarith
qed

lemma unat_block_floor [word_nat]: "unat (block_floor x) = unat x div 4096 * 4096"
proof -
  have "block_floor x = x AND NOT (mask 12)"
    by (simp add: block_floor_def DNBD3_BLOCK_SIZE_def mask_12)
  then show ?thesis
    using unat_and_not_mask [of 12 x] by simp
qed

lemma unat_hash_floor [word_nat]: "unat (hash_floor x) = unat x div 16777216 * 16777216"
proof -
  have "hash_floor x = x AND NOT (mask 24)"
    by (simp add: hash_floor_def HASH_BLOCK_SIZE_def mask_24)
  then show ?thesis
    using unat_and_not_mask [of 24 x] by simp
qed

lemma unat_block_ceil [word_nat]:
  assumes "unat x + 4095 < 2 ^ 64"
  shows "unat (block_ceil x) = (unat x + 4095) div 4096 * 4096"
proof -
  have "block_ceil x = block_floor (x + 4095)"
    by (simp add: block_ceil_def block_floor_def DNBD3_BLOCK_SIZE_def add.commute)
  moreover have "unat (x + 4095) = unat x + 4095"
    using assms by (subst unat_add_no_wrap) simp_all
  ultimately show ?thesis by (simp add: unat_block_floor)
qed

lemma unat_hash_ceil [word_nat]:
  assumes "unat x + 16777215 < 2 ^ 64"
  shows "unat (hash_ceil x) = (unat x + 16777215) div 16777216 * 16777216"
proof -
  have "hash_ceil x = hash_floor (x + 16777215)"
    by (simp add: hash_ceil_def hash_floor_def HASH_BLOCK_SIZE_def add.commute)
  moreover have "unat (x + 16777215) = unat x + 16777215"
    using assms by (subst unat_add_no_wrap) simp_all
  ultimately show ?thesis by (simp add: unat_hash_floor)
qed

lemma unat_drop_bit_64 [word_nat]: "unat (drop_bit n (x :: u64)) = unat x div 2 ^ n"
  using unat_drop_bit_eq [of n x] by (simp only: drop_bit_eq_div [where 'a = nat])

lemma unat_and_7 [word_nat]: "unat ((x :: u64) AND 7) = unat x mod 8"
proof -
  have "x AND 7 = take_bit 3 x"
    by (simp add: take_bit_eq_mask mask_eq_exp_minus_1)
  then have "unat (x AND 7) = take_bit 3 (unat x)"
    by (simp add: unsigned_take_bit_eq)
  then show ?thesis by (simp add: take_bit_eq_mod)
qed

lemma c_int_small [word_nat]:
  assumes "unat x < 2 ^ 31"
  shows "c_int x = int (unat x)"
proof -
  have "unat (ucast x :: 32 word) = unat x"
    using assms by (simp add: unsigned_ucast_eq take_bit_eq_mod)
  then have "uint (ucast x :: 32 word) = int (unat x)"
    by (simp only: uint_nat)
  moreover have "k < 2 ^ 31 \<Longrightarrow> signed_take_bit 31 (int k) = int k" for k :: nat
    by (simp only: signed_take_bit_int_eq_self_iff) simp
  from this [OF assms] have "signed_take_bit 31 (int (unat x)) = int (unat x)" .
  ultimately show ?thesis
    by (simp only: c_int_def sint_uint) (simp del: of_nat_unat)
qed

end
