(* ===== verification/Timing.thy ===== *)
theory Timing
  imports Prelude
begin

text \<open>
  The monotonic clock arithmetic of \<^verbatim>\<open>inc/dnbd3/shared/timing.h\<close>. \<^verbatim>\<open>struct timespec\<close> has a 64-bit
  signed second count and a nanosecond count; both are modelled as \<open>int\<close>, the unsigned results
  keep their width. Reading the clock is the caller's business: every operation that calls
  \<^verbatim>\<open>timing_get\<close> takes the current time as an argument.
\<close>

record ticks =
  tv_sec :: int
  tv_nsec :: int

definition timing_get :: "ticks \<Rightarrow> ticks \<Rightarrow> ticks" where
  "timing_get basetime clock = clock\<lparr>tv_sec := tv_sec clock - tv_sec basetime\<rparr>"

definition timing_addSeconds :: "ticks \<Rightarrow> int \<Rightarrow> ticks" where
  "timing_addSeconds base addSeconds =
     \<lparr>tv_sec = tv_sec base + addSeconds, tv_nsec = tv_nsec base\<rparr>"

abbreviation timing_set :: "ticks \<Rightarrow> int \<Rightarrow> ticks" where
  "timing_set src secs \<equiv> timing_addSeconds src secs"

definition timing_reached :: "ticks \<Rightarrow> ticks \<Rightarrow> bool" where
  "timing_reached timeout now \<longleftrightarrow> tv_sec now \<ge> tv_sec timeout"

abbreviation timing_1le2 :: "ticks \<Rightarrow> ticks \<Rightarrow> bool" where
  "timing_1le2 one two \<equiv> timing_reached one two"

definition timing_reachedPrecise :: "ticks \<Rightarrow> ticks \<Rightarrow> bool" where
  "timing_reachedPrecise timeout now \<longleftrightarrow>
     tv_sec now > tv_sec timeout
     \<or> (tv_sec now = tv_sec timeout \<and> tv_nsec now > tv_nsec timeout)"

definition timing_diff :: "ticks \<Rightarrow> ticks \<Rightarrow> u32" where
  "timing_diff start end =
     (if tv_sec end \<le> tv_sec start then 0
      else word_of_int ((tv_sec end - tv_sec start)
             + (if tv_nsec start > tv_nsec end then -1 else 0)))"

definition timing_diffMs :: "ticks \<Rightarrow> ticks \<Rightarrow> u64" where
  "timing_diffMs start end =
     (if tv_sec end < tv_sec start then 0
      else let diff = word_of_int (tv_sec end - tv_sec start) * 1000 in
        if tv_nsec start \<ge> tv_nsec end
        then (if diff = 0 then 0
              else diff - word_of_int ((tv_nsec start - tv_nsec end) div 1000000))
        else diff + word_of_int ((tv_nsec end - tv_nsec start) div 1000000))"

definition timing_diffUs :: "ticks \<Rightarrow> ticks \<Rightarrow> u64" where
  "timing_diffUs start end =
     (if tv_sec end < tv_sec start then 0
      else let diff = word_of_int (tv_sec end - tv_sec start) * 1000000 in
        if tv_nsec start \<ge> tv_nsec end
        then (if diff = 0 then 0
              else diff - word_of_int ((tv_nsec start - tv_nsec end) div 1000))
        else diff + word_of_int ((tv_nsec end - tv_nsec start) div 1000))"

text \<open>The instant a tick denotes, in nanoseconds, and the range a valid timespec keeps.\<close>

definition nanos :: "ticks \<Rightarrow> int" where
  "nanos t = tv_sec t * 1000000000 + tv_nsec t"

definition valid_ticks :: "ticks \<Rightarrow> bool" where
  "valid_ticks t \<longleftrightarrow> 0 \<le> tv_nsec t \<and> tv_nsec t < 1000000000"

lemma timing_reached_refl [simp]: "timing_reached t t"
  by (simp add: timing_reached_def)

lemma timing_reached_trans:
  "timing_reached a b \<Longrightarrow> timing_reached b c \<Longrightarrow> timing_reached a c"
  by (simp add: timing_reached_def)

lemma timing_reached_linear: "timing_reached a b \<or> timing_reached b a"
  by (auto simp: timing_reached_def)

text \<open>The coarse test never misses a deadline the precise one has passed.\<close>

lemma reachedPrecise_imp_reached: "timing_reachedPrecise t now \<Longrightarrow> timing_reached t now"
  by (auto simp: timing_reachedPrecise_def timing_reached_def)

lemma reachedPrecise_iff_nanos:
  assumes "valid_ticks t" and "valid_ticks now"
  shows "timing_reachedPrecise t now \<longleftrightarrow> nanos t < nanos now"
proof (cases "tv_sec t" "tv_sec now" rule: linorder_cases)
  case less
  then have "tv_sec t + 1 \<le> tv_sec now" by simp
  with assms less show ?thesis
    unfolding timing_reachedPrecise_def valid_ticks_def nanos_def by linarith
next
  case equal
  then show ?thesis by (simp add: timing_reachedPrecise_def nanos_def)
next
  case greater
  then have "tv_sec now + 1 \<le> tv_sec t" by simp
  with assms greater show ?thesis
    unfolding timing_reachedPrecise_def valid_ticks_def nanos_def by linarith
qed

lemma elapsed_div:
  assumes "valid_ticks s" and "valid_ticks e"
  shows "(nanos e - nanos s) div 1000000000
         = tv_sec e - tv_sec s + (if tv_nsec s > tv_nsec e then -1 else 0)"
proof -
  have "nanos e - nanos s
      = (tv_sec e - tv_sec s) * 1000000000 + (tv_nsec e - tv_nsec s)"
    by (simp add: nanos_def algebra_simps)
  moreover have "(tv_nsec e - tv_nsec s) div 1000000000 = (if tv_nsec s > tv_nsec e then -1 else 0)"
    using assms by (auto simp: valid_ticks_def intro: div_pos_pos_trivial)
  ultimately show ?thesis by simp
qed

text \<open>
  \<^verbatim>\<open>timing_diff\<close> is what its comment says: the elapsed time rounded down to whole seconds, and 0
  when the second instant is not in a later second than the first.
\<close>

lemma timing_diff_floor:
  assumes "valid_ticks s" and "valid_ticks e"
    and "nanos s \<le> nanos e" and "tv_sec e - tv_sec s < 2 ^ 32"
  shows "uint (timing_diff s e) = (nanos e - nanos s) div 1000000000"
proof (cases "tv_sec e \<le> tv_sec s")
  case True
  with assms have "tv_sec e = tv_sec s" and "tv_nsec s \<le> tv_nsec e"
    by (auto simp: valid_ticks_def nanos_def)
  then show ?thesis
    using assms(1,2) by (simp add: elapsed_div timing_diff_def)
next
  case False
  define d where "d = tv_sec e - tv_sec s + (if tv_nsec s > tv_nsec e then -1 else 0)"
  have "0 \<le> d" and "d < 2 ^ 32"
    using False assms(4) by (auto simp: d_def)
  then have "uint (word_of_int d :: u32) = d"
    by (simp add: uint_word_of_int_eq take_bit_int_eq_self)
  moreover have "timing_diff s e = word_of_int d"
    using False by (simp add: timing_diff_def d_def)
  ultimately show ?thesis
    using assms(1,2) by (simp add: elapsed_div d_def)
qed

lemma timing_diff_reverse: "tv_sec e \<le> tv_sec s \<Longrightarrow> timing_diff s e = 0"
  by (simp add: timing_diff_def)

end
