(* ===== verification/Server_Types.thy ===== *)
theory Server_Types
  imports Timing
begin

text \<open>
  The data of the server, from \<^verbatim>\<open>src/server/globals.h\<close> and \<^verbatim>\<open>inc/dnbd3/types.h\<close>: hosts, cache
  maps, images, the uplink request queue, the uplink itself, alt servers and connected clients, and
  the configuration variables the operations read. A linked list is a HOL list; a pointer that may
  be \<^verbatim>\<open>NULL\<close> is an \<open>option\<close>; a file descriptor is an \<open>int\<close> with \<open>-1\<close> for none. Mutexes,
  thread handles and reference counts are not fields: an operation that holds a mutex for its whole
  body is one atomic function of the state.
\<close>

section \<open>Hosts\<close>

record dnbd3_host_t =
  addr :: "u8 list"
  port :: u16
  htype :: u8

definition HOST_NONE :: u8 where "HOST_NONE = 0"
definition HOST_IP4 :: u8 where "HOST_IP4 = 2"
definition HOST_IP6 :: u8 where "HOST_IP6 = 10"

section \<open>Images and cache maps\<close>

record dnbd3_cache_map_t =
  dirty :: bool
  unchanged :: bool
  cmap :: "u8 list"

record image_problem =
  p_read :: bool
  p_write :: bool
  p_changed :: bool
  p_uplink :: bool
  p_queue :: bool

record dnbd3_image_t =
  path :: string
  name :: string
  uplinkref :: "nat option"
  ref_cacheMap :: "dnbd3_cache_map_t option"
  virtualFilesize :: u64
  realFilesize :: u64
  atime :: ticks
  nextCompletenessEstimate :: ticks
  crc32 :: "u32 list option"
  masterCrc32 :: u32
  readFd :: int
  completenessEstimate :: int
  users :: int
  img_id :: int
  problem :: image_problem
  rid :: u16
  accessed :: bool

section \<open>The uplink\<close>

text \<open>The two functions the code passes as \<^verbatim>\<open>uplink_callback\<close>: one in net.c, one in fuse.c.\<close>

datatype uplink_callback = NetCallback | FuseCallback

record dnbd3_queue_client_t =
  qc_data :: nat
  qc_handle :: u64
  qc_from :: u64
  qc_to :: u64
  qc_callback :: uplink_callback

record dnbd3_queue_entry_t =
  qe_handle :: u64
  qe_from :: u64
  qe_to :: u64
  qe_clients :: "dnbd3_queue_client_t list"
  qe_hopCount :: u8
  qe_sent :: bool

record dnbd3_server_connection_t =
  conn_fd :: int
  conn_version :: int
  conn_index :: int

datatype rtt_state = RTT_IDLE | RTT_INPROGRESS | RTT_DONTCHANGE | RTT_DOCHANGE | RTT_NOT_REACHABLE

record dnbd3_alt_local_t =
  l_fails :: int
  l_rttIndex :: int
  l_rtt :: "u32 list"
  l_blocked :: bool
  l_initDone :: bool

record dnbd3_uplink_t =
  current :: dnbd3_server_connection_t
  better :: dnbd3_server_connection_t
  rttTestResult :: rtt_state
  cacheFd :: int
  recvBuffer :: "byte list"
  recvBufferLen :: u32
  shutdown :: bool
  replicatedLastBlock :: bool
  cycleDetected :: bool
  nextReplicationIndex :: int
  bytesReceived :: u64
  bytesReceivedLastSave :: u64
  queueLen :: int
  idleTime :: int
  queue :: "dnbd3_queue_entry_t list"
  queueId :: u64
  altData :: "dnbd3_alt_local_t list"

section \<open>Alt servers and clients\<close>

record dnbd3_alt_server_t =
  g_fails :: int
  g_rttIndex :: int
  g_rtt :: "u32 list"
  isPrivate :: bool
  isClientOnly :: bool
  g_blocked :: bool
  lastFail :: ticks
  g_host :: dnbd3_host_t
  comment :: string
  nameSpaces :: "string list"

record dnbd3_client_t =
  bytesSent :: u64
  c_image :: "nat option"
  c_sock :: int
  relayedCount :: u8
  isServer :: bool
  c_host :: dnbd3_host_t

section \<open>Configuration\<close>

datatype bgr_mode = BGR_DISABLED | BGR_FULL | BGR_HASHBLOCK

record config =
  isProxy :: bool
  proxyPrivateOnly :: bool
  backgroundReplication :: bgr_mode
  bgrMinClients :: int
  bgrWindowSize :: int
  lookupMissingForProxy :: bool
  sparseFiles :: bool
  maxClients :: int
  maxImages :: int
  maxPayload :: u32
  maxReplicationSize :: u64
  pretendClient :: bool
  autoFreeDiskSpaceDelay :: int
  maxPrefetch :: u32
  minRequestSize :: u32
  removeMissingImages :: bool
  vmdkLegacyMode :: bool
  closeUnusedFd :: bool

definition SERVER_MAX_ALTS :: int where "SERVER_MAX_ALTS = 50"
definition SERVER_RTT_PROBES :: nat where "SERVER_RTT_PROBES = 5"
definition UPLINK_MAX_QUEUE :: int where "UPLINK_MAX_QUEUE = 500"
definition UPLINK_MAX_CLIENTS_PER_REQUEST :: nat where "UPLINK_MAX_CLIENTS_PER_REQUEST = 32"
definition SERVER_UPLINK_QUEUELEN_THRES :: int where "SERVER_UPLINK_QUEUELEN_THRES = 900"
definition SERVER_UPLINK_IDLE_TIMEOUT :: int where "SERVER_UPLINK_IDLE_TIMEOUT = 1800"
definition SERVER_GLOBAL_DUP_TIME :: u32 where "SERVER_GLOBAL_DUP_TIME = 6"
definition SERVER_BAD_UPLINK_MIN :: int where "SERVER_BAD_UPLINK_MIN = 10"
definition SERVER_BAD_UPLINK_MAX :: int where "SERVER_BAD_UPLINK_MAX = 20"

lemmas server_constants =
  HOST_NONE_def HOST_IP4_def HOST_IP6_def SERVER_MAX_ALTS_def SERVER_RTT_PROBES_def
  UPLINK_MAX_QUEUE_def UPLINK_MAX_CLIENTS_PER_REQUEST_def SERVER_UPLINK_QUEUELEN_THRES_def
  SERVER_UPLINK_IDLE_TIMEOUT_def SERVER_GLOBAL_DUP_TIME_def SERVER_BAD_UPLINK_MIN_def
  SERVER_BAD_UPLINK_MAX_def

end
