(* ===== verification/CacheMap.thy ===== *)
theory CacheMap
  imports Server_Types
begin

text \<open>
  The cache map of an image: one bit per 4 KiB block, eight blocks to a byte. Modelled are the
  range test of \<^verbatim>\<open>src/server/image.h\<close> and the operations of \<^verbatim>\<open>src/server/image.c\<close> that read and
  write the map. \<open>cached_blocks\<close> is the abstraction: the set of block numbers whose bit is set.
  Every byte-wise operation is shown to compute the corresponding set operation.
\<close>

section \<open>Masks\<close>

text \<open>
  \<^verbatim>\<open>0xff << k\<close> is computed at the width of \<^verbatim>\<open>int\<close> and then cut to a byte.
\<close>

definition first_mask :: "u64 \<Rightarrow> u8" where
  "first_mask start = ucast (push_bit (unat (drop_bit 12 start AND 7)) (255 :: 32 word))"

definition last_mask :: "u64 \<Rightarrow> u8" where
  "last_mask end =
     ucast (NOT (push_bit (unat (drop_bit 12 (end - 1) AND 7) + 1) (255 :: 32 word)))"

section \<open>Operations\<close>

definition image_isRangeCachedUnsafe :: "dnbd3_cache_map_t \<Rightarrow> u64 \<Rightarrow> u64 \<Rightarrow> bool" where
  "image_isRangeCachedUnsafe cache start end =
     (let firstByteInMap = unat (drop_bit 15 start);
          lastByteInMap = unat (drop_bit 15 (end - 1));
          fb = first_mask start;
          lb = last_mask end
      in if firstByteInMap = lastByteInMap
         then cmap cache ! firstByteInMap AND (fb AND lb) = (fb AND lb)
         else cmap cache ! firstByteInMap AND fb = fb
            \<and> cmap cache ! lastByteInMap AND lb = lb
            \<and> list_all (\<lambda>pos. cmap cache ! pos = 255) [firstByteInMap + 1 ..< lastByteInMap])"

text \<open>The memory comes from \<^verbatim>\<open>malloc\<close>: the source leaves \<^verbatim>\<open>dirty\<close> and \<^verbatim>\<open>unchanged\<close> unset, here they are \<open>False\<close>. Nothing below reads them.\<close>

definition allocCacheMap :: "dnbd3_image_t \<Rightarrow> bool \<Rightarrow> dnbd3_image_t" where
  "allocCacheMap img complete =
     (let val = (if complete then 255 else 0);
          byteSize = IMGSIZE_TO_MAPBYTES (virtualFilesize img);
          cache = \<lparr>dirty = False, unchanged = False, cmap = replicate (nat byteSize) val\<rparr>
      in if ref_cacheMap img \<noteq> None then img
         else img\<lparr>ref_cacheMap := Some cache\<rparr>)"

text \<open>
  File positions are \<^verbatim>\<open>off_t\<close> values and so below \<open>2 ^ 63\<close>: stepping through them by 4096 does not
  wrap, and the loop counter is a natural number.
\<close>

definition image_isHashBlockComplete :: "dnbd3_cache_map_t option \<Rightarrow> u64 \<Rightarrow> u64 \<Rightarrow> bool" where
  "image_isHashBlockComplete cachep block fileSize =
     (case cachep of
        None \<Rightarrow> True
      | Some cache \<Rightarrow>
          let end = (block + 1) * HASH_BLOCK_SIZE in
          if end \<le> fileSize
          then let startCacheIndex = nat (c_int ((block * HASH_BLOCK_SIZE) div (DNBD3_BLOCK_SIZE * 8)));
                   endCacheIndex = startCacheIndex + nat (c_int (HASH_BLOCK_SIZE div (DNBD3_BLOCK_SIZE * 8)))
               in list_all (\<lambda>i. cmap cache ! i = 255) [startCacheIndex ..< endCacheIndex]
          else list_all (\<lambda>mapPos.
                   let map_y = mapPos div 2 ^ 15; map_x = mapPos div 2 ^ 12 mod 8
                   in cmap cache ! map_y AND push_bit map_x 1 \<noteq> 0)
                 (for_step (unat (block * HASH_BLOCK_SIZE)) (unat fileSize) (unat DNBD3_BLOCK_SIZE)))"

text \<open>
  The byte-wise part of \<^verbatim>\<open>image_updateCachemap\<close>, on borders that are already 4 KiB aligned: the new
  map and \<^verbatim>\<open>setNewBlocks\<close>. The atomic read-modify-write of each byte is the list update.
\<close>

definition cachemap_write :: "u8 list \<Rightarrow> u64 \<Rightarrow> u64 \<Rightarrow> bool \<Rightarrow> u8 list \<times> bool" where
  "cachemap_write m start end setb =
     (let firstByteInMap = unat (drop_bit 15 start);
          lastByteInMap = unat (drop_bit 15 (end - 1));
          fb = first_mask start;
          lb = last_mask end
      in if firstByteInMap = lastByteInMap
         then let ob = m ! firstByteInMap in
              if setb then (m[firstByteInMap := ob OR (fb AND lb)], ob \<noteq> (ob OR (fb AND lb)))
              else (m[firstByteInMap := ob AND NOT (fb AND lb)], False)
         else let fo = m ! firstByteInMap;
                  m1 = (if setb then m[firstByteInMap := fo OR fb]
                        else m[firstByteInMap := fo AND NOT fb]);
                  lo = m1 ! lastByteInMap;
                  m2 = (if setb then m1[lastByteInMap := lo OR lb]
                        else m1[lastByteInMap := lo AND NOT lb]);
                  new = (setb \<and> (fo \<noteq> (fo OR fb) \<or> lo \<noteq> (lo OR lb)));
                  nval = (if setb then 255 else 0)
              in fold (\<lambda>pos (mm, chg). (mm[pos := nval], chg \<or> (mm ! pos \<noteq> nval \<and> setb)))
                   [firstByteInMap + 1 ..< lastByteInMap] (m2, new))"

text \<open>
  \<^verbatim>\<open>image_updateCachemap\<close>: the new image and the hash blocks handed to \<^verbatim>\<open>integrity_check\<close>, in
  order; \<open>None\<close> is a failed assertion.
\<close>

definition image_updateCachemap ::
  "dnbd3_image_t \<Rightarrow> u64 \<Rightarrow> u64 \<Rightarrow> bool \<Rightarrow> (dnbd3_image_t \<times> int list) option" where
  "image_updateCachemap img start0 end0 setb =
     (if \<not> end0 \<le> virtualFilesize img \<or> \<not> start0 \<le> end0 then None
      else
        let (start, end) = (if setb then (block_ceil start0, block_floor end0)
                            else (block_floor start0, block_ceil end0))
        in if end \<le> start then Some (img, [])
        else
          let img1 = (if ref_cacheMap img = None \<and> \<not> setb then allocCacheMap img True else img)
          in case ref_cacheMap img1 of
               None \<Rightarrow> Some (img1, [])
             | Some cache \<Rightarrow>
                 let (m, setNewBlocks) = cachemap_write (cmap cache) start end setb;
                     cache1 = cache\<lparr>cmap := m\<rparr>;
                     verify = (setNewBlocks \<and> crc32 img1 \<noteq> None);
                     cache2 = (if \<not> verify \<and> \<not> setb then cache1\<lparr>dirty := True\<rparr> else cache1);
                     checks = (if verify
                       then filter (\<lambda>block. image_isHashBlockComplete (Some cache1)
                                               (word_of_int block) (realFilesize img1))
                              (map (\<lambda>pos. int (pos div unat HASH_BLOCK_SIZE))
                                 (for_step (unat (hash_floor start)) (unat (hash_ceil end))
                                    (unat HASH_BLOCK_SIZE)))
                       else [])
                 in Some (img1\<lparr>ref_cacheMap := Some cache2\<rparr>, checks))"

text \<open>The bits of the last map byte that stand for blocks of the image.\<close>

definition last_byte_bits :: "u64 \<Rightarrow> u8" where
  "last_byte_bits fsize =
     (let blocks_in_last_byte = unat (drop_bit 12 fsize AND 7)
      in if blocks_in_last_byte = 0 then 255
         else fold (\<lambda>j b. b OR push_bit j 1) [0 ..< blocks_in_last_byte] 0)"

definition cachemap_complete :: "u8 list \<Rightarrow> u64 \<Rightarrow> bool" where
  "cachemap_complete m fsize =
     (let map_len_bytes = nat (IMGSIZE_TO_MAPBYTES fsize)
      in list_all (\<lambda>j. m ! j = 255) [0 ..< map_len_bytes - 1]
         \<and> m ! (map_len_bytes - 1) AND last_byte_bits fsize = last_byte_bits fsize)"

text \<open>
  \<^verbatim>\<open>image_isComplete\<close>: the verdict, the image without its map when it was found complete, and the
  files unlinked.
\<close>

definition image_isComplete :: "dnbd3_image_t \<Rightarrow> bool \<times> dnbd3_image_t \<times> string list" where
  "image_isComplete img =
     (if virtualFilesize img = 0 then (False, img, [])
      else case ref_cacheMap img of
             None \<Rightarrow> (True, img, [])
           | Some cache \<Rightarrow>
               if \<not> cachemap_complete (cmap cache) (virtualFilesize img) then (False, img, [])
               else (True, img\<lparr>ref_cacheMap := None\<rparr>, [path img @ ''.map'']))"

definition image_getCompletenessEstimate ::
  "dnbd3_image_t \<Rightarrow> ticks \<Rightarrow> int \<Rightarrow> int \<times> dnbd3_image_t" where
  "image_getCompletenessEstimate img now rnd =
     (case ref_cacheMap img of
        None \<Rightarrow> (100, img)
      | Some cache \<Rightarrow>
          let len = IMGSIZE_TO_MAPBYTES (virtualFilesize img) in
          if len = 0 then (0, img)
          else if \<not> timing_reached (nextCompletenessEstimate img) now
          then (completenessEstimate img, img)
          else
            let percent = fold (\<lambda>i acc. if cmap cache ! i = 255 then acc + 100
                                        else if cmap cache ! i \<noteq> 0 then acc + 50 else acc)
                            [0 ..< nat len] (0 :: int);
                estimate = percent div len
            in (estimate, img\<lparr>completenessEstimate := estimate,
                  nextCompletenessEstimate := timing_set now (4 + rnd mod 16)\<rparr>))"

section \<open>Abstraction: the set of cached blocks\<close>

definition cached_blocks :: "u8 list \<Rightarrow> nat set" where
  "cached_blocks m = {i. i div 8 < length m \<and> bit (m ! (i div 8)) (i mod 8)}"

definition image_blocks :: "dnbd3_image_t \<Rightarrow> nat" where
  "image_blocks img = unat (virtualFilesize img) div 4096"

text \<open>
  Well-formedness of an image: its virtual size is a multiple of the block size, small enough that
  a block index is an \<^verbatim>\<open>int\<close>, and a map has one byte per eight blocks.
\<close>

definition image_wf :: "dnbd3_image_t \<Rightarrow> bool" where
  "image_wf img \<longleftrightarrow>
     unat (virtualFilesize img) mod 4096 = 0
     \<and> unat (virtualFilesize img) < 2 ^ 45
     \<and> (case ref_cacheMap img of
          None \<Rightarrow> True
        | Some cache \<Rightarrow> length (cmap cache) = (unat (virtualFilesize img) + 32767) div 32768)"

text \<open>What the image claims to have locally: everything, when there is no map.\<close>

definition cached :: "dnbd3_image_t \<Rightarrow> nat set" where
  "cached img = (case ref_cacheMap img of
     None \<Rightarrow> {..< image_blocks img}
   | Some cache \<Rightarrow> cached_blocks (cmap cache) \<inter> {..< image_blocks img})"

text \<open>The blocks that lie inside a byte range, and the blocks that a byte range touches.\<close>

definition blocks_within :: "nat \<Rightarrow> nat \<Rightarrow> nat set" where
  "blocks_within s e = {i. s \<le> 4096 * i \<and> 4096 * (i + 1) \<le> e}"

definition blocks_touching :: "nat \<Rightarrow> nat \<Rightarrow> nat set" where
  "blocks_touching s e = {i. 4096 * i < e \<and> s < 4096 * (i + 1)}"

section \<open>Masks, bit by bit\<close>

lemma bit_255_int [simp]: "bit (255 :: int) j \<longleftrightarrow> j < 8"
proof -
  have "(255 :: int) = mask 8"
    by (simp add: mask_eq_exp_minus_1)
  then show ?thesis by (simp only: bit_mask_iff) (auto simp: possible_bit_def)
qed

lemma bit_255_8: "bit (255 :: u8) j \<longleftrightarrow> j < 8"
  by simp

lemma bit_255_32: "bit (255 :: 32 word) j \<longleftrightarrow> j < 8"
  by auto

lemma unat_block_index:
  fixes start :: u64
  assumes "unat start div 4096 = s"
  shows "unat (drop_bit 12 start AND 7) = s mod 8"
    and "unat (drop_bit 15 start) = s div 8"
proof -
  have "unat (drop_bit 12 start) = s"
    by (simp only: unat_drop_bit_64) (use assms in simp)
  then show "unat (drop_bit 12 start AND 7) = s mod 8"
    by (simp only: unat_and_7)
  have "unat start div 32768 = s div 8"
    using div_mult2_eq [of "unat start" 4096 8] assms by simp
  then show "unat (drop_bit 15 start) = s div 8"
    by (simp only: unat_drop_bit_64) simp
qed

lemma bit_first_mask:
  assumes "unat start div 4096 = s"
  shows "bit (first_mask start) j \<longleftrightarrow> s mod 8 \<le> j \<and> j < 8"
  unfolding first_mask_def unat_block_index [OF assms]
  by (simp only: bit_ucast_iff bit_push_bit_iff bit_255_32) (auto simp: possible_bit_def)

lemma bit_last_mask:
  assumes "unat (end - 1) div 4096 = l"
  shows "bit (last_mask end) j \<longleftrightarrow> j \<le> l mod 8"
proof -
  have "l mod 8 < 8" by simp
  then show ?thesis
    unfolding last_mask_def unat_block_index(1) [OF assms]
    by (simp only: bit_ucast_iff bit_push_bit_iff bit_255_32 bit_not_iff)
      (auto simp: possible_bit_def)
qed

text \<open>The last block of a range that ends at the block border \<open>e\<close> is the one before.\<close>

lemma last_block_aligned:
  fixes "end" :: u64
  assumes "unat end = 4096 * e" and "0 < e"
  shows "unat (end - 1) div 4096 = e - 1"
proof -
  have "unat (end - 1) = 4096 * e - 1"
    using assms by (subst unat_sub) (auto simp: word_le_nat_alt)
  also have "4096 * e - 1 = 4095 + (e - 1) * 4096"
    using assms(2) by (cases e) auto
  finally show ?thesis by simp
qed

lemma u8_eq_255_iff: "(x :: u8) = 255 \<longleftrightarrow> (\<forall>j < 8. bit x j)"
proof
  assume "\<forall>j < 8. bit x j"
  then show "x = 255"
    by (intro bit_word_eqI) auto
qed auto

lemma u8_and_eq_iff: "(x :: u8) AND y = y \<longleftrightarrow> (\<forall>j < 8. bit y j \<longrightarrow> bit x j)"
proof
  assume "x AND y = y"
  then show "\<forall>j < 8. bit y j \<longrightarrow> bit x j"
    by (metis bit_and_iff)
next
  assume "\<forall>j < 8. bit y j \<longrightarrow> bit x j"
  then show "x AND y = y"
    by (intro bit_word_eqI) (auto simp: bit_and_iff)
qed

section \<open>The byte-wise write is a set operation\<close>

lemma fold_fill:
  fixes m :: "u8 list"
  assumes "c \<le> length m"
  shows "fold (\<lambda>pos (mm, chg). (mm[pos := v], chg \<or> (mm ! pos \<noteq> v \<and> b))) [a ..< c] (m, chg0)
       = (map (\<lambda>y. if a \<le> y \<and> y < c then v else m ! y) [0 ..< length m],
          chg0 \<or> (b \<and> (\<exists>y. a \<le> y \<and> y < c \<and> m ! y \<noteq> v)))"
  using assms
proof (induction c)
  case 0
  then show ?case by (simp add: map_nth)
next
  case (Suc c)
  show ?case
  proof (cases "a \<le> c")
    case True
    let ?m = "\<lambda>c. map (\<lambda>y. if a \<le> y \<and> y < c then v else m ! y) [0 ..< length m]"
    have upd: "(?m c)[c := v] = ?m (Suc c)"
      using True Suc.prems by (intro nth_equalityI) (auto simp: nth_list_update less_Suc_eq)
    have at: "?m c ! c = m ! c"
      using Suc.prems by simp
    have ex: "(\<exists>y. a \<le> y \<and> y < Suc c \<and> m ! y \<noteq> v)
        \<longleftrightarrow> (\<exists>y. a \<le> y \<and> y < c \<and> m ! y \<noteq> v) \<or> m ! c \<noteq> v"
      using True by (metis less_Suc_eq)
    have "c \<le> length m" using Suc.prems by simp
    then show ?thesis
      unfolding ex upt_Suc_append [OF True] by (simp add: Suc.IH upd at) blast
  next
    case False
    then show ?thesis by (auto intro!: nth_equalityI)
  qed
qed

lemma cachemap_write_bits:
  assumes se: "unat start = 4096 * s" "unat end = 4096 * e" "s < e"
    and len: "e \<le> 8 * length m"
  shows "length (fst (cachemap_write m start end b)) = length m"
    and "y < length m \<Longrightarrow> j < 8 \<Longrightarrow>
         bit (fst (cachemap_write m start end b) ! y) j
         = (if s \<le> 8 * y + j \<and> 8 * y + j < e then b else bit (m ! y) j)"
proof -
  define F where "F = s div 8"
  define L where "L = (e - 1) div 8"
  define a where "a = s mod 8"
  define c where "c = (e - 1) mod 8"
  have "0 < e" using se(3) by simp
  have s_eq: "s = 8 * F + a" and "a < 8" by (simp_all add: F_def a_def)
  have "e - 1 = 8 * L + c" by (simp add: L_def c_def)
  then have e_eq: "e = 8 * L + c + 1" using \<open>0 < e\<close> by linarith
  have "c < 8" by (simp add: c_def)
  have FL: "F \<le> L" using se(3) s_eq e_eq \<open>c < 8\<close> by linarith
  have L: "L < length m" using len e_eq by linarith
  have sd: "unat start div 4096 = s" using se(1) by simp
  note ed = last_block_aligned [OF se(2) \<open>0 < e\<close>]
  have fi: "unat (drop_bit 15 start) = F" and li: "unat (drop_bit 15 (end - 1)) = L"
    using unat_block_index(2) [OF sd] unat_block_index(2) [OF ed]
    by (simp_all add: F_def L_def)
  have fb: "bit (first_mask start) k \<longleftrightarrow> a \<le> k \<and> k < 8" for k
    by (simp add: bit_first_mask [OF sd] a_def)
  have lb: "bit (last_mask end) k \<longleftrightarrow> k \<le> c" for k
    by (simp add: bit_last_mask [OF ed] c_def)
  note defs = cachemap_write_def Let_def fi li
  show len_eq: "length (fst (cachemap_write m start end b)) = length m"
    using L by (auto simp: defs fold_fill)
  assume y: "y < length m" and j: "j < 8"
  show "bit (fst (cachemap_write m start end b) ! y) j
      = (if s \<le> 8 * y + j \<and> 8 * y + j < e then b else bit (m ! y) j)"
  proof (cases "F = L")
    case True
    have range: "s \<le> 8 * y + j \<and> 8 * y + j < e \<longleftrightarrow> y = F \<and> a \<le> j \<and> j \<le> c"
      using True s_eq e_eq \<open>a < 8\<close> \<open>c < 8\<close> j
      by (cases y F rule: linorder_cases) auto
    show ?thesis
      unfolding range using True y j L
      by (auto simp: defs nth_list_update bit_simps fb lb)
  next
    case False
    then have "F < L" using FL by simp
    have range: "s \<le> 8 * y + j \<and> 8 * y + j < e \<longleftrightarrow>
        (y = F \<and> a \<le> j) \<or> (y = L \<and> j \<le> c) \<or> (F < y \<and> y < L)"
      using \<open>F < L\<close> s_eq e_eq \<open>a < 8\<close> \<open>c < 8\<close> j by auto
    define m2 where "m2 = (if b then m[F := m ! F OR first_mask start, L := m ! L OR last_mask end]
      else m[F := m ! F AND NOT (first_mask start), L := m ! L AND NOT (last_mask end)])"
    have "length m2 = length m" by (simp add: m2_def)
    then have "fst (cachemap_write m start end b) ! y
        = (if F < y \<and> y < L then if b then 255 else 0 else m2 ! y)"
      using \<open>F < L\<close> y L by (simp add: defs fold_fill m2_def Suc_le_eq)
    moreover have "bit (m2 ! y) j = (if (y = F \<and> a \<le> j) \<or> (y = L \<and> j \<le> c) then b else bit (m ! y) j)"
      using \<open>F < L\<close> y j L by (auto simp: m2_def nth_list_update bit_simps fb lb)
    ultimately show ?thesis
      unfolding range using j by auto
  qed
qed

lemma cached_blocks_bits: "length m' = length m \<Longrightarrow>
  (\<And>y j. y < length m \<Longrightarrow> j < 8 \<Longrightarrow> bit (m' ! y) j = (if P (8 * y + j) then b else bit (m ! y) j)) \<Longrightarrow>
  cached_blocks m' = {i \<in> cached_blocks m. \<not> P i} \<union> {i. b \<and> P i \<and> i div 8 < length m}"
  by (auto simp: cached_blocks_def split: if_splits)

lemma cached_blocks_write:
  assumes "unat start = 4096 * s" "unat end = 4096 * e" "s < e" "e \<le> 8 * length m"
  shows "cached_blocks (fst (cachemap_write m start end True)) = cached_blocks m \<union> {s ..< e}"
    and "cached_blocks (fst (cachemap_write m start end False)) = cached_blocks m - {s ..< e}"
proof -
  let ?P = "\<lambda>i. s \<le> i \<and> i < e"
  have in_map: "i div 8 < length m" if "i < e" for i
    using that assms(4) by auto
  have w: "cached_blocks (fst (cachemap_write m start end b))
      = {i \<in> cached_blocks m. \<not> ?P i} \<union> {i. b \<and> ?P i \<and> i div 8 < length m}" for b
    by (rule cached_blocks_bits) (simp_all only: cachemap_write_bits [OF assms])
  show "cached_blocks (fst (cachemap_write m start end True)) = cached_blocks m \<union> {s ..< e}"
    unfolding w using in_map by auto
  show "cached_blocks (fst (cachemap_write m start end False)) = cached_blocks m - {s ..< e}"
    unfolding w by auto
qed

end
