(* ===== verification/CacheImage.thy ===== *)
theory CacheImage
  imports CacheMap
begin

text \<open>
  The cache map seen from the image: each operation of \<^verbatim>\<open>image.c\<close> on the map computes a set operation on
  \<open>cached\<close>, keeps \<open>image_wf\<close>, and its assertions hold on ranges inside the image. The locale
  \<open>range_cache\<close> is the contract the server relies on when it answers clients from the local file.
\<close>

text \<open>
  How a reader asks for a range: \<^verbatim>\<open>net_clientsHandler\<close> and the FUSE file system test the map only when
  the image has one, on the range rounded to blocks.
\<close>

definition range_is_cached :: "dnbd3_image_t \<Rightarrow> u64 \<Rightarrow> u64 \<Rightarrow> bool" where
  "range_is_cached img start end =
     (case ref_cacheMap img of
        None \<Rightarrow> True
      | Some cache \<Rightarrow> image_isRangeCachedUnsafe cache (block_floor start) (block_ceil end))"

text \<open>The two directions of the update, without the list of hash blocks to verify.\<close>

definition mark_range :: "dnbd3_image_t \<Rightarrow> u64 \<Rightarrow> u64 \<Rightarrow> dnbd3_image_t option" where
  "mark_range img a b = map_option fst (image_updateCachemap img a b True)"

definition clear_range :: "dnbd3_image_t \<Rightarrow> u64 \<Rightarrow> u64 \<Rightarrow> dnbd3_image_t option" where
  "clear_range img a b = map_option fst (image_updateCachemap img a b False)"

text \<open>A ten-block image with the first four blocks cached.\<close>

definition sample_image :: dnbd3_image_t where
  "sample_image =
     \<lparr>path = ''/img/a.r1'', name = ''a'', uplinkref = None,
      ref_cacheMap = Some \<lparr>dirty = False, unchanged = False, cmap = [15, 0]\<rparr>,
      virtualFilesize = 40960, realFilesize = 40000, atime = \<lparr>tv_sec = 0, tv_nsec = 0\<rparr>,
      nextCompletenessEstimate = \<lparr>tv_sec = 0, tv_nsec = 0\<rparr>, crc32 = None, masterCrc32 = 0,
      readFd = 5, completenessEstimate = 0, users = 0, img_id = 1,
      problem = \<lparr>p_read = False, p_write = False, p_changed = False, p_uplink = False, p_queue = False\<rparr>,
      rid = 1, accessed = False\<rparr>"

section \<open>Byte ranges and block ranges\<close>

lemma blocks_within_eq: "blocks_within s e = {(s + 4095) div 4096 ..< e div 4096}"
proof -
  have "s \<le> 4096 * i \<longleftrightarrow> (s + 4095) div 4096 \<le> i" for i
    by linarith
  moreover have "4096 * (i + 1) \<le> e \<longleftrightarrow> i < e div 4096" for i
    using less_eq_div_iff_mult_less_eq [of 4096 "i + 1" e] by (simp add: mult.commute Suc_le_eq)
  ultimately show ?thesis by (auto simp: blocks_within_def)
qed

lemma blocks_touching_eq: "blocks_touching s e = {s div 4096 ..< (e + 4095) div 4096}"
proof -
  have "s < 4096 * (i + 1) \<longleftrightarrow> s div 4096 \<le> i" for i
    using div_less_iff_less_mult [of 4096 s "i + 1"] by (simp add: mult.commute less_Suc_eq_le)
  moreover have "4096 * i < e \<longleftrightarrow> i < (e + 4095) div 4096" for i
    using less_eq_div_iff_mult_less_eq [of 4096 "i + 1" "e + 4095"]
    by (simp add: mult.commute Suc_le_eq)
  ultimately show ?thesis by (auto simp: blocks_touching_def)
qed

lemma blocks_touching_aligned: "blocks_touching (4096 * s) (4096 * e) = {s ..< e}"
  by (auto simp: blocks_touching_eq)

lemma touching_within:
  assumes "4096 dvd a" "4096 dvd b" "a \<le> c" "d \<le> b"
  shows "blocks_touching c d \<subseteq> blocks_within a b"
proof
  obtain k l where ab: "a = 4096 * k" "b = 4096 * l" using assms(1,2) by (auto elim!: dvdE)
  fix i assume "i \<in> blocks_touching c d"
  then have "4096 * i < 4096 * l" "4096 * k < 4096 * (i + 1)"
    using assms(3,4) ab by (auto simp: blocks_touching_def)
  then have "k \<le> i" "i + 1 \<le> l" by simp_all
  then show "i \<in> blocks_within a b" unfolding blocks_within_def ab by simp
qed

lemma mapbytes_eq [word_nat]:
  assumes "unat v < 2 ^ 45"
  shows "IMGSIZE_TO_MAPBYTES v = int ((unat v + 32767) div 32768)"
proof -
  have "v + 32768 - 1 = v + 32767" by simp
  then have v: "unat (drop_bit 15 (v + 32768 - 1)) = (unat v + 32767) div 32768"
    using assms by (simp only: unat_drop_bit_64) (subst unat_add_no_wrap; simp)
  have "(unat v + 32767) div 32768 < 2 ^ 31"
    using assms by (intro less_mult_imp_div_less) simp
  then show ?thesis
    unfolding IMGSIZE_TO_MAPBYTES_def by (subst c_int_small) (simp_all only: v)
qed

lemma image_wf_map:
  assumes "image_wf img" "ref_cacheMap img = Some cache"
  shows "image_blocks img \<le> 8 * length (cmap cache)"
    and "8 * length (cmap cache) < image_blocks img + 8"
    and "unat (virtualFilesize img) = 4096 * image_blocks img"
  using assms by (auto simp: image_wf_def image_blocks_def)

lemma image_wf_size:
  assumes "image_wf img"
  shows "unat (virtualFilesize img) = 4096 * image_blocks img"
    and "unat (virtualFilesize img) < 2 ^ 45"
  using assms by (auto simp: image_wf_def image_blocks_def)

lemma image_wf_allocCacheMap [simp]:
  assumes "image_wf img"
  shows "image_wf (allocCacheMap img b)"
  using assms mapbytes_eq [OF image_wf_size(2) [OF assms]]
  by (auto simp: allocCacheMap_def Let_def image_wf_def)

section \<open>Updating the map of an image\<close>

lemma cached_blocks_replicate: "cached_blocks (replicate n 255) = {..< 8 * n}"
  by (auto simp: cached_blocks_def)

lemma cached_allocCacheMap:
  assumes "image_wf img" "ref_cacheMap img = None"
  shows "cached (allocCacheMap img True) = cached img"
    and "cached (allocCacheMap img False) = {}"
proof -
  have "image_blocks img \<le> 8 * ((unat (virtualFilesize img) + 32767) div 32768)"
    using image_wf_size [OF assms(1)] by simp
  then show "cached (allocCacheMap img True) = cached img"
    using assms(2) mapbytes_eq [OF image_wf_size(2) [OF assms(1)]]
    by (auto simp: allocCacheMap_def cached_def cached_blocks_replicate image_blocks_def)
  show "cached (allocCacheMap img False) = {}"
    using assms(2) by (auto simp: allocCacheMap_def cached_def cached_blocks_def)
qed

lemma update_aligned:
  assumes wf: "image_wf img" and le: "start \<le> end" "end \<le> virtualFilesize img"
  shows "unat (block_ceil start) = 4096 * ((unat start + 4095) div 4096)"
    and "unat (block_floor end) = 4096 * (unat end div 4096)"
    and "unat (block_floor start) = 4096 * (unat start div 4096)"
    and "unat (block_ceil end) = 4096 * ((unat end + 4095) div 4096)"
    and "(unat end + 4095) div 4096 \<le> image_blocks img"
proof -
  have "unat end \<le> 4096 * image_blocks img" "unat start \<le> unat end" "unat end < 2 ^ 45"
    using le image_wf_size [OF wf] by (auto simp: word_le_nat_alt)
  then show "unat (block_ceil start) = 4096 * ((unat start + 4095) div 4096)"
    and "unat (block_floor end) = 4096 * (unat end div 4096)"
    and "unat (block_floor start) = 4096 * (unat start div 4096)"
    and "unat (block_ceil end) = 4096 * ((unat end + 4095) div 4096)"
    and "(unat end + 4095) div 4096 \<le> image_blocks img"
    by (simp_all add: unat_block_ceil unat_block_floor mult.commute)
qed


text \<open>The shape of every successful update: only the map changes.\<close>

lemma update_frame:
  "image_updateCachemap img start end b = Some (img', checks) \<Longrightarrow>
     img' = img\<lparr>ref_cacheMap := ref_cacheMap img'\<rparr>"
  by (auto simp: image_updateCachemap_def allocCacheMap_def Let_def
      split: if_splits option.splits prod.splits)

lemma update_none_iff:
  "image_updateCachemap img start end b = None \<longleftrightarrow> \<not> (start \<le> end \<and> end \<le> virtualFilesize img)"
  by (auto simp: image_updateCachemap_def Let_def split: option.splits prod.splits)

text \<open>An update with a map present writes the aligned range; without one it is a no-op.\<close>

lemma update_writes:
  assumes "image_updateCachemap img start end b = Some (img', checks)"
    and "ref_cacheMap (if b then img else allocCacheMap img True) = Some cache"
    and "(s, e) = (if b then (block_ceil start, block_floor end) else (block_floor start, block_ceil end))"
    and "s < e"
  shows "\<exists>cache'. ref_cacheMap img' = Some cache' \<and> cmap cache' = fst (cachemap_write (cmap cache) s e b)"
  using assms
  by (cases "cachemap_write (cmap cache) s e b"; cases b)
    (auto simp: image_updateCachemap_def Let_def allocCacheMap_def split: if_splits option.splits)

lemma update_skips:
  assumes "image_updateCachemap img start end b = Some (img', checks)"
    and "(s, e) = (if b then (block_ceil start, block_floor end) else (block_floor start, block_ceil end))"
    and "e \<le> s \<or> b \<and> ref_cacheMap img = None"
  shows "img' = img"
  using assms by (auto simp: image_updateCachemap_def Let_def split: if_splits option.splits)

lemma update_mark:
  assumes wf: "image_wf img" and upd: "image_updateCachemap img start end True = Some (img', checks)"
  shows "image_wf img'" "cached img' = cached img \<union> blocks_within (unat start) (unat end)"
proof -
  define s where "s = (unat start + 4095) div 4096"
  define e where "e = unat end div 4096"
  have le: "start \<le> end" "end \<le> virtualFilesize img"
    using upd update_none_iff [of img start "end" True] by auto
  note al = update_aligned [OF wf le]
  have se: "unat (block_ceil start) = 4096 * s" "unat (block_floor end) = 4096 * e"
    using al by (simp_all add: s_def e_def)
  have e: "e \<le> image_blocks img" using al(5) unfolding e_def by linarith
  have "image_wf img' \<and> cached img' = cached img \<union> {s ..< e}"
  proof (cases "s < e \<and> ref_cacheMap img \<noteq> None")
    case True
    then obtain cache where c: "ref_cacheMap img = Some cache" by auto
    have "e \<le> 8 * length (cmap cache)" using e image_wf_map(1) [OF wf c] by simp
    note w = cachemap_write_bits(1) [OF se _ this] cached_blocks_write(1) [OF se _ this]
    from True se have "block_ceil start < block_floor end" by (simp add: word_less_nat_alt)
    with update_writes [OF upd, of cache] c obtain cache' where
      c': "ref_cacheMap img' = Some cache'"
          "cmap cache' = fst (cachemap_write (cmap cache) (block_ceil start) (block_floor end) True)"
      by auto
    obtain mp where i: "img' = img\<lparr>ref_cacheMap := mp\<rparr>" using update_frame [OF upd] by metis
    show ?thesis
      using True wf w c c' e by (auto simp: i image_wf_def cached_def image_blocks_def)
  next
    case False
    then have "img' = img"
      using update_skips [OF upd] se by (auto simp: word_le_nat_alt)
    then show ?thesis using False wf e by (auto simp: cached_def)
  qed
  then show "image_wf img'" "cached img' = cached img \<union> blocks_within (unat start) (unat end)"
    by (simp_all add: blocks_within_eq s_def e_def)
qed

lemma update_clear:
  assumes wf: "image_wf img" and upd: "image_updateCachemap img start end False = Some (img', checks)"
  shows "image_wf img'" "cached img' = cached img - blocks_touching (unat start) (unat end)"
proof -
  define s where "s = unat start div 4096"
  define e where "e = (unat end + 4095) div 4096"
  have le: "start \<le> end" "end \<le> virtualFilesize img"
    using upd update_none_iff [of img start "end" False] by auto
  note al = update_aligned [OF wf le]
  have se: "unat (block_floor start) = 4096 * s" "unat (block_ceil end) = 4096 * e"
    using al by (simp_all add: s_def e_def)
  have "image_wf img' \<and> cached img' = cached img - {s ..< e}"
  proof (cases "s < e")
    case True
    let ?img = "allocCacheMap img True"
    have wf1: "image_wf ?img" using wf by simp
    have cd: "cached ?img = cached img"
      using cached_allocCacheMap(1) [OF wf] by (cases "ref_cacheMap img") (auto simp: allocCacheMap_def)
    have nb: "image_blocks ?img = image_blocks img" by (simp add: allocCacheMap_def image_blocks_def)
    obtain cache where c: "ref_cacheMap ?img = Some cache"
      by (cases "ref_cacheMap img") (auto simp: allocCacheMap_def Let_def)
    have "e \<le> 8 * length (cmap cache)" using al(5) image_wf_map(1) [OF wf1 c] nb by (simp add: e_def)
    note w = cachemap_write_bits(1) [OF se True this] cached_blocks_write(2) [OF se True this]
    from True se have "block_floor start < block_ceil end" by (simp add: word_less_nat_alt)
    with update_writes [OF upd, of cache] c obtain cache' where
      c': "ref_cacheMap img' = Some cache'"
          "cmap cache' = fst (cachemap_write (cmap cache) (block_floor start) (block_ceil end) False)"
      by auto
    obtain mp where i: "img' = img\<lparr>ref_cacheMap := mp\<rparr>" using update_frame [OF upd] by metis
    have "virtualFilesize ?img = virtualFilesize img" by (simp add: allocCacheMap_def Let_def)
    then show ?thesis
      using wf1 w c c' unfolding cd [symmetric] by (auto simp: i image_wf_def cached_def image_blocks_def)
  next
    case False
    then have "img' = img" using update_skips [OF upd] se by (auto simp: word_le_nat_alt)
    then show ?thesis using False wf by auto
  qed
  then show "image_wf img'" "cached img' = cached img - blocks_touching (unat start) (unat end)"
    by (simp_all add: blocks_touching_eq s_def e_def)
qed

section \<open>Testing a range\<close>

text \<open>Bits \<open>s .. l\<close> of the map are set when the first and last byte match their masks and the bytes between are full.\<close>

lemma byte_test:
  fixes m :: "u8 list" and x :: u8
  assumes "y < length m" and "\<And>j. j < 8 \<Longrightarrow> bit x j \<longleftrightarrow> P (8 * y + j)"
  shows "m ! y AND x = x \<longleftrightarrow> (\<forall>i. i div 8 = y \<and> P i \<longrightarrow> i \<in> cached_blocks m)"
proof -
  have "m ! y AND x = x \<longleftrightarrow> (\<forall>j < 8. P (8 * y + j) \<longrightarrow> bit (m ! y) j)"
    using assms(2) by (simp add: u8_and_eq_iff)
  also have "\<dots> \<longleftrightarrow> (\<forall>i. i div 8 = y \<and> P i \<longrightarrow> bit (m ! (i div 8)) (i mod 8))"
  proof (intro iffI allI impI)
    fix i assume *: "\<forall>j < 8. P (8 * y + j) \<longrightarrow> bit (m ! y) j" "i div 8 = y \<and> P i"
    then have "8 * y + i mod 8 = i" by auto
    with * show "bit (m ! (i div 8)) (i mod 8)" by (metis mod_less_divisor zero_less_numeral)
  next
    fix j assume *: "\<forall>i. i div 8 = y \<and> P i \<longrightarrow> bit (m ! (i div 8)) (i mod 8)" "j < (8 :: nat)" "P (8 * y + j)"
    then show "bit (m ! y) j" using *(1) [rule_format, of "8 * y + j"] by simp
  qed
  finally show ?thesis using assms(1) by (auto simp: cached_blocks_def)
qed

lemma byte_full:
  "y < length m \<Longrightarrow> m ! y = 255 \<longleftrightarrow> (\<forall>i. i div 8 = y \<longrightarrow> i \<in> cached_blocks m)"
  unfolding u8_eq_255_iff
  using byte_test [of y m 255 "\<lambda>_. True"] by (simp only: u8_and_eq_iff bit_255_8) simp

lemma range_bits:
  fixes m :: "u8 list"
  assumes F: "F = s div 8" and L: "L = l div 8" and "s \<le> l" and len: "L < length m"
    and fb: "\<And>j. j < 8 \<Longrightarrow> bit fb j \<longleftrightarrow> s \<le> 8 * F + j"
    and lb: "\<And>j. j < 8 \<Longrightarrow> bit lb j \<longleftrightarrow> 8 * L + j \<le> l"
  shows "(if F = L then m ! F AND (fb AND lb) = (fb AND lb)
          else m ! F AND fb = fb \<and> m ! L AND lb = lb \<and> list_all (\<lambda>pos. m ! pos = 255) [F + 1 ..< L])
     \<longleftrightarrow> {s .. l} \<subseteq> cached_blocks m"
proof -
  have FL: "F \<le> L" unfolding F L using \<open>s \<le> l\<close> by (rule div_le_mono)
  have in_range: "F \<le> i div 8 \<and> i div 8 \<le> L" if "s \<le> i" "i \<le> l" for i
    using that by (auto simp: F L div_le_mono)
  have first: "m ! F AND fb = fb \<longleftrightarrow> (\<forall>i. i div 8 = F \<and> s \<le> i \<longrightarrow> i \<in> cached_blocks m)"
    using FL len fb by (intro byte_test) auto
  have last: "m ! L AND lb = lb \<longleftrightarrow> (\<forall>i. i div 8 = L \<and> i \<le> l \<longrightarrow> i \<in> cached_blocks m)"
    using len lb by (intro byte_test) auto
  have both: "m ! F AND (fb AND lb) = (fb AND lb)
      \<longleftrightarrow> (\<forall>i. i div 8 = F \<and> s \<le> i \<and> i \<le> l \<longrightarrow> i \<in> cached_blocks m)" if "F = L"
    using that len fb lb by (intro byte_test) (auto simp: bit_and_iff)
  have mid: "list_all (\<lambda>pos. m ! pos = 255) [F + 1 ..< L]
      \<longleftrightarrow> (\<forall>i. F < i div 8 \<and> i div 8 < L \<longrightarrow> i \<in> cached_blocks m)"
    using len by (auto simp: list_all_iff byte_full Suc_le_eq)
  show ?thesis
  proof (cases "F = L")
    case True
    moreover have "i div 8 = F" if "s \<le> i" "i \<le> l" for i using in_range [OF that] True by simp
    ultimately show ?thesis using both [OF True] by (auto simp: subset_iff)
  next
    case False
    then have "F < L" using FL by simp
    have low: "s \<le> i" if "F < i div 8" for i using that unfolding F by (metis div_le_mono leD nat_le_linear)
    have high: "i \<le> l" if "i div 8 < L" for i using that unfolding L by (metis div_le_mono leD nat_le_linear)
    have "i \<in> {s .. l} \<longleftrightarrow> (i div 8 = F \<and> s \<le> i) \<or> (i div 8 = L \<and> i \<le> l) \<or> (F < i div 8 \<and> i div 8 < L)" for i
      using in_range [of i] low [of i] high [of i] \<open>F < L\<close> by fastforce
    then show ?thesis
      unfolding first last mid subset_iff using False by auto
  qed
qed

lemma range_test:
  assumes se: "unat start < unat end" and len: "unat end \<le> 32768 * length (cmap cache)"
  shows "image_isRangeCachedUnsafe cache start end
     \<longleftrightarrow> blocks_touching (unat start) (unat end) \<subseteq> cached_blocks (cmap cache)"
proof -
  define s where "s = unat start div 4096"
  define l where "l = unat (end - 1) div 4096"
  have e1: "unat (end - 1) = unat end - 1"
    using se by (subst unat_sub) (auto simp: word_le_nat_alt)
  have "s \<le> l" unfolding s_def l_def e1 using se by (intro div_le_mono) simp
  have "l < 8 * length (cmap cache)"
    unfolding l_def e1 using se len by (intro less_mult_imp_div_less) simp
  then have L: "l div 8 < length (cmap cache)" by auto
  have fi: "unat (drop_bit 15 start) = s div 8" "unat (drop_bit 15 (end - 1)) = l div 8"
    using unat_block_index(2) [of start s] unat_block_index(2) [of "end - 1" l]
    by (simp_all add: s_def l_def)
  have "unat end + 4095 = (unat end - 1) + 1 * 4096" using se by simp
  then have "(unat end + 4095) div 4096 = Suc l"
    unfolding l_def e1 by (simp only: div_mult_self1)
  then have touch: "blocks_touching (unat start) (unat end) = {s .. l}"
    by (auto simp: blocks_touching_eq s_def)
  have fb: "bit (first_mask start) j \<longleftrightarrow> s \<le> 8 * (s div 8) + j" if "j < 8" for j
    using that mult_div_mod_eq [of 8 s] bit_first_mask [OF s_def [symmetric], of j] by linarith
  have lb: "bit (last_mask end) j \<longleftrightarrow> 8 * (l div 8) + j \<le> l" if "j < 8" for j
    using that mult_div_mod_eq [of 8 l] bit_last_mask [OF l_def [symmetric], of j] by linarith
  show ?thesis
    unfolding touch image_isRangeCachedUnsafe_def Let_def fi
    using range_bits [OF refl refl \<open>s \<le> l\<close> L fb lb] by simp
qed

section \<open>Completeness\<close>

lemma bit_last_byte_bits:
  assumes "j < 8"
  shows "bit (last_byte_bits v) j \<longleftrightarrow> unat v div 4096 mod 8 = 0 \<or> j < unat v div 4096 mod 8"
proof -
  have f: "bit (fold (\<lambda>j b. b OR push_bit j 1) [0 ..< n] (0 :: u8)) j \<longleftrightarrow> j < n" if "n \<le> 8" for n
    using that assms by (induction n) (auto simp: bit_simps)
  have "unat (drop_bit 12 v AND 7) = unat v div 4096 mod 8"
    using unat_block_index(1) [OF refl] .
  then show ?thesis using assms f [of "unat v div 4096 mod 8"]
    by (auto simp: last_byte_bits_def Let_def less_imp_le)
qed

lemma last_byte_index:
  assumes "8 * k < n" "n \<le> 8 * Suc k"
  shows "n mod 8 = (if n = 8 * Suc k then 0 else n - 8 * k)"
proof (cases "n = 8 * Suc k")
  case False
  then have "n - 8 * k < 8" "n = n - 8 * k + 8 * k" using assms by simp_all
  then have "n mod 8 = n - 8 * k" by (metis mod_less mod_mult_self2)
  then show ?thesis using False by simp
qed simp

lemma complete_test:
  assumes wf: "image_wf img" and c: "ref_cacheMap img = Some cache" and nz: "virtualFilesize img \<noteq> 0"
  shows "cachemap_complete (cmap cache) (virtualFilesize img) \<longleftrightarrow> cached img = {..< image_blocks img}"
proof -
  let ?m = "cmap cache" and ?n = "image_blocks img"
  define k where "k = length ?m - 1"
  note sz = image_wf_size [OF wf] and ml = image_wf_map(1,2) [OF wf c]
  have "0 < ?n" using nz sz by (metis gr0I mult_0_right unat_eq_zero)
  then have len: "length ?m = Suc k" using ml by (auto simp: k_def)
  have n: "8 * k < ?n" "?n \<le> 8 * Suc k" using ml len by auto
  have bytes: "nat (IMGSIZE_TO_MAPBYTES (virtualFilesize img)) = Suc k"
    using mapbytes_eq [OF sz(2)] wf c len by (auto simp: image_wf_def)
  have mask: "bit (last_byte_bits (virtualFilesize img)) j \<longleftrightarrow> 8 * k + j < ?n" if "j < 8" for j
    using that n last_byte_index [OF n] bit_last_byte_bits [OF that, of "virtualFilesize img"]
    by (cases "?n = 8 * Suc k") (auto simp: image_blocks_def [symmetric])
  have last: "?m ! k AND last_byte_bits (virtualFilesize img) = last_byte_bits (virtualFilesize img)
      \<longleftrightarrow> (\<forall>i. i div 8 = k \<and> i < ?n \<longrightarrow> i \<in> cached_blocks ?m)"
    using len mask by (intro byte_test) auto
  have full: "list_all (\<lambda>j. ?m ! j = 255) [0 ..< k] \<longleftrightarrow> (\<forall>i. i div 8 < k \<longrightarrow> i \<in> cached_blocks ?m)"
    using len by (auto simp: list_all_iff byte_full)
  have "i < ?n \<longleftrightarrow> i div 8 < k \<or> (i div 8 = k \<and> i < ?n)" for i
    using n div_le_mono [of i "?n - 1" 8] by auto
  then have "cachemap_complete ?m (virtualFilesize img) \<longleftrightarrow> (\<forall>i < ?n. i \<in> cached_blocks ?m)"
    unfolding cachemap_complete_def Let_def bytes diff_Suc_1 last full by blast
  then show ?thesis using c by (auto simp: cached_def)
qed

section \<open>Hash blocks\<close>

lemma and_bit_mask: "(x :: u8) AND 2 ^ j \<noteq> 0 \<longleftrightarrow> bit x j"
  by (simp add: and_exp_eq_0_iff_not_bit)

lemma block_position: "4096 * i div 32768 = i div (8 :: nat)" "4096 * i div 4096 mod 8 = i mod (8 :: nat)"
  using div_mult2_eq [of "4096 * i" 4096 8] by simp_all

lemma hash_block_bytes:
  assumes "512 * (k + 1) \<le> length m"
  shows "list_all (\<lambda>i. m ! i = 255) [512 * k ..< 512 * k + 512] \<longleftrightarrow> {4096 * k ..< 4096 * (k + 1)} \<subseteq> cached_blocks m"
proof -
  have "i \<in> {4096 * k ..< 4096 * (k + 1)} \<longleftrightarrow> i div 8 \<in> {512 * k ..< 512 * k + 512}" for i
    by (auto simp: div_less_iff_less_mult less_eq_div_iff_mult_less_eq)
  then show ?thesis
    using assms by (auto simp: list_all_iff byte_full subset_iff)
qed

lemma for_step_blocks:
  "set (for_step (16777216 * k) f 4096) = (\<lambda>i. 4096 * i) ` {i. 4096 * k \<le> i \<and> 4096 * i < f}"
proof (intro set_eqI iffI)
  fix p assume "p \<in> set (for_step (16777216 * k) f 4096)"
  then obtain j where "p = 16777216 * k + j * 4096" "p < f" by (auto simp: set_for_step)
  then have "p = 4096 * (4096 * k + j) \<and> 4096 * (4096 * k + j) < f" by simp
  then show "p \<in> (\<lambda>i. 4096 * i) ` {i. 4096 * k \<le> i \<and> 4096 * i < f}" 
    by (intro image_eqI [of _ _ "4096 * k + j"]) auto
next
  fix p assume "p \<in> (\<lambda>i. 4096 * i) ` {i. 4096 * k \<le> i \<and> 4096 * i < f}"
  then obtain i where i: "p = 4096 * i" "4096 * k \<le> i" "p < f" by auto
  then have "p = 16777216 * k + (i - 4096 * k) * 4096" by (simp add: diff_mult_distrib)
  then show "p \<in> set (for_step (16777216 * k) f 4096)" using i(3) by (auto simp: set_for_step)
qed

lemma hash_block_test:
  assumes k: "unat block = k" "k < 2 ^ 22" and fs: "unat fs \<le> 32768 * length (cmap cache)"
  shows "image_isHashBlockComplete (Some cache) block fs \<longleftrightarrow>
    blocks_touching (16777216 * k) (min (16777216 * (k + 1)) (unat fs)) \<subseteq> cached_blocks (cmap cache)"
proof -
  have b: "unat (block * HASH_BLOCK_SIZE) = 16777216 * k"
    using k by (simp add: HASH_BLOCK_SIZE_def unat_word_ariths)
  have e: "unat ((block + 1) * HASH_BLOCK_SIZE) = 16777216 * (k + 1)"
    using k by (simp add: HASH_BLOCK_SIZE_def unat_word_ariths)
  show ?thesis
  proof (cases "16777216 * (k + 1) \<le> unat fs")
    case True
    have "unat ((block * HASH_BLOCK_SIZE) div (DNBD3_BLOCK_SIZE * 8)) = 512 * k"
      using b by (simp add: unat_div DNBD3_BLOCK_SIZE_def)
    then have s: "nat (c_int ((block * HASH_BLOCK_SIZE) div (DNBD3_BLOCK_SIZE * 8))) = 512 * k"
      using k by (subst c_int_small) simp_all
    have "c_int (HASH_BLOCK_SIZE div (DNBD3_BLOCK_SIZE * 8)) = 512"
      by (subst c_int_small) (simp_all add: HASH_BLOCK_SIZE_def DNBD3_BLOCK_SIZE_def unat_div)
    moreover have "blocks_touching (16777216 * k) (16777216 * (k + 1)) = {4096 * k ..< 4096 * (k + 1)}"
      using blocks_touching_aligned [of "4096 * k" "4096 * (k + 1)"] by simp
    ultimately show ?thesis
      using True s hash_block_bytes [of k "cmap cache"] fs e
      by (simp add: image_isHashBlockComplete_def Let_def word_le_nat_alt min_def)
  next
    case False
    note for_step_blocks [of k "unat fs"]
    moreover have "i div 8 < length (cmap cache)" if "4096 * i < unat fs" for i
      using that fs by auto
    moreover have "blocks_touching (16777216 * k) (unat fs) = {i. 4096 * k \<le> i \<and> 4096 * i < unat fs}"
      by (auto simp: blocks_touching_def)
    ultimately show ?thesis
      using False b e
      by (simp add: image_isHashBlockComplete_def Let_def word_le_nat_alt min_def DNBD3_BLOCK_SIZE_def
          list_all_iff block_position and_bit_mask cached_blocks_def subset_iff push_bit_of_1)
  qed
qed

lemma sample_image_sel [simp]:
  "virtualFilesize sample_image = 40960" "realFilesize sample_image = 40000" "completenessEstimate sample_image = 0"
  "ref_cacheMap sample_image = Some \<lparr>dirty = False, unchanged = False, cmap = [15, 0]\<rparr>"
  by (simp_all add: sample_image_def)

lemma sample_image_wf [simp]: "image_wf sample_image"
  by (simp add: image_wf_def sample_image_def)

section \<open>The contract of the cache\<close>

text \<open>
  What the code that reads and fills an image relies on. \<open>has\<close> is the abstract set of blocks, \<open>mark\<close> and
  \<open>clear\<close> the two directions of \<^verbatim>\<open>image_updateCachemap\<close>, \<open>test\<close> the question a reader asks.
\<close>

locale range_cache =
  fixes invar :: "'s \<Rightarrow> bool" and has :: "'s \<Rightarrow> nat set" and limit :: "'s \<Rightarrow> nat"
    and mark clear :: "'s \<Rightarrow> u64 \<Rightarrow> u64 \<Rightarrow> 's option" and test :: "'s \<Rightarrow> u64 \<Rightarrow> u64 \<Rightarrow> bool"
  assumes mark_total: "invar s \<Longrightarrow> a \<le> b \<Longrightarrow> unat b \<le> limit s \<Longrightarrow> mark s a b \<noteq> None"
    and clear_total: "invar s \<Longrightarrow> a \<le> b \<Longrightarrow> unat b \<le> limit s \<Longrightarrow> clear s a b \<noteq> None"
    and mark_law: "invar s \<Longrightarrow> mark s a b = Some s' \<Longrightarrow>
      invar s' \<and> limit s' = limit s \<and> has s' = has s \<union> blocks_within (unat a) (unat b)"
    and clear_law: "invar s \<Longrightarrow> clear s a b = Some s' \<Longrightarrow>
      invar s' \<and> limit s' = limit s \<and> has s' = has s - blocks_touching (unat a) (unat b)"
    and test_law: "invar s \<Longrightarrow> a < b \<Longrightarrow> unat b \<le> limit s \<Longrightarrow>
      test s a b \<longleftrightarrow> blocks_touching (unat a) (unat b) \<subseteq> has s"
begin

text \<open>A stored range can be read back, whatever else was stored in between.\<close>

lemma mark_then_test:
  assumes "invar s" "mark s a b = Some s'" "4096 dvd unat a" "4096 dvd unat b"
    and "a \<le> c" "c < d" "d \<le> b" "unat b \<le> limit s"
  shows "test s' c d"
proof -
  have "blocks_touching (unat c) (unat d) \<subseteq> blocks_within (unat a) (unat b)"
    using assms(3-7) by (intro touching_within) (auto simp: word_le_nat_alt)
  moreover have "unat d \<le> limit s'"
    using mark_law [OF assms(1,2)] assms(7,8) by (simp add: word_le_nat_alt)
  ultimately show ?thesis
    using mark_law [OF assms(1,2)] test_law [of s' c d] assms(6) by auto
qed

text \<open>After a range was cleared no reader that touches it is answered from the local file.\<close>

lemma clear_then_test:
  assumes "invar s" "clear s a b = Some s'" "c < d" "unat d \<le> limit s" "a < d" "c < b" "a < b"
  shows "\<not> test s' c d"
proof -
  have "blocks_touching (unat a) (unat b) \<inter> blocks_touching (unat c) (unat d) \<noteq> {}"
  proof -
    let ?x = "max (unat a) (unat c) div 4096"
    have "?x \<in> blocks_touching (unat a) (unat b)" "?x \<in> blocks_touching (unat c) (unat d)"
      using assms(3,5-7) unfolding blocks_touching_def word_less_nat_alt by (auto simp: max_def)
    then show ?thesis by blast
  qed
  then show ?thesis
    using clear_law [OF assms(1,2)] test_law [of s' c d] assms(3,4) by auto
qed

text \<open>Storing never makes a reader lose a range.\<close>

lemma mark_mono:
  assumes "invar s" "mark s a b = Some s'" "c < d" "unat d \<le> limit s" "test s c d"
  shows "test s' c d"
  using assms mark_law [OF assms(1,2)] test_law [of s c d] test_law [of s' c d] by auto

end

lemma range_is_cached_iff:
  assumes wf: "image_wf img" and "a < b" and "unat b \<le> unat (virtualFilesize img)"
  shows "range_is_cached img a b \<longleftrightarrow> blocks_touching (unat a) (unat b) \<subseteq> cached img"
proof -
  have le: "a \<le> b" "b \<le> virtualFilesize img" using assms by (auto simp: word_le_nat_alt word_less_nat_alt)
  note al = update_aligned [OF wf le]
  have ab: "unat a < unat b" using \<open>a < b\<close> by (simp add: word_less_nat_alt)
  have sub: "blocks_touching (unat a) (unat b) \<subseteq> {..< image_blocks img}"
    using al(5) by (auto simp: blocks_touching_eq)
  have same: "blocks_touching (unat (block_floor a)) (unat (block_ceil b)) = blocks_touching (unat a) (unat b)"
    unfolding al(3,4) blocks_touching_eq by simp
  show ?thesis
  proof (cases "ref_cacheMap img")
    case None
    then show ?thesis using sub by (simp add: range_is_cached_def cached_def)
  next
    case (Some cache)
    have "unat (block_floor a) < unat (block_ceil b)" using al(3,4) ab by linarith
    moreover have "unat (block_ceil b) \<le> 32768 * length (cmap cache)"
      using al(4,5) image_wf_map(1) [OF wf Some] by linarith
    ultimately show ?thesis
      using Some sub by (auto simp: range_is_cached_def cached_def range_test same)
  qed
qed

text \<open>The image provides the contract.\<close>

interpretation img: range_cache image_wf cached "\<lambda>img. unat (virtualFilesize img)" mark_range clear_range
  range_is_cached
proof
  have size: "virtualFilesize img' = virtualFilesize img"
    if "image_updateCachemap img a b c = Some (img', checks)" for img img' a b c checks
    using update_frame [OF that] by (metis dnbd3_image_t.select_convs(5) dnbd3_image_t.surjective dnbd3_image_t.update_convs(4))
  fix s s' :: dnbd3_image_t and a b :: u64
  show "a \<le> b \<Longrightarrow> unat b \<le> unat (virtualFilesize s) \<Longrightarrow> mark_range s a b \<noteq> None"
    "a \<le> b \<Longrightarrow> unat b \<le> unat (virtualFilesize s) \<Longrightarrow> clear_range s a b \<noteq> None"
    by (simp_all add: mark_range_def clear_range_def update_none_iff word_le_nat_alt)
  assume wf: "image_wf s"
  show "mark_range s a b = Some s' \<Longrightarrow> image_wf s' \<and> unat (virtualFilesize s') = unat (virtualFilesize s)
      \<and> cached s' = cached s \<union> blocks_within (unat a) (unat b)"
    using update_mark [OF wf] size by (auto simp: mark_range_def)
  show "clear_range s a b = Some s' \<Longrightarrow> image_wf s' \<and> unat (virtualFilesize s') = unat (virtualFilesize s)
      \<and> cached s' = cached s - blocks_touching (unat a) (unat b)"
    using update_clear [OF wf] size by (auto simp: clear_range_def)
  show "a < b \<Longrightarrow> unat b \<le> unat (virtualFilesize s) \<Longrightarrow>
      range_is_cached s a b \<longleftrightarrow> blocks_touching (unat a) (unat b) \<subseteq> cached s"
    by (rule range_is_cached_iff [OF wf])
qed

section \<open>Which hash blocks are handed to the integrity checker\<close>

lemma list_update_neq_iff: "i < length m \<Longrightarrow> m[i := v] \<noteq> m \<longleftrightarrow> v \<noteq> m ! i"
  by (metis list_update_id nth_list_update_eq)

lemma fill_unchanged:
  fixes m :: "'a list"
  assumes "F < L" "L < length m"
  shows "map (\<lambda>y. if F + 1 \<le> y \<and> y < L then v else m[F := x, L := z] ! y) [0 ..< length m] = m
    \<longleftrightarrow> m ! F = x \<and> m ! L = z \<and> (\<forall>y. F + 1 \<le> y \<and> y < L \<longrightarrow> m ! y = v)"
proof -
  let ?h = "\<lambda>y. if F < y \<and> y < L then v else if y = L then z else if y = F then x else m ! y"
  have "map (\<lambda>y. if F + 1 \<le> y \<and> y < L then v else m[F := x, L := z] ! y) [0 ..< length m] = map ?h [0 ..< length m]"
    using assms by (intro map_cong) (auto simp: nth_list_update)
  moreover have "map ?h [0 ..< length m] = m \<longleftrightarrow> (\<forall>y < length m. ?h y = m ! y)"
    unfolding list_eq_iff_nth_eq by simp
  moreover have "(\<forall>y < length m. ?h y = m ! y) \<longleftrightarrow> m ! F = x \<and> m ! L = z \<and> (\<forall>y. F + 1 \<le> y \<and> y < L \<longrightarrow> m ! y = v)"
    (is "?all \<longleftrightarrow> ?parts")
  proof
    assume all: ?all
    have "?h F = m ! F" "?h L = m ! L" "F < y \<Longrightarrow> y < L \<Longrightarrow> ?h y = m ! y" for y
      using assms all by (blast intro: less_trans)+
    then show ?parts using assms by (auto split: if_splits simp: Suc_le_eq)
  qed auto
  ultimately show ?thesis by (simp only:)
qed

text \<open>\<^verbatim>\<open>setNewBlocks\<close> tells exactly whether the map changed.\<close>

lemma cachemap_write_changed:
  assumes "unat (drop_bit 15 start) \<le> unat (drop_bit 15 (end - 1))"
    and "unat (drop_bit 15 (end - 1)) < length m"
  shows "snd (cachemap_write m start end True) \<longleftrightarrow> fst (cachemap_write m start end True) \<noteq> m"
proof -
  define F where "F = unat (drop_bit 15 start)"
  define L where "L = unat (drop_bit 15 (end - 1))"
  define x where "x = m ! F OR first_mask start"
  define z where "z = m ! L OR last_mask end"
  have len: "F \<le> L" "L < length m" using assms by (simp_all add: F_def L_def)
  note defs = cachemap_write_def Let_def F_def [symmetric] L_def [symmetric]
  show ?thesis
  proof (cases "F = L")
    case True
    have L: "L < length m" using len by simp
    show ?thesis
      unfolding defs if_P [OF True] if_P [OF TrueI] fst_conv snd_conv
      unfolding True list_update_neq_iff [OF L] by (simp only: eq_commute)
  next
    case False
    let ?m2 = "m[F := x, L := z]"
    let ?m3 = "map (\<lambda>y. if F + 1 \<le> y \<and> y < L then 255 else ?m2 ! y) [0 ..< length m]"
    have gen: "cachemap_write m start end b =
        (map (\<lambda>y. if F + 1 \<le> y \<and> y < L then 255 else ?m2 ! y) [0 ..< length m],
         (b \<and> (m ! F \<noteq> x \<or> m ! L \<noteq> z)) \<or> (b \<and> (\<exists>y. F + 1 \<le> y \<and> y < L \<and> ?m2 ! y \<noteq> 255)))"
      if b for b
      unfolding defs using that False len by (subst fold_fill) (simp_all add: x_def z_def)
    note w = gen [OF TrueI, simplified simp_thms]
    have "F < L" using False len by simp
    have "?m2 ! y = m ! y" if "F + 1 \<le> y \<and> y < L" for y
      using that by simp
    then have "(\<exists>y. F + 1 \<le> y \<and> y < L \<and> ?m2 ! y \<noteq> 255) \<longleftrightarrow> (\<exists>y. F + 1 \<le> y \<and> y < L \<and> m ! y \<noteq> 255)"
      by metis
    then show ?thesis
      unfolding w fst_conv snd_conv fill_unchanged [OF \<open>F < L\<close> len(2)] by blast
  qed
qed

text \<open>The loop over hash blocks visits every hash block that the range touches.\<close>

lemma hash_loop_visits:
  assumes "i \<in> {s ..< e}" and s: "unat start = 4096 * s" and e: "unat end = 4096 * e"
    and "4096 * e < 2 ^ 45"
  shows "int (i div 4096) \<in> set (map (\<lambda>pos. int (pos div unat HASH_BLOCK_SIZE))
    (for_step (unat (hash_floor start)) (unat (hash_ceil end)) (unat HASH_BLOCK_SIZE)))"
proof -
  define k where "k = i div 4096"
  define k0 where "k0 = unat start div 16777216"
  have h: "unat HASH_BLOCK_SIZE = 16777216" by (simp add: HASH_BLOCK_SIZE_def)
  have f: "unat (hash_floor start) = k0 * 16777216" by (simp add: unat_hash_floor k0_def)
  have c: "unat (hash_ceil end) = (unat end + 16777215) div 16777216 * 16777216"
    using assms(4) e by (intro unat_hash_ceil) simp
  have "k0 = s div 4096"
    using div_mult2_eq [of "4096 * s" 4096 4096] by (simp add: k0_def s)
  then have k0: "k0 \<le> k" using assms(1) by (auto simp: k_def div_le_mono)
  have "16777216 * k \<le> 4096 * i" by (simp add: k_def)
  moreover have "4096 * i < unat end" using assms(1) e by simp
  ultimately have "16777216 * k < unat (hash_ceil end)" unfolding c by linarith
  moreover have "16777216 * k = unat (hash_floor start) + (k - k0) * 16777216"
    using k0 by (simp add: f diff_mult_distrib)
  ultimately have "16777216 * k \<in> set (for_step (unat (hash_floor start)) (unat (hash_ceil end)) 16777216)"
    by (auto simp: set_for_step)
  then show ?thesis unfolding h k_def [symmetric]
    by (auto simp: image_iff intro!: bexI [of _ "16777216 * k"])
qed

lemma cached_blocks_inj:
  assumes "length m' = length m" and "cached_blocks m' = cached_blocks m"
  shows "m' = m"
proof (rule nth_equalityI)
  fix y assume y: "y < length m'"
  show "m' ! y = m ! y"
  proof (rule bit_word_eqI)
    fix j assume "j < LENGTH(8)"
    then have "(8 * y + j) div 8 = y" "(8 * y + j) mod 8 = j" by auto
    then show "bit (m' ! y) j = bit (m ! y) j"
      using assms y unfolding cached_blocks_def set_eq_iff
      by (metis (no_types, lifting) mem_Collect_eq)
  qed
qed (rule assms(1))

lemma update_checks:
  assumes "image_updateCachemap img start end True = Some (img', checks)" and "crc32 img \<noteq> None"
    and "ref_cacheMap img = Some cache" and "block_ceil start < block_floor end"
    and "snd (cachemap_write (cmap cache) (block_ceil start) (block_floor end) True)"
  shows "checks = filter (\<lambda>block. image_isHashBlockComplete (ref_cacheMap img') (word_of_int block) (realFilesize img'))
     (map (\<lambda>pos. int (pos div unat HASH_BLOCK_SIZE))
        (for_step (unat (hash_floor (block_ceil start))) (unat (hash_ceil (block_floor end))) (unat HASH_BLOCK_SIZE)))"
  using assms
  by (cases "cachemap_write (cmap cache) (block_ceil start) (block_floor end) True")
    (auto simp: image_updateCachemap_def Let_def split: if_splits)

lemma mark_changes:
  assumes wf: "image_wf img" and upd: "image_updateCachemap img start end True = Some (img', checks)"
    and c: "ref_cacheMap img = Some cache" and "img' \<noteq> img"
  obtains s e cache' where "unat (block_ceil start) = 4096 * s" "unat (block_floor end) = 4096 * e" "s < e"
    "4096 * e < 2 ^ 45" "ref_cacheMap img' = Some cache'" "length (cmap cache') = length (cmap cache)"
    "cached_blocks (cmap cache') = cached_blocks (cmap cache) \<union> {s ..< e}"
    "cmap cache' \<noteq> cmap cache \<longrightarrow>
       snd (cachemap_write (cmap cache) (block_ceil start) (block_floor end) True)"
proof -
  define s where "s = (unat start + 4095) div 4096"
  define e where "e = unat end div 4096"
  have le: "start \<le> end" "end \<le> virtualFilesize img"
    using upd update_none_iff [of img start "end" True] by auto
  note al = update_aligned [OF wf le]
  have se: "unat (block_ceil start) = 4096 * s" "unat (block_floor end) = 4096 * e"
    using al by (simp_all add: s_def e_def)
  have e: "e \<le> image_blocks img" using al(5) unfolding e_def by linarith
  then have el: "e \<le> 8 * length (cmap cache)" using image_wf_map(1) [OF wf c] by simp
  have "s < e"
    using update_skips [OF upd] se assms(4) by (force simp: word_le_nat_alt)
  then have lt: "block_ceil start < block_floor end" using se by (simp add: word_less_nat_alt)
  let ?w = "cachemap_write (cmap cache) (block_ceil start) (block_floor end) True"
  obtain cache' where c': "ref_cacheMap img' = Some cache'" "cmap cache' = fst ?w"
    using update_writes [OF upd, of cache] c lt by auto
  have ix: "unat (drop_bit 15 (block_ceil start)) = s div 8"
    "unat (drop_bit 15 (block_floor end - 1)) = (e - 1) div 8"
    using unat_block_index(2) [of "block_ceil start" s]
      unat_block_index(2) [OF last_block_aligned [OF se(2)]] se \<open>s < e\<close> by auto
  have "snd ?w" if "cmap cache' \<noteq> cmap cache"
    using that c' cachemap_write_changed [of "block_ceil start" "block_floor end" "cmap cache"] \<open>s < e\<close> el
    unfolding ix by (auto intro: div_le_mono)
  moreover have "4096 * e < 2 ^ 45" using e image_wf_size [OF wf] by linarith
  ultimately show thesis
    using se \<open>s < e\<close> c' cachemap_write_bits(1) [OF se \<open>s < e\<close> el, of True]
      cached_blocks_write(1) [OF se \<open>s < e\<close> el] by (intro that [of s e cache']) simp_all
qed

lemma newly_complete_checked:
  assumes wf: "image_wf img" and upd: "image_updateCachemap img start end True = Some (img', checks)"
    and crc: "crc32 img \<noteq> None" and c: "ref_cacheMap img = Some cache"
    and fs: "realFilesize img \<le> virtualFilesize img" and k: "k < 2 ^ 21"
    and before: "\<not> image_isHashBlockComplete (ref_cacheMap img) (word_of_nat k) (realFilesize img)"
    and after: "image_isHashBlockComplete (ref_cacheMap img') (word_of_nat k) (realFilesize img)"
  shows "int k \<in> set checks"
proof -
  have "img' \<noteq> img" using before after by auto
  then obtain s e cache' where se: "unat (block_ceil start) = 4096 * s"
      "unat (block_floor end) = 4096 * e" and "s < e" and e: "4096 * e < 2 ^ 45"
    and c': "ref_cacheMap img' = Some cache'" "length (cmap cache') = length (cmap cache)"
    and cb: "cached_blocks (cmap cache') = cached_blocks (cmap cache) \<union> {s ..< e}"
    and ch: "cmap cache' \<noteq> cmap cache \<longrightarrow>
       snd (cachemap_write (cmap cache) (block_ceil start) (block_floor end) True)"
    by (rule mark_changes [OF wf upd c])
  have un: "unat (word_of_nat k :: u64) = k" using k by (simp add: unsigned_of_nat take_bit_eq_mod)
  let ?T = "blocks_touching (16777216 * k) (min (16777216 * (k + 1)) (unat (realFilesize img)))"
  have fl: "unat (realFilesize img) \<le> 32768 * length (cmap cache)"
    using fs image_wf_map [OF wf c] by (simp add: word_le_nat_alt)
  have "\<not> ?T \<subseteq> cached_blocks (cmap cache)" "?T \<subseteq> cached_blocks (cmap cache')"
    using before after hash_block_test [OF un, of "realFilesize img"] k c c' fl by auto
  then obtain i where i: "i \<in> ?T" "i \<in> {s ..< e}" "i \<notin> cached_blocks (cmap cache)"
    unfolding cb by blast
  then have "cmap cache' \<noteq> cmap cache" using cb by auto
  moreover have "block_ceil start < block_floor end" using se \<open>s < e\<close> by (simp add: word_less_nat_alt)
  ultimately have checks: "checks = filter
      (\<lambda>block. image_isHashBlockComplete (ref_cacheMap img') (word_of_int block) (realFilesize img'))
      (map (\<lambda>pos. int (pos div unat HASH_BLOCK_SIZE))
        (for_step (unat (hash_floor (block_ceil start))) (unat (hash_ceil (block_floor end))) (unat HASH_BLOCK_SIZE)))"
    using update_checks [OF upd crc c] ch by blast
  have "i div 4096 = k" using i(1) by (auto simp: blocks_touching_def)
  then have "int k \<in> set (map (\<lambda>pos. int (pos div unat HASH_BLOCK_SIZE))
      (for_step (unat (hash_floor (block_ceil start))) (unat (hash_ceil (block_floor end))) (unat HASH_BLOCK_SIZE)))"
    using hash_loop_visits [OF i(2) se e] by simp
  moreover have "realFilesize img' = realFilesize img"
    using update_frame [OF upd] by (metis dnbd3_image_t.select_convs(6) dnbd3_image_t.surjective dnbd3_image_t.update_convs(4))
  ultimately show ?thesis using after unfolding checks by simp
qed

section \<open>The completeness estimate\<close>

lemma estimate_sum:
  fixes m :: "u8 list" and acc :: int
  shows "fold (\<lambda>i acc. if m ! i = 255 then acc + 100 else if m ! i \<noteq> 0 then acc + 50 else acc) [0 ..< n] acc
    = acc + (\<Sum>i < n. if m ! i = 255 then 100 else if m ! i \<noteq> 0 then 50 else 0)"
  by (induction n) auto

lemma estimate_bounds:
  fixes m :: "u8 list"
  assumes "0 < n"
  defines "pct \<equiv> (\<Sum>i < n. if m ! i = 255 then 100 else if m ! i \<noteq> 0 then 50 else (0 :: int))"
  shows "0 \<le> pct div int n" "pct div int n \<le> 100"
    and "pct div int n = 100 \<longleftrightarrow> (\<forall>i < n. m ! i = 255)"
proof -
  let ?t = "\<lambda>i. if m ! i = 255 then 100 else if m ! i \<noteq> 0 then 50 else (0 :: int)"
  have "0 \<le> pct" unfolding pct_def by (intro sum_nonneg) auto
  then show "0 \<le> pct div int n" by (simp add: pos_imp_zdiv_nonneg_iff assms(1))
  have le: "pct \<le> 100 * int n"
    using sum_bounded_above [of "{..< n}" ?t 100] by (simp add: pct_def mult.commute)
  then have "pct div int n \<le> 100 * int n div int n" using assms(1) by (intro zdiv_mono1) auto
  then show "pct div int n \<le> 100" using assms(1) by simp
  show "pct div int n = 100 \<longleftrightarrow> (\<forall>i < n. m ! i = 255)"
  proof
    assume "\<forall>i < n. m ! i = 255"
    then have "pct = 100 * int n" by (simp add: pct_def)
    then show "pct div int n = 100" using assms(1) by simp
  next
    assume "pct div int n = 100"
    then have "100 * int n \<le> pct"
      using assms(1) by (metis div_mult_mod_eq le_add_same_cancel1 of_nat_0_less_iff pos_mod_sign)
    moreover have "pct < (\<Sum>i < n. 100)" if "i < n" "m ! i \<noteq> 255" for i
      unfolding pct_def using that by (intro sum_strict_mono_ex1) auto
    ultimately show "\<forall>i < n. m ! i = 255" by fastforce
  qed
qed

lemma isComplete_split:
  assumes "image_wf img"
  shows "image_isComplete img =
    (if virtualFilesize img = 0 then (False, img, [])
     else (cached img = {..< image_blocks img},
           if cached img = {..< image_blocks img} then img\<lparr>ref_cacheMap := None\<rparr> else img,
           if cached img = {..< image_blocks img} \<and> ref_cacheMap img \<noteq> None then [path img @ ''.map''] else []))"
proof (cases "ref_cacheMap img")
  case None
  then have "img\<lparr>ref_cacheMap := None\<rparr> = img" by simp
  then show ?thesis using None by (simp add: image_isComplete_def cached_def)
next
  case (Some cache)
  then show ?thesis using complete_test [OF assms Some] by (simp add: image_isComplete_def)
qed

lemma sample_update:
  "image_updateCachemap (sample_image\<lparr>crc32 := Some [1]\<rparr>) 16384 40960 True =
     Some (sample_image\<lparr>crc32 := Some [1],
       ref_cacheMap := Some \<lparr>dirty = False, unchanged = False, cmap = [255, 3]\<rparr>\<rparr>, [0])"
proof -
  have "first_mask 16384 = 240" "last_mask 40960 = 3"
    by (simp_all add: first_mask_def last_mask_def)
  then have "cachemap_write [15, 0] 16384 40960 True = ([255, 3], True)"
    by (simp add: cachemap_write_def Let_def)
  then show ?thesis
    by (simp add: image_updateCachemap_def Let_def block_floor_def block_ceil_def hash_floor_def hash_ceil_def
        image_isHashBlockComplete_def HASH_BLOCK_SIZE_def DNBD3_BLOCK_SIZE_def for_step.simps)
qed

section \<open>Properties\<close>

text \<open>
  C6: On a well-formed image and a range inside it, \<^verbatim>\<open>image_updateCachemap\<close> passes its assertions and changes
  only the map. Setting a range adds exactly the blocks that lie wholly inside it, clearing a range removes
  exactly the blocks it touches, and the map keeps its size.
\<close>

theorem updateCachemap_refines_sets:
  assumes "image_wf img" "start \<le> end" "end \<le> virtualFilesize img"
  shows "\<exists>img' checks. image_updateCachemap img start end setb = Some (img', checks)
    \<and> image_wf img' \<and> img' = img\<lparr>ref_cacheMap := ref_cacheMap img'\<rparr>
    \<and> cached img' = (if setb then cached img \<union> blocks_within (unat start) (unat end)
                     else cached img - blocks_touching (unat start) (unat end))"
proof -
  obtain img' checks where upd: "image_updateCachemap img start end setb = Some (img', checks)"
    using assms(2,3) update_none_iff [of img start "end" setb] by auto
  show ?thesis
    using upd update_frame [OF upd] update_mark [OF assms(1)] update_clear [OF assms(1)]
    by (cases setb) auto
qed

theorem updateCachemap_refines_sets_witness:
  "\<exists>img' checks. image_updateCachemap sample_image 16384 20480 True = Some (img', checks)
    \<and> image_wf img' \<and> img' = sample_image\<lparr>ref_cacheMap := ref_cacheMap img'\<rparr>
    \<and> cached img' = cached sample_image \<union> blocks_within 16384 20480"
  using updateCachemap_refines_sets [of sample_image 16384 20480 True]
  by simp

lemma isRangeCached_iff:
  assumes "image_wf img" "ref_cacheMap img = Some cache" "start < end" "end \<le> virtualFilesize img"
  shows "image_isRangeCachedUnsafe cache start end
    \<longleftrightarrow> blocks_touching (unat start) (unat end) \<subseteq> cached img"
proof -
  have "blocks_touching (unat start) (unat end) \<subseteq> {..< image_blocks img}"
    using update_aligned(5) [OF assms(1) less_imp_le [OF assms(3)] assms(4)] by (auto simp: blocks_touching_eq)
  moreover have "unat end \<le> 32768 * length (cmap cache)"
    using assms(4) image_wf_map [OF assms(1,2)] by (simp add: word_le_nat_alt)
  ultimately show ?thesis
    using assms(2,3) by (auto simp: cached_def range_test word_less_nat_alt)
qed

text \<open>
  C7: The range test that decides whether a client is served from the local file answers yes exactly when every
  block the range touches is marked in the map.
\<close>

theorem isRangeCached_correct:
  assumes "image_wf img" "ref_cacheMap img = Some cache" "start < end" "end \<le> virtualFilesize img"
  shows "image_isRangeCachedUnsafe cache start end
    \<longleftrightarrow> blocks_touching (unat start) (unat end) \<subseteq> cached img"
  using assms by (rule isRangeCached_iff)

theorem isRangeCached_correct_witness:
  "image_isRangeCachedUnsafe \<lparr>dirty = False, unchanged = False, cmap = [15, 0]\<rparr> 4096 16384
    \<longleftrightarrow> blocks_touching 4096 16384 \<subseteq> cached sample_image"
  using isRangeCached_correct [of sample_image "\<lparr>dirty = False, unchanged = False, cmap = [15, 0]\<rparr>" 4096 16384]
  by simp

text \<open>
  C8: \<^verbatim>\<open>image_isComplete\<close> answers yes exactly for a non-empty image all of whose blocks are cached. When that is
  news it drops the map and unlinks the map file; what the image holds does not change.
\<close>

theorem isComplete_correct:
  assumes "image_wf img" "image_isComplete img = (complete, img', unlinked)"
  shows "(complete \<longleftrightarrow> virtualFilesize img \<noteq> 0 \<and> cached img = {..< image_blocks img})
    \<and> cached img' = cached img \<and> image_wf img'
    \<and> unlinked = (if complete \<and> ref_cacheMap img \<noteq> None then [path img @ ''.map''] else [])
    \<and> (complete \<longrightarrow> ref_cacheMap img' = None)"
proof -
  have "cached (img\<lparr>ref_cacheMap := None\<rparr>) = {..< image_blocks img}" "image_wf (img\<lparr>ref_cacheMap := None\<rparr>)"
    using assms(1) by (simp_all add: cached_def image_blocks_def image_wf_def)
  then show ?thesis
    using assms(1) assms(2) [unfolded isComplete_split [OF assms(1)]]
    by (cases "virtualFilesize img = 0"; cases "cached img = {..< image_blocks img}")
      (simp only: if_True if_False prod.inject simp_thms; force)+
qed

theorem isComplete_correct_witness:
  "let img = sample_image\<lparr>ref_cacheMap := Some \<lparr>dirty = False, unchanged = False, cmap = [255, 3]\<rparr>\<rparr>
   in image_isComplete img = (True, img\<lparr>ref_cacheMap := None\<rparr>, [''/img/a.r1.map''])
      \<and> cached img = {..< image_blocks img} \<and> cached (img\<lparr>ref_cacheMap := None\<rparr>) = cached img"
proof -
  let ?img = "sample_image\<lparr>ref_cacheMap := Some \<lparr>dirty = False, unchanged = False, cmap = [255, 3]\<rparr>\<rparr>"
  have "image_wf ?img" by (simp add: image_wf_def)
  moreover have "IMGSIZE_TO_MAPBYTES 40960 = 2" by (simp add: mapbytes_eq)
  then have "image_isComplete ?img = (True, ?img\<lparr>ref_cacheMap := None\<rparr>, [''/img/a.r1.map''])"
    by (simp add: image_isComplete_def cachemap_complete_def last_byte_bits_def upt_rec)
      (simp add: sample_image_def)
  ultimately show ?thesis
    using isComplete_correct [of ?img True] by (simp add: Let_def)
qed

text \<open>
  A hash block is reported complete exactly when every 4 KiB block of it that lies inside the file is cached,
  for the full hash blocks and for the shorter last one alike.
\<close>

theorem isHashBlockComplete_correct:
  assumes "image_wf img" "ref_cacheMap img = Some cache" "realFilesize img \<le> virtualFilesize img"
    and "unat block < 2 ^ 21"
  shows "image_isHashBlockComplete (ref_cacheMap img) block (realFilesize img) \<longleftrightarrow>
    blocks_touching (16777216 * unat block) (min (16777216 * (unat block + 1)) (unat (realFilesize img))) \<subseteq> cached img"
proof -
  have "blocks_touching a (min b (unat (realFilesize img))) \<subseteq> {..< image_blocks img}" for a b
    using assms(3) image_wf_size(1) [OF assms(1)] by (auto simp: blocks_touching_def word_le_nat_alt)
  moreover have "unat (realFilesize img) \<le> 32768 * length (cmap cache)"
    using assms(3) image_wf_map [OF assms(1,2)] by (simp add: word_le_nat_alt)
  ultimately show ?thesis
    using assms(2,4) hash_block_test [OF refl] by (auto simp: cached_def)
qed

theorem isHashBlockComplete_correct_witness:
  "image_isHashBlockComplete (ref_cacheMap sample_image) 0 40000
    \<longleftrightarrow> blocks_touching 0 40000 \<subseteq> cached sample_image"
  using isHashBlockComplete_correct [of sample_image "\<lparr>dirty = False, unchanged = False, cmap = [15, 0]\<rparr>" 0]
  by simp

text \<open>
  C9: No hash block becomes complete unnoticed: when an update turns an incomplete hash block of an image with a
  checksum list into a complete one, that block is among those handed to \<^verbatim>\<open>integrity_check\<close>.
\<close>

theorem completed_hash_block_is_verified:
  assumes "image_wf img" "image_updateCachemap img start end True = Some (img', checks)"
    and "crc32 img \<noteq> None" "ref_cacheMap img \<noteq> None" "realFilesize img \<le> virtualFilesize img" "k < 2 ^ 21"
    and "\<not> image_isHashBlockComplete (ref_cacheMap img) (word_of_nat k) (realFilesize img)"
    and "image_isHashBlockComplete (ref_cacheMap img') (word_of_nat k) (realFilesize img)"
  shows "int k \<in> set checks"
  using assms by (auto intro: newly_complete_checked)

theorem completed_hash_block_is_verified_witness:
  "\<exists>img' checks. image_updateCachemap (sample_image\<lparr>crc32 := Some [1]\<rparr>) 16384 40960 True = Some (img', checks)
     \<and> 0 \<in> set checks"
proof -
  have "image_wf (sample_image\<lparr>crc32 := Some [1]\<rparr>)" by (simp add: image_wf_def)
  moreover have "\<not> image_isHashBlockComplete (ref_cacheMap sample_image) 0 40000"
    "image_isHashBlockComplete (Some \<lparr>dirty = False, unchanged = False, cmap = [255, 3]\<rparr>) 0 40000"
    by (simp_all add: image_isHashBlockComplete_def HASH_BLOCK_SIZE_def DNBD3_BLOCK_SIZE_def for_step.simps)
  ultimately show ?thesis
    using completed_hash_block_is_verified [OF _ sample_update, of 0] by (simp add: sample_update)
qed

text \<open>
  The completeness estimate shown to clients and in the status page is a percentage, and a freshly computed
  one is 100 exactly when every byte of the map is full.
\<close>

theorem completeness_estimate_percent:
  assumes "image_wf img" "0 \<le> completenessEstimate img" "completenessEstimate img \<le> 100"
    and "image_getCompletenessEstimate img now rnd = (p, img')"
  shows "0 \<le> p \<and> p \<le> 100 \<and> 0 \<le> completenessEstimate img' \<and> completenessEstimate img' \<le> 100
    \<and> (\<forall>cache. ref_cacheMap img = Some cache \<and> 0 < virtualFilesize img
         \<and> timing_reached (nextCompletenessEstimate img) now
         \<longrightarrow> (p = 100 \<longleftrightarrow> list_all (\<lambda>b. b = 255) (cmap cache)))"
proof (cases "ref_cacheMap img")
  case None
  then show ?thesis using assms by (auto simp: image_getCompletenessEstimate_def)
next
  case (Some cache)
  define n where "n = length (cmap cache)"
  have len: "IMGSIZE_TO_MAPBYTES (virtualFilesize img) = int n"
    using mapbytes_eq [OF image_wf_size(2) [OF assms(1)]] assms(1) Some by (simp add: image_wf_def n_def)
  have "0 < n" if "0 < virtualFilesize img"
    using that assms(1) Some by (auto simp: image_wf_def n_def word_less_nat_alt)
  moreover have "list_all (\<lambda>b. b = 255) (cmap cache) \<longleftrightarrow> (\<forall>i < n. cmap cache ! i = 255)"
    by (simp add: list_all_length n_def)
  ultimately show ?thesis
    using assms(2-4) Some estimate_bounds [of n "cmap cache"]
    by (auto simp: image_getCompletenessEstimate_def Let_def len estimate_sum split: if_splits)
qed

theorem completeness_estimate_percent_witness:
  "let r = image_getCompletenessEstimate sample_image \<lparr>tv_sec = 1, tv_nsec = 0\<rparr> 7 in 0 \<le> fst r \<and> fst r \<le> 100"
  using completeness_estimate_percent [of sample_image "\<lparr>tv_sec = 1, tv_nsec = 0\<rparr>" 7, OF _ _ _ surjective_pairing]
  by (simp add: Let_def)

end
