(* ===== verification/Bytes.thy ===== *)
theory Bytes
  imports Prelude
begin

text \<open>
  Memory images of fixed-width integers on the little-endian machines the wire format is defined for
  (\<^verbatim>\<open>net_order_16/32/64\<close> are the identity there): \<open>to_le n w\<close> is what \<^verbatim>\<open>memcpy\<close> copies out of an
  \<open>n\<close>-byte integer, \<open>of_le bs\<close> the integer that \<^verbatim>\<open>memcpy\<close> of \<open>bs\<close> yields.
\<close>

definition to_le :: "nat \<Rightarrow> 'a::len word \<Rightarrow> byte list" where
  "to_le n w = map (\<lambda>i. ucast (drop_bit (8 * i) w)) [0 ..< n]"

definition of_le :: "byte list \<Rightarrow> 'a::len word" where
  "of_le bs = foldr (\<lambda>b acc. ucast b OR push_bit 8 acc) bs 0"

lemma length_to_le [simp]: "length (to_le n w) = n"
  by (simp add: to_le_def)

lemma of_le_Nil [simp]: "of_le [] = 0"
  by (simp add: of_le_def)

lemma of_le_Cons: "of_le (b # bs) = ucast b OR push_bit 8 (of_le bs)"
  by (simp add: of_le_def)

lemma bit_of_le:
  "bit (of_le bs :: 'a::len word) k \<longleftrightarrow> k < LENGTH('a) \<and> k div 8 < length bs \<and> bit (bs ! (k div 8)) (k mod 8)"
proof (induction bs arbitrary: k)
  case (Cons b bs)
  show ?case
  proof (cases "k < 8")
    case True
    then show ?thesis by (auto simp: of_le_Cons bit_simps)
  next
    case False
    then have k: "k div 8 = Suc ((k - 8) div 8)" "k mod 8 = (k - 8) mod 8"
      by (simp_all add: le_div_geq le_mod_geq)
    have "\<not> bit b k" using False bit_imp_le_length [of b k] by auto
    then have "bit (of_le (b # bs) :: 'a word) k \<longleftrightarrow> k < LENGTH('a) \<and> bit (of_le bs :: 'a word) (k - 8)"
      using False by (auto simp: of_le_Cons bit_simps)
    then show ?thesis using False by (auto simp: k Cons.IH)
  qed
qed simp

lemma to_le_nth: "i < n \<Longrightarrow> to_le n w ! i = ucast (drop_bit (8 * i) w)"
  by (simp add: to_le_def)

lemma of_le_to_le:
  fixes w :: "'a::len word"
  assumes "LENGTH('a) \<le> 8 * n"
  shows "of_le (to_le n w) = w"
proof (rule bit_word_eqI)
  fix k assume k: "k < LENGTH('a)"
  then have "k div 8 < n" using assms by auto
  then show "bit (of_le (to_le n w) :: 'a word) k = bit w k"
    using k by (simp add: bit_of_le to_le_nth bit_simps)
qed

lemma to_le_of_le:
  assumes "8 * length bs \<le> LENGTH('a)"
  shows "to_le (length bs) (of_le bs :: 'a::len word) = bs"
proof (rule nth_equalityI)
  fix i assume "i < length (to_le (length bs) (of_le bs :: 'a word))"
  then have i: "i < length bs" by simp
  show "to_le (length bs) (of_le bs :: 'a word) ! i = bs ! i"
  proof (rule bit_word_eqI)
    fix j assume j: "j < LENGTH(8)"
    then have "8 * i + j < LENGTH('a)" "(8 * i + j) div 8 = i" "(8 * i + j) mod 8 = j"
      using i assms by auto
    then show "bit (to_le (length bs) (of_le bs :: 'a word) ! i) j = bit (bs ! i) j"
      using i j by (simp add: to_le_nth bit_simps bit_of_le)
  qed
qed simp

lemma le_round_trips [simp]:
  "of_le (to_le 2 (x :: u16)) = x" "of_le (to_le 4 (y :: u32)) = y" "of_le (to_le 8 (z :: u64)) = z"
  by (simp_all add: of_le_to_le)

text \<open>A buffer read as 32-bit values.\<close>

fun le_words :: "nat \<Rightarrow> byte list \<Rightarrow> u32 list" where
  "le_words 0 bs = []"
| "le_words (Suc n) bs = of_le (take 4 bs) # le_words n (drop 4 bs)"

end
