(* ===== verification/Serializer.thy ===== *)
theory Serializer
  imports Bytes
begin

text \<open>
  The message payload buffer of \<^verbatim>\<open>src/shared/serialize.c\<close>: an array of \<^verbatim>\<open>MAX_PAYLOAD\<close> bytes with an end
  and a cursor, modelled as offsets. A write that does not fit is dropped, a read past the end yields 0.
  Reading a string may look at the byte one past the data (see \<open>serializer_get_string\<close>); when that is one past the
  array, the byte there is the parameter \<open>beyond\<close>.
\<close>

definition MAX_PAYLOAD :: nat where "MAX_PAYLOAD = 1000"

record serialized_buffer_t =
  buffer :: "byte list"
  buffer_end :: nat
  buffer_pointer :: nat

definition serializer_reset_read :: "serialized_buffer_t \<Rightarrow> nat \<Rightarrow> serialized_buffer_t" where
  "serializer_reset_read b data_len = b\<lparr>buffer_end := min MAX_PAYLOAD data_len, buffer_pointer := 0\<rparr>"

definition serializer_reset_write :: "serialized_buffer_t \<Rightarrow> serialized_buffer_t" where
  "serializer_reset_write b = b\<lparr>buffer_end := MAX_PAYLOAD, buffer_pointer := 0\<rparr>"

definition serializer_get_uint8 :: "serialized_buffer_t \<Rightarrow> u8 \<times> serialized_buffer_t" where
  "serializer_get_uint8 b =
     (if buffer_pointer b + 1 > buffer_end b then (0, b)
      else (buffer b ! buffer_pointer b, b\<lparr>buffer_pointer := buffer_pointer b + 1\<rparr>))"

definition serializer_get_uint16 :: "serialized_buffer_t \<Rightarrow> u16 \<times> serialized_buffer_t" where
  "serializer_get_uint16 b =
     (if buffer_pointer b + 2 > buffer_end b then (0, b)
      else (of_le (take 2 (drop (buffer_pointer b) (buffer b))), b\<lparr>buffer_pointer := buffer_pointer b + 2\<rparr>))"

definition serializer_get_uint64 :: "serialized_buffer_t \<Rightarrow> u64 \<times> serialized_buffer_t" where
  "serializer_get_uint64 b =
     (if buffer_pointer b + 8 > buffer_end b then (0, b)
      else (of_le (take 8 (drop (buffer_pointer b) (buffer b))), b\<lparr>buffer_pointer := buffer_pointer b + 8\<rparr>))"

definition byte_at :: "byte \<Rightarrow> byte list \<Rightarrow> nat \<Rightarrow> byte" where
  "byte_at beyond bs i = (if i < length bs then bs ! i else beyond)"

text \<open>The scanning loop: the first NUL at or after the cursor, or the end.\<close>

function scan_nul :: "byte list \<Rightarrow> nat \<Rightarrow> nat \<Rightarrow> nat" where
  "scan_nul bs ptr end = (if ptr < end \<and> bs ! ptr \<noteq> 0 then scan_nul bs (ptr + 1) end else ptr)"
  by pat_completeness auto
termination
  by (relation "measure (\<lambda>(bs, ptr, end). end - ptr)") auto

definition serializer_get_string ::
  "byte \<Rightarrow> serialized_buffer_t \<Rightarrow> byte list option \<times> serialized_buffer_t" where
  "serializer_get_string beyond b =
     (let start = buffer_pointer b in
      if start \<ge> buffer_end b then (None, b)
      else let ptr = scan_nul (buffer b) start (buffer_end b)
           in if byte_at beyond (buffer b) ptr \<noteq> 0 then (None, b)
              else (Some (take (ptr - start) (drop start (buffer b))), b\<lparr>buffer_pointer := ptr + 1\<rparr>))"

text \<open>\<^verbatim>\<open>memcpy\<close> into the buffer at the cursor, which then moves on.\<close>

definition put_bytes :: "serialized_buffer_t \<Rightarrow> byte list \<Rightarrow> serialized_buffer_t" where
  "put_bytes b bs =
     (if buffer_pointer b + length bs > buffer_end b then b
      else b\<lparr>buffer := take (buffer_pointer b) (buffer b) @ bs @ drop (buffer_pointer b + length bs) (buffer b),
             buffer_pointer := buffer_pointer b + length bs\<rparr>)"

definition serializer_put_uint8 :: "serialized_buffer_t \<Rightarrow> u8 \<Rightarrow> serialized_buffer_t" where
  "serializer_put_uint8 b value = put_bytes b [value]"

definition serializer_put_uint16 :: "serialized_buffer_t \<Rightarrow> u16 \<Rightarrow> serialized_buffer_t" where
  "serializer_put_uint16 b value = put_bytes b (to_le 2 value)"

definition serializer_put_uint64 :: "serialized_buffer_t \<Rightarrow> u64 \<Rightarrow> serialized_buffer_t" where
  "serializer_put_uint64 b value = put_bytes b (to_le 8 value)"

definition serializer_put_string :: "serialized_buffer_t \<Rightarrow> byte list \<Rightarrow> serialized_buffer_t" where
  "serializer_put_string b value = put_bytes b (value @ [0])"

definition serializer_get_written_length :: "serialized_buffer_t \<Rightarrow> u32" where
  "serializer_get_written_length b = word_of_nat (buffer_pointer b)"

text \<open>Well-formedness, and the two views of a buffer: what was written, what is left to read.\<close>

definition sbuf_wf :: "serialized_buffer_t \<Rightarrow> bool" where
  "sbuf_wf b \<longleftrightarrow> length (buffer b) = MAX_PAYLOAD \<and> buffer_end b \<le> MAX_PAYLOAD \<and> buffer_pointer b \<le> buffer_end b"

definition written :: "serialized_buffer_t \<Rightarrow> byte list" where
  "written b = take (buffer_pointer b) (buffer b)"

definition remaining :: "serialized_buffer_t \<Rightarrow> byte list" where
  "remaining b = drop (buffer_pointer b) (take (buffer_end b) (buffer b))"

declare scan_nul.simps [simp del]

section \<open>Reading and writing one field\<close>

lemma put_bytes_wf: "sbuf_wf b \<Longrightarrow> sbuf_wf (put_bytes b bs)"
  by (auto simp: sbuf_wf_def put_bytes_def)

lemma put_bytes_written:
  assumes "sbuf_wf b" "buffer_pointer b + length bs \<le> buffer_end b"
  shows "written (put_bytes b bs) = written b @ bs"
    and "buffer_pointer (put_bytes b bs) = buffer_pointer b + length bs"
    and "buffer_end (put_bytes b bs) = buffer_end b"
  using assms by (auto simp: sbuf_wf_def put_bytes_def written_def)

lemma put_bytes_full:
  "buffer_pointer b + length bs > buffer_end b \<Longrightarrow> put_bytes b bs = b"
  by (simp add: put_bytes_def)

lemma remaining_split:
  assumes "sbuf_wf b" "remaining b = bs @ rest"
  shows "buffer_pointer b + length bs \<le> buffer_end b"
    and "take (length bs) (drop (buffer_pointer b) (buffer b)) = bs"
    and "sbuf_wf (b\<lparr>buffer_pointer := buffer_pointer b + length bs\<rparr>)"
    and "remaining (b\<lparr>buffer_pointer := buffer_pointer b + length bs\<rparr>) = rest"
proof -
  have "length (remaining b) = buffer_end b - buffer_pointer b"
    using assms(1) by (simp add: remaining_def sbuf_wf_def)
  then show le: "buffer_pointer b + length bs \<le> buffer_end b"
    using assms by (auto simp: sbuf_wf_def)
  have "take (length bs) (remaining b) = bs" using assms(2) by simp
  then show "take (length bs) (drop (buffer_pointer b) (buffer b)) = bs"
    using le by (simp add: remaining_def take_drop min_def add.commute)
  show "sbuf_wf (b\<lparr>buffer_pointer := buffer_pointer b + length bs\<rparr>)"
    using assms(1) le by (simp add: sbuf_wf_def)
  have "drop (length bs) (remaining b) = rest" using assms(2) by simp
  then show "remaining (b\<lparr>buffer_pointer := buffer_pointer b + length bs\<rparr>) = rest"
    by (simp add: remaining_def add.commute)
qed

lemma nth_of_take_drop:
  assumes "take n (drop p xs) = ys" "i < n" "p + n \<le> length xs"
  shows "xs ! (p + i) = ys ! i"
proof -
  have "ys ! i = drop p xs ! i" using assms(2) by (simp flip: assms(1))
  then show ?thesis using assms(2,3) by simp
qed

lemma scan_nul_found:
  assumes "0 \<notin> set s" and "take (length s + 1) (drop ptr bs) = s @ [0]" and "ptr + length s < end" and "end \<le> length bs"
  shows "scan_nul bs ptr end = ptr + length s"
  using assms
proof (induction s arbitrary: ptr)
  case Nil
  then have "bs ! ptr = 0" by (simp add: take_Suc_conv_app_nth hd_drop_conv_nth [symmetric] take_Suc)
  then show ?case by (simp add: scan_nul.simps [of bs ptr])
next
  case (Cons c s)
  have d: "drop ptr bs = bs ! ptr # drop (ptr + 1) bs" using Cons.prems by (simp add: Cons_nth_drop_Suc)
  then have "bs ! ptr = c" "take (length s + 1) (drop (ptr + 1) bs) = s @ [0]" using Cons.prems(2) by simp_all
  moreover have "scan_nul bs (ptr + 1) end = ptr + 1 + length s"
    using Cons.prems calculation by (intro Cons.IH) auto
  ultimately show ?case using Cons.prems by (simp add: scan_nul.simps [of bs ptr])
qed

lemma scan_nul_bounds: "ptr \<le> end \<Longrightarrow> ptr \<le> scan_nul bs ptr end \<and> scan_nul bs ptr end \<le> end"
  by (induction bs ptr "end" rule: scan_nul.induct) (subst (1 2) scan_nul.simps, auto)

text \<open>
  The contract of a field of a message: an encoding, a \<open>put\<close> that appends it and a \<open>get\<close> that takes it off the
  front of what is left.
\<close>

locale field_codec =
  fixes enc :: "'a \<Rightarrow> byte list" and ok :: "'a \<Rightarrow> bool" and put :: "serialized_buffer_t \<Rightarrow> 'a \<Rightarrow> serialized_buffer_t"
    and get :: "serialized_buffer_t \<Rightarrow> 'r \<times> serialized_buffer_t" and val :: "'a \<Rightarrow> 'r"
  assumes put_enc: "put b v = put_bytes b (enc v)"
    and get_enc: "sbuf_wf b \<Longrightarrow> ok v \<Longrightarrow> remaining b = enc v @ rest \<Longrightarrow>
      get b = (val v, b\<lparr>buffer_pointer := buffer_pointer b + length (enc v)\<rparr>)"
begin

lemma put_appends:
  assumes "sbuf_wf b" "buffer_pointer b + length (enc v) \<le> buffer_end b"
  shows "sbuf_wf (put b v)" "written (put b v) = written b @ enc v"
    "buffer_pointer (put b v) = buffer_pointer b + length (enc v)" "buffer_end (put b v) = buffer_end b"
  using put_bytes_wf [OF assms(1)] put_bytes_written [OF assms] by (simp_all add: put_enc)

lemma put_dropped:
  "buffer_end b < buffer_pointer b + length (enc v) \<Longrightarrow> put b v = b"
  by (simp add: put_enc put_bytes_full)

lemma get_takes:
  assumes "sbuf_wf b" "ok v" "remaining b = enc v @ rest" "get b = (r, b')"
  shows "r = val v" "sbuf_wf b'" "remaining b' = rest"
  using assms remaining_split [OF assms(1,3)] get_enc [OF assms(1-3)] by auto

end

lemma reset_write_empty [simp]:
  "length (buffer b) = MAX_PAYLOAD \<Longrightarrow> sbuf_wf (serializer_reset_write b)"
  "written (serializer_reset_write b) = []"
  "buffer_pointer (serializer_reset_write b) = 0" "buffer_end (serializer_reset_write b) = MAX_PAYLOAD"
  by (simp_all add: serializer_reset_write_def sbuf_wf_def written_def)

lemma reset_read_written:
  assumes "sbuf_wf b"
  shows "sbuf_wf (serializer_reset_read b (buffer_pointer b))"
    "remaining (serializer_reset_read b (buffer_pointer b)) = written b"
  using assms by (simp_all add: serializer_reset_read_def sbuf_wf_def remaining_def written_def)

interpretation f8: field_codec "\<lambda>v. [v]" "\<lambda>_. True" serializer_put_uint8 serializer_get_uint8 id
proof
  fix b v rest
  assume "sbuf_wf b" "remaining b = [v] @ rest"
  note r = remaining_split [OF this]
  have "buffer b ! buffer_pointer b = v"
    using nth_of_take_drop [OF r(2), of 0] r(1) \<open>sbuf_wf b\<close> by (simp add: sbuf_wf_def)
  then show "serializer_get_uint8 b = (id v, b\<lparr>buffer_pointer := buffer_pointer b + length [v]\<rparr>)"
    using r by (simp add: serializer_get_uint8_def)
qed (simp add: serializer_put_uint8_def)

interpretation f16: field_codec "to_le 2" "\<lambda>_. True" serializer_put_uint16 serializer_get_uint16 id
proof
  fix b rest and v :: u16
  assume "sbuf_wf b" "remaining b = to_le 2 v @ rest"
  note r = remaining_split [OF this]
  then show "serializer_get_uint16 b = (id v, b\<lparr>buffer_pointer := buffer_pointer b + length (to_le 2 v)\<rparr>)"
    by (simp add: serializer_get_uint16_def)
qed (simp add: serializer_put_uint16_def)

interpretation f64: field_codec "to_le 8" "\<lambda>_. True" serializer_put_uint64 serializer_get_uint64 id
proof
  fix b rest and v :: u64
  assume "sbuf_wf b" "remaining b = to_le 8 v @ rest"
  note r = remaining_split [OF this]
  then show "serializer_get_uint64 b = (id v, b\<lparr>buffer_pointer := buffer_pointer b + length (to_le 8 v)\<rparr>)"
    by (simp add: serializer_get_uint64_def)
qed (simp add: serializer_put_uint64_def)

interpretation fstr: field_codec "\<lambda>s. s @ [0]" "\<lambda>s. 0 \<notin> set s" serializer_put_string "serializer_get_string beyond" Some
  for beyond
proof
  fix b s rest
  assume wf: "sbuf_wf b" and ok: "0 \<notin> set s" and rem: "remaining b = (s @ [0]) @ rest"
  note r = remaining_split [OF wf rem]
  have len: "buffer_pointer b + length s < buffer_end b" "buffer_end b \<le> length (buffer b)"
    using r(1) wf by (simp_all add: sbuf_wf_def)
  have scan: "scan_nul (buffer b) (buffer_pointer b) (buffer_end b) = buffer_pointer b + length s"
    using r(2) ok len by (intro scan_nul_found) simp_all
  have t: "take (length s + 1) (drop (buffer_pointer b) (buffer b)) = s @ [0]" using r(2) by simp
  have "take (length s) (drop (buffer_pointer b) (buffer b)) = take (length s) (s @ [0])"
    unfolding t [symmetric] by simp
  then have "take (length s) (drop (buffer_pointer b) (buffer b)) = s" by simp
  moreover have "buffer b ! (buffer_pointer b + length s) = 0"
    using nth_of_take_drop [OF t, of "length s"] len by simp
  ultimately show "serializer_get_string beyond b = (Some s, b\<lparr>buffer_pointer := buffer_pointer b + length (s @ [0])\<rparr>)"
    using len by (simp add: serializer_get_string_def Let_def scan byte_at_def)
qed (simp add: serializer_put_string_def)

end
