(* ===== verification/SockHelper.thy ===== *)
theory SockHelper
  imports Bytes
begin

text \<open>
  Reading and writing sockets, after \<^verbatim>\<open>sock_sendAll\<close> and \<^verbatim>\<open>sock_recv\<close> of \<^verbatim>\<open>src/shared/sockhelper.c\<close>. The
  kernel's side is a script of events: for the receiving direction the chunks in which the peer's byte stream
  arrives, mixed with errors (an empty chunk is end of file); for the sending direction the number of bytes each
  \<^verbatim>\<open>send\<close> accepts, or its error. A call that would block for ever at the end of the script is \<open>None\<close>.
\<close>

datatype errno = EINTR | EAGAIN | EOTHER

datatype recv_event = Data "byte list" | Rerr errno

datatype send_event = Sent nat | Serr errno

section \<open>The system calls\<close>

text \<open>One \<^verbatim>\<open>recv\<close> of at most \<open>len\<close> bytes.\<close>

fun recv_once :: "nat \<Rightarrow> recv_event list \<Rightarrow> ((errno + byte list) \<times> recv_event list) option" where
  "recv_once len [] = None"
| "recv_once len (Rerr e # s) = Some (Inl e, s)"
| "recv_once len (Data bs # s) =
     (if length bs \<le> len then Some (Inr bs, s)
      else Some (Inr (take len bs), Data (drop len bs) # s))"

text \<open>
  \<^verbatim>\<open>recv\<close> with \<^verbatim>\<open>MSG_WAITALL\<close>: goes on until \<open>len\<close> bytes are there, the stream ends or an error
  interrupts it; what was read before that is returned.
\<close>

fun recv_waitall :: "nat \<Rightarrow> recv_event list \<Rightarrow> ((errno + byte list) \<times> recv_event list) option" where
  "recv_waitall len [] = None"
| "recv_waitall len (Rerr e # s) = Some (Inl e, s)"
| "recv_waitall len (Data bs # s) =
     (if bs = [] then Some (Inr [], s)
      else if len \<le> length bs
      then Some (Inr (take len bs), if length bs = len then s else Data (drop len bs) # s)
      else case recv_waitall (len - length bs) s of
             None \<Rightarrow> None
           | Some (Inl e, s') \<Rightarrow> Some (Inr bs, s')
           | Some (Inr more, s') \<Rightarrow> Some (Inr (bs @ more), s'))"

section \<open>The helpers\<close>

text \<open>\<^verbatim>\<open>sock_recv\<close>: the return value, the bytes stored in the buffer, the rest of the script.\<close>

definition recv_result :: "int \<Rightarrow> byte list \<Rightarrow> int" where
  "recv_result ret got = (if got = [] then ret else int (length got))"

fun recv_loop :: "nat \<Rightarrow> byte list \<Rightarrow> nat \<Rightarrow> int \<Rightarrow> recv_event list \<Rightarrow> (int \<times> byte list \<times> recv_event list) option" where
  "recv_loop len got intrs ret [] = (if length got < len then None else Some (recv_result ret got, got, []))"
| "recv_loop len got intrs ret (Rerr e # s) =
     (if length got < len
      then if e = EINTR \<and> intrs + 1 < 10 then recv_loop len got (intrs + 1) (-1) s
           else Some (recv_result (-1) got, got, s)
      else Some (recv_result ret got, got, Rerr e # s))"
| "recv_loop len got intrs ret (Data bs # s) =
     (if length got < len
      then if bs = [] then Some (recv_result 0 got, got, s)
           else if length bs \<le> len - length got
           then recv_loop len (got @ bs) intrs (int (length bs)) s
           else let got' = got @ take (len - length got) bs
                in Some (recv_result (int (len - length got)) got', got', Data (drop (len - length got) bs) # s)
      else Some (recv_result ret got, got, Data bs # s))"

definition sock_recv :: "nat \<Rightarrow> recv_event list \<Rightarrow> (int \<times> byte list \<times> recv_event list) option" where
  "sock_recv len s = recv_loop len [] 0 0 s"

text \<open>\<^verbatim>\<open>sock_sendAll\<close>: the return value, the bytes that went out, the rest of the script.\<close>

definition send_result :: "int \<Rightarrow> nat \<Rightarrow> int" where
  "send_result ret done = (if done = 0 then ret else int done)"

text \<open>One iteration counts down \<^verbatim>\<open>maxtries\<close> unless it is negative, and stops when it was 0.\<close>

definition next_try :: "int \<Rightarrow> int" where
  "next_try maxtries = (if maxtries \<ge> 0 then maxtries - 1 else maxtries)"

fun send_loop :: "byte list \<Rightarrow> nat \<Rightarrow> int \<Rightarrow> int \<Rightarrow> send_event list \<Rightarrow> (int \<times> byte list \<times> send_event list) option" where
  "send_loop buf done maxtries ret [] =
     (if length buf \<le> done \<or> maxtries = 0 then Some (send_result ret done, take done buf, []) else None)"
| "send_loop buf done maxtries ret (Serr e # s) =
     (if length buf \<le> done \<or> maxtries = 0 then Some (send_result ret done, take done buf, Serr e # s)
      else if e = EINTR \<or> e = EAGAIN then send_loop buf done (next_try maxtries) (-1) s
      else Some (send_result (-1) done, take done buf, s))"
| "send_loop buf done maxtries ret (Sent n # s) =
     (if length buf \<le> done \<or> maxtries = 0 then Some (send_result ret done, take done buf, Sent n # s)
      else let k = min n (length buf - done)
           in if k = 0 then Some (send_result 0 done, take done buf, s)
              else send_loop buf (done + k) (next_try maxtries) (int k) s)"

definition sock_sendAll :: "byte list \<Rightarrow> int \<Rightarrow> send_event list \<Rightarrow> (int \<times> byte list \<times> send_event list) option" where
  "sock_sendAll buf maxtries s = send_loop buf 0 maxtries 0 s"

section \<open>The byte stream\<close>

text \<open>All bytes of a script, and those that arrive before the first error or end of file.\<close>

fun all_data :: "recv_event list \<Rightarrow> byte list" where
  "all_data [] = []"
| "all_data (Data bs # s) = bs @ all_data s"
| "all_data (Rerr e # s) = all_data s"

fun stream :: "recv_event list \<Rightarrow> byte list" where
  "stream (Data (b # bs) # s) = b # bs @ stream s"
| "stream _ = []"

lemma stream_Data: "bs \<noteq> [] \<Longrightarrow> stream (Data bs # s) = bs @ stream s"
  by (cases bs) auto

text \<open>A complete read takes exactly the first bytes of the stream, however it is fragmented.\<close>

lemma recv_loop_stream:
  assumes "len \<le> length got + length (stream s)" "length got \<le> len"
  shows "\<exists>r s'. recv_loop len got intrs ret s = Some (r, got @ take (len - length got) (stream s), s')
     \<and> stream s' = drop (len - length got) (stream s) \<and> (got \<noteq> [] \<or> 0 < len \<longrightarrow> r = int len)"
  using assms
proof (induction len got intrs ret s rule: recv_loop.induct)
  case (1 len got intrs ret)
  then show ?case by (auto simp: recv_result_def)
next
  case (2 len got intrs ret e s)
  then show ?case by (auto simp: recv_result_def)
next
  case (3 len got intrs ret bs s)
  show ?case
  proof (cases "length got < len \<and> bs \<noteq> []")
    case True
    then show ?thesis
    proof (cases "length bs \<le> len - length got")
      case True
      then have "length (got @ bs) \<le> len" "len \<le> length (got @ bs) + length (stream s)"
        using 3 \<open>length got < len \<and> bs \<noteq> []\<close> by (auto simp: stream_Data)
      with 3(1) True \<open>length got < len \<and> bs \<noteq> []\<close> show ?thesis
        by (auto simp: stream_Data)
    next
      case False
      then have "drop (len - length got) bs \<noteq> []" by simp
      then show ?thesis using \<open>length got < len \<and> bs \<noteq> []\<close> False
        by (auto simp: stream_Data recv_result_def Let_def)
    qed
  next
    case False
    then show ?thesis using 3(2,3) by (auto simp: recv_result_def)
  qed
qed

lemma recv_loop_sound:
  assumes "recv_loop len got intrs ret s = Some (r, g, s')" "length got \<le> len" "ret \<le> 0 \<or> got \<noteq> []"
  shows "g @ all_data s' = got @ all_data s \<and> length g \<le> len \<and> (if g = [] then r \<le> 0 else r = int (length g))"
  using assms
  by (induction len got intrs ret s rule: recv_loop.induct)
    (auto simp: recv_result_def Let_def split: if_splits)

section \<open>Sending\<close>

lemma send_loop_sound:
  assumes "send_loop buf done maxtries ret s = Some (r, out, s')" "done \<le> length buf" "ret \<le> 0 \<or> 0 < done"
  shows "out = take (length out) buf \<and> done \<le> length out \<and> (if out = [] then r \<le> 0 else r = int (length out))"
  using assms
proof (induction buf "done" maxtries ret s rule: send_loop.induct)
  case (3 buf "done" maxtries ret n s)
  define k where "k = min n (length buf - done)"
  have "done + k \<le> length buf" using "3.prems"(2) by (simp add: k_def)
  with 3 show ?case
    by (cases "length buf \<le> done \<or> maxtries = 0"; cases "k = 0")
      (auto simp: send_result_def Let_def k_def [symmetric])
qed (auto simp: send_result_def split: if_splits)

lemma send_loop_returns:
  assumes "0 \<le> maxtries" "nat maxtries \<le> length s"
  shows "\<exists>r out s'. send_loop buf done maxtries ret s = Some (r, out, s') \<and> length s \<le> length s' + nat maxtries"
  using assms
proof (induction s arbitrary: "done" maxtries ret)
  case (Cons ev s)
  show ?case
  proof (cases "length buf \<le> done \<or> maxtries = 0")
    case True
    then show ?thesis by (cases ev) auto
  next
    case False
    then have next_ok: "next_try maxtries = maxtries - 1" "0 \<le> maxtries - 1" "nat (maxtries - 1) \<le> length s"
      using Cons.prems by (auto simp: next_try_def)
    have step: "\<exists>r out s'. send_loop buf d (next_try maxtries) q s = Some (r, out, s')
        \<and> length (ev # s) \<le> length s' + nat maxtries" for d q
      using Cons.IH [OF next_ok(2,3), of d q] next_ok False Cons.prems(1) by fastforce
    have one: "length (ev # s) \<le> length s + nat maxtries" using False Cons.prems(1) by (simp add: Suc_le_eq)
    show ?thesis
    proof (cases ev)
      case (Sent n)
      then show ?thesis
        using False step [of "done + min n (length buf - done)" "int (min n (length buf - done))"] one
        by (cases "min n (length buf - done) = 0") (simp_all add: Let_def)
    next
      case (Serr e)
      then show ?thesis using False step [of "done" "-1"] one by (cases e) simp_all
    qed
  qed
qed simp

section \<open>Properties\<close>

text \<open>
  C10: \<^verbatim>\<open>sock_recv\<close> undoes fragmentation: whenever the peer's next \<open>len\<close> bytes arrive without an error in
  between, in whatever chunks, it returns \<open>len\<close>, stores exactly these bytes and leaves the stream right behind them.
\<close>

theorem sock_recv_reassembles:
  assumes "len \<le> length (stream s)"
  shows "\<exists>s'. sock_recv len s = Some (int len, take len (stream s), s') \<and> stream s' = drop len (stream s)"
proof -
  obtain r s' where s': "recv_loop len [] 0 0 s = Some (r, take len (stream s), s')" "stream s' = drop len (stream s)"
    "0 < len \<longrightarrow> r = int len"
    using recv_loop_stream [of len "[]" s 0 0] assms by auto
  moreover have "r = int len"
  proof (cases "len = 0")
    case True
    then have "r = 0" using s'(1)
      by (cases s; cases "hd s") (auto simp: recv_result_def)
    then show ?thesis using True by simp
  qed (use s'(3) in simp)
  ultimately show ?thesis by (auto simp: sock_recv_def)
qed

theorem sock_recv_reassembles_witness:
  "\<exists>s'. sock_recv 3 [Data [1], Data [2, 3, 4], Rerr EOTHER] = Some (3, [1, 2, 3], s') \<and> stream s' = [4]"
  using sock_recv_reassembles [of 3 "[Data [1], Data [2, 3, 4], Rerr EOTHER]"] by simp

text \<open>
  Whatever errors occur, \<^verbatim>\<open>sock_recv\<close> never stores a byte out of order or beyond \<open>len\<close>: what it stored
  followed by what is still to come is what the peer sent, and a return value of \<open>len\<close> means a full buffer.
\<close>

theorem sock_recv_in_order:
  assumes "sock_recv len s = Some (r, got, s')"
  shows "got @ all_data s' = all_data s \<and> length got \<le> len \<and> (r = int len \<longrightarrow> got = take len (all_data s))"
proof -
  have r: "got @ all_data s' = all_data s" "length got \<le> len" "if got = [] then r \<le> 0 else r = int (length got)"
    using recv_loop_sound [of len "[]" 0 0 s r got s'] assms by (auto simp: sock_recv_def)
  moreover have "length got = len" if "r = int len"
    using r(3) that by (simp split: if_splits)
  ultimately show ?thesis by (metis append_eq_conv_conj)
qed

theorem sock_recv_in_order_witness:
  "sock_recv 2 [Data [1], Rerr EINTR, Data [2, 3]] = Some (2, [1, 2], [Data [3]])
    \<and> [1, 2] @ all_data [Data [3]] = all_data [Data [1], Rerr EINTR, Data [2, 3]]"
  using sock_recv_in_order [of 2 "[Data [1], Rerr EINTR, Data [2, 3]]" 2 "[1, 2]" "[Data [3]]"]
  by (simp add: sock_recv_def recv_result_def Let_def)

text \<open>
  \<^verbatim>\<open>sock_sendAll\<close> with a limit on the number of tries returns after at most that many calls of \<^verbatim>\<open>send\<close>, has
  sent a prefix of the buffer, and reports success (the full length) only when all of it went out.
\<close>

theorem sock_sendAll_prefix:
  assumes "0 \<le> maxtries" "nat maxtries \<le> length s" "buf \<noteq> []"
  shows "\<exists>r out s'. sock_sendAll buf maxtries s = Some (r, out, s') \<and> length s \<le> length s' + nat maxtries
    \<and> out = take (length out) buf \<and> (r = int (length buf) \<longleftrightarrow> out = buf)"
proof -
  obtain r out s' where r: "send_loop buf 0 maxtries 0 s = Some (r, out, s')" "length s \<le> length s' + nat maxtries"
    using send_loop_returns [OF assms(1,2), of buf 0 0] by blast
  have o: "out = take (length out) buf" "if out = [] then r \<le> 0 else r = int (length out)"
    using send_loop_sound [OF r(1)] by auto
  have "length out \<le> length buf" by (subst o(1)) simp
  then have "r = int (length buf) \<longleftrightarrow> out = buf"
    using o assms(3) by (auto split: if_splits)
  then show ?thesis using r o(1) by (auto simp: sock_sendAll_def)
qed

theorem sock_sendAll_prefix_witness:
  "\<exists>r out s'. sock_sendAll [1, 2, 3] 2 [Sent 2, Serr EAGAIN, Sent 5] = Some (r, out, s')
    \<and> out = take (length out) [1, 2, 3] \<and> (r = 3 \<longleftrightarrow> out = [1, 2, 3])"
  using sock_sendAll_prefix [of 2 "[Sent 2, Serr EAGAIN, Sent 5]" "[1, 2, 3]"] by auto

end
