(* ===== verification/Wire.thy ===== *)
theory Wire
  imports Serializer SockHelper Server_Types
begin

text \<open>
  The wire protocol of \<^verbatim>\<open>inc/dnbd3/types.h\<close> and \<^verbatim>\<open>inc/dnbd3/shared/protocol.h\<close>: request and reply
  headers as packed little-endian structs, and the functions that send a request or read a reply on a socket.
  The union of the 64-bit \<^verbatim>\<open>offset\<close> with the pair (56-bit \<^verbatim>\<open>offset_small\<close>, 8-bit \<^verbatim>\<open>hops\<close>) is one 64-bit
  field with two views.
\<close>

definition dnbd3_packet_magic :: u16 where "dnbd3_packet_magic = 0x73 OR push_bit 8 0x72"

definition CMD_GET_BLOCK :: u16 where "CMD_GET_BLOCK = 1"
definition CMD_SELECT_IMAGE :: u16 where "CMD_SELECT_IMAGE = 2"
definition CMD_GET_SERVERS :: u16 where "CMD_GET_SERVERS = 3"
definition CMD_ERROR :: u16 where "CMD_ERROR = 4"
definition CMD_KEEPALIVE :: u16 where "CMD_KEEPALIVE = 5"
definition CMD_LATEST_RID :: u16 where "CMD_LATEST_RID = 6"
definition CMD_SET_CLIENT_MODE :: u16 where "CMD_SET_CLIENT_MODE = 7"
definition CMD_GET_CRC32 :: u16 where "CMD_GET_CRC32 = 8"

lemmas cmd_defs = CMD_GET_BLOCK_def CMD_SELECT_IMAGE_def CMD_GET_SERVERS_def CMD_ERROR_def
  CMD_KEEPALIVE_def CMD_LATEST_RID_def CMD_SET_CLIENT_MODE_def CMD_GET_CRC32_def

definition PROTOCOL_VERSION :: u16 where "PROTOCOL_VERSION = 3"

record dnbd3_request_t =
  rq_magic :: u16
  rq_cmd :: u16
  rq_size :: u32
  rq_offset :: u64
  rq_handle :: u64

record dnbd3_reply_t =
  rp_magic :: u16
  rp_cmd :: u16
  rp_size :: u32
  rp_handle :: u64

definition offset_small :: "dnbd3_request_t \<Rightarrow> u64" where
  "offset_small r = take_bit 56 (rq_offset r)"

definition hops :: "dnbd3_request_t \<Rightarrow> u8" where
  "hops r = ucast (drop_bit 56 (rq_offset r))"

definition set_hops :: "u8 \<Rightarrow> dnbd3_request_t \<Rightarrow> dnbd3_request_t" where
  "set_hops h r = r\<lparr>rq_offset := take_bit 56 (rq_offset r) OR push_bit 56 (ucast h)\<rparr>"

definition request_bytes :: "dnbd3_request_t \<Rightarrow> byte list" where
  "request_bytes r = to_le 2 (rq_magic r) @ to_le 2 (rq_cmd r) @ to_le 4 (rq_size r)
     @ to_le 8 (rq_offset r) @ to_le 8 (rq_handle r)"

definition request_of_bytes :: "byte list \<Rightarrow> dnbd3_request_t" where
  "request_of_bytes bs =
     \<lparr>rq_magic = of_le (take 2 bs), rq_cmd = of_le (take 2 (drop 2 bs)), rq_size = of_le (take 4 (drop 4 bs)),
      rq_offset = of_le (take 8 (drop 8 bs)), rq_handle = of_le (take 8 (drop 16 bs))\<rparr>"

definition reply_bytes :: "dnbd3_reply_t \<Rightarrow> byte list" where
  "reply_bytes r = to_le 2 (rp_magic r) @ to_le 2 (rp_cmd r) @ to_le 4 (rp_size r) @ to_le 8 (rp_handle r)"

definition reply_of_bytes :: "byte list \<Rightarrow> dnbd3_reply_t" where
  "reply_of_bytes bs =
     \<lparr>rp_magic = of_le (take 2 bs), rp_cmd = of_le (take 2 (drop 2 bs)), rp_size = of_le (take 4 (drop 4 bs)),
      rp_handle = of_le (take 8 (drop 8 bs))\<rparr>"

section \<open>Flags\<close>

definition COND_HOPCOUNT :: "int \<Rightarrow> u8 \<Rightarrow> u8" where
  "COND_HOPCOUNT vers hopcount = (if vers \<ge> 3 then hopcount else 0)"

definition SI_SERVER_FLAGS :: "config \<Rightarrow> u8" where
  "SI_SERVER_FLAGS cfg =
     (if pretendClient cfg then 0 else 1) OR (if backgroundReplication cfg = BGR_FULL then 2 else 0)"

section \<open>Reading a reply header\<close>

datatype reply_status = REPLY_OK dnbd3_reply_t | REPLY_ERRNO | REPLY_AGAIN | REPLY_INTR | REPLY_CLOSED
  | REPLY_INCOMPLETE | REPLY_WRONGMAGIC

definition check_reply :: "byte list \<Rightarrow> reply_status" where
  "check_reply bs =
     (if length bs \<noteq> 16 then REPLY_INCOMPLETE
      else if rp_magic (reply_of_bytes bs) \<noteq> dnbd3_packet_magic then REPLY_WRONGMAGIC
      else REPLY_OK (reply_of_bytes bs))"

text \<open>
  With \<open>wait\<close> the header is read by one blocking call. Without, the first call does not block (an empty script
  is \<^verbatim>\<open>EAGAIN\<close>) and a second, blocking one fetches the rest of a header that arrived in part.
\<close>

definition dnbd3_read_reply :: "bool \<Rightarrow> recv_event list \<Rightarrow> (reply_status \<times> recv_event list) option" where
  "dnbd3_read_reply wait s =
     (case (if wait then recv_waitall 16 s else if s = [] then Some (Inl EAGAIN, []) else recv_once 16 s) of
        None \<Rightarrow> None
      | Some (Inl EAGAIN, s1) \<Rightarrow> Some (REPLY_AGAIN, s1)
      | Some (Inl EINTR, s1) \<Rightarrow> Some (REPLY_INTR, s1)
      | Some (Inl EOTHER, s1) \<Rightarrow> Some (REPLY_ERRNO, s1)
      | Some (Inr bs, s1) \<Rightarrow>
          if bs = [] then Some (REPLY_CLOSED, s1)
          else if \<not> wait \<and> length bs \<noteq> 16
          then (case recv_waitall (16 - length bs) s1 of
                  None \<Rightarrow> None
                | Some (Inl _, s2) \<Rightarrow> Some (REPLY_INCOMPLETE, s2)
                | Some (Inr bs2, s2) \<Rightarrow> Some (check_reply (bs @ bs2), s2))
          else Some (check_reply bs, s1))"

lemma read_reply_intr_shrinks:
  "dnbd3_read_reply True s = Some (REPLY_INTR, s') \<Longrightarrow> length s' < length s"
  by (cases s; cases "hd s")
    (auto simp: dnbd3_read_reply_def check_reply_def
      split: if_splits option.splits sum.splits errno.splits prod.splits)

function dnbd3_get_reply :: "recv_event list \<Rightarrow> (dnbd3_reply_t option \<times> recv_event list) option" where
  "dnbd3_get_reply s =
     (case dnbd3_read_reply True s of
        None \<Rightarrow> None
      | Some (REPLY_INTR, s') \<Rightarrow> dnbd3_get_reply s'
      | Some (REPLY_OK reply, s') \<Rightarrow> Some (Some reply, s')
      | Some (_, s') \<Rightarrow> Some (None, s'))"
  by pat_completeness auto
termination
  by (relation "measure length") (auto simp: read_reply_intr_shrinks)

declare dnbd3_get_reply.simps [simp del]

section \<open>Requests\<close>

definition mk_request :: "u16 \<Rightarrow> u32 \<Rightarrow> u64 \<Rightarrow> u64 \<Rightarrow> dnbd3_request_t" where
  "mk_request cmd sz off handle =
     \<lparr>rq_magic = dnbd3_packet_magic, rq_cmd = cmd, rq_size = sz, rq_offset = off, rq_handle = handle\<rparr>"

text \<open>The header of a block request: the offset is assigned first, then the hop count over its top byte.\<close>

definition block_request :: "u64 \<Rightarrow> u32 \<Rightarrow> u64 \<Rightarrow> u8 \<Rightarrow> dnbd3_request_t" where
  "block_request off sz handle hopCount = set_hops hopCount (mk_request CMD_GET_BLOCK sz off handle)"

definition send_request :: "byte list \<Rightarrow> send_event list \<Rightarrow> (bool \<times> byte list \<times> send_event list) option" where
  "send_request bs s = map_option (\<lambda>(ret, out, s'). (ret = int (length bs), out, s')) (sock_sendAll bs 2 s)"

definition dnbd3_get_block ::
  "u64 \<Rightarrow> u32 \<Rightarrow> u64 \<Rightarrow> u8 \<Rightarrow> send_event list \<Rightarrow> (bool \<times> byte list \<times> send_event list) option" where
  "dnbd3_get_block off sz handle hopCount s = send_request (request_bytes (block_request off sz handle hopCount)) s"

text \<open>\<^verbatim>\<open>dnbd3_select_image\<close>: header and payload in one \<^verbatim>\<open>writev\<close>, repeated while it is interrupted.\<close>

definition select_image_payload :: "serialized_buffer_t \<Rightarrow> byte list \<Rightarrow> u16 \<Rightarrow> u8 \<Rightarrow> serialized_buffer_t" where
  "select_image_payload serialized nm revision flags8 =
     serializer_put_uint8
       (serializer_put_uint16
          (serializer_put_string
             (serializer_put_uint16 (serializer_reset_write serialized) PROTOCOL_VERSION) nm)
          revision)
       flags8"

fun writev :: "byte list \<Rightarrow> send_event list \<Rightarrow> (int \<times> byte list \<times> send_event list) option" where
  "writev bs [] = None"
| "writev bs (Serr EINTR # s) = writev bs s"
| "writev bs (Serr _ # s) = Some (-1, [], s)"
| "writev bs (Sent n # s) = Some (int (min n (length bs)), take n bs, s)"

definition dnbd3_select_image ::
  "serialized_buffer_t \<Rightarrow> byte list \<Rightarrow> u16 \<Rightarrow> u8 \<Rightarrow> send_event list \<Rightarrow> (bool \<times> byte list \<times> send_event list) option" where
  "dnbd3_select_image serialized nm revision flags8 s =
     (let payload = select_image_payload serialized nm revision flags8;
          len = serializer_get_written_length payload;
          msg = request_bytes (mk_request CMD_SELECT_IMAGE len 0 0) @ take (unat len) (buffer payload)
      in map_option (\<lambda>(ret, out, s'). (ret = int (unat len) + 24, out, s')) (writev msg s))"

text \<open>
  \<^verbatim>\<open>dnbd3_get_crc32\<close>: \<open>Some (master, list)\<close> on success, where an empty reply is a success without a list.
\<close>

definition dnbd3_get_crc32 ::
  "nat \<Rightarrow> send_event list \<Rightarrow> recv_event list
     \<Rightarrow> ((u32 option \<times> byte list) option \<times> send_event list \<times> recv_event list) option" where
  "dnbd3_get_crc32 bufferLen so si =
     (case send_request (request_bytes (mk_request CMD_GET_CRC32 0 0 0)) so of
        None \<Rightarrow> None
      | Some (False, _, so') \<Rightarrow> Some (None, so', si)
      | Some (True, _, so') \<Rightarrow>
          (case dnbd3_get_reply si of
             None \<Rightarrow> None
           | Some (None, si1) \<Rightarrow> Some (None, so', si1)
           | Some (Some reply, si1) \<Rightarrow>
               if rp_size reply = 0 then Some (Some (None, []), so', si1)
               else if rp_size reply < 4 then Some (None, so', si1)
               else let sz = unat (rp_size reply - 4) in
                 if rp_cmd reply \<noteq> CMD_GET_CRC32 \<or> sz > bufferLen then Some (None, so', si1)
                 else (case sock_recv 4 si1 of
                         None \<Rightarrow> None
                       | Some (r, mb, si2) \<Rightarrow>
                           if r \<noteq> 4 then Some (None, so', si2)
                           else (case sock_recv sz si2 of
                                   None \<Rightarrow> None
                                 | Some (r2, bs, si3) \<Rightarrow>
                                     if r2 = int sz then Some (Some (Some (of_le mb), bs), so', si3)
                                     else Some (None, so', si3)))))"

record select_reply =
  sr_version :: u16
  sr_name :: "byte list option"
  sr_rid :: u16
  sr_size :: u64

text \<open>The payload is received over the front of the buffer, then parsed field by field.\<close>

definition parse_select_reply :: "byte \<Rightarrow> serialized_buffer_t \<Rightarrow> select_reply" where
  "parse_select_reply beyond b =
     (let (ver, b1) = serializer_get_uint16 b;
          (nm, b2) = serializer_get_string beyond b1;
          (revision, b3) = serializer_get_uint16 b2;
          (isize, b4) = serializer_get_uint64 b3
      in \<lparr>sr_version = ver, sr_name = nm, sr_rid = revision, sr_size = isize\<rparr>)"

definition dnbd3_select_image_reply ::
  "byte \<Rightarrow> serialized_buffer_t \<Rightarrow> recv_event list \<Rightarrow> (select_reply option \<times> recv_event list) option" where
  "dnbd3_select_image_reply beyond b s =
     (case dnbd3_get_reply s of
        None \<Rightarrow> None
      | Some (None, s1) \<Rightarrow> Some (None, s1)
      | Some (Some reply, s1) \<Rightarrow>
          if rp_cmd reply \<noteq> CMD_SELECT_IMAGE \<or> rp_size reply < 3 \<or> unat (rp_size reply) > MAX_PAYLOAD
          then Some (None, s1)
          else (case sock_recv (unat (rp_size reply)) s1 of
                  None \<Rightarrow> None
                | Some (ret, got, s2) \<Rightarrow>
                    if ret \<noteq> int (unat (rp_size reply)) then Some (None, s2)
                    else let b1 = b\<lparr>buffer := got @ drop (length got) (buffer b)\<rparr>;
                             b2 = serializer_reset_read b1 (unat (rp_size reply))
                         in Some (Some (parse_select_reply beyond b2), s2)))"

section \<open>Headers\<close>

lemma length_headers [simp]: "length (request_bytes r) = 24" "length (reply_bytes q) = 16"
  by (simp_all add: request_bytes_def reply_bytes_def)

lemma reply_of_bytes_inverse [simp]: "reply_of_bytes (reply_bytes q) = q"
  by (simp add: reply_of_bytes_def reply_bytes_def)

lemma request_of_bytes_inverse [simp]: "request_of_bytes (request_bytes r) = r"
  by (simp add: request_of_bytes_def request_bytes_def)

lemma reply_bytes_not_Nil [simp]: "reply_bytes q \<noteq> []"
  using length_headers(2) [of q] by (cases "reply_bytes q") auto

lemma of_le_field: "8 * n = LENGTH('a) \<Longrightarrow> length bs = n \<Longrightarrow> to_le n (of_le bs :: 'a::len word) = bs"
  using to_le_of_le [of bs, where 'a = 'a] by simp

lemma request_bytes_inverse:
  assumes "length bs = 24"
  shows "request_bytes (request_of_bytes bs) = bs"
proof -
  have "request_bytes (request_of_bytes bs) = take 2 bs @ take 2 (drop 2 bs) @ take 4 (drop 4 bs)
      @ take 8 (drop 8 bs) @ take 8 (drop 16 bs)"
    using assms by (simp add: request_bytes_def request_of_bytes_def of_le_field)
  also have "\<dots> = take (2 + (2 + (4 + (8 + 8)))) bs"
    by (simp only: take_add drop_drop append_assoc) simp
  finally show ?thesis using assms by simp
qed

lemma reply_bytes_inverse:
  assumes "length bs = 16"
  shows "reply_bytes (reply_of_bytes bs) = bs"
proof -
  have "reply_bytes (reply_of_bytes bs) = take 2 bs @ take 2 (drop 2 bs) @ take 4 (drop 4 bs) @ take 8 (drop 8 bs)"
    using assms by (simp add: reply_bytes_def reply_of_bytes_def of_le_field)
  also have "\<dots> = take (2 + (2 + (4 + 8))) bs"
    by (simp only: take_add drop_drop append_assoc) simp
  finally show ?thesis using assms by simp
qed

lemma set_hops_views:
  "hops (set_hops h r) = h" "offset_small (set_hops h r) = offset_small r"
proof -
  show "hops (set_hops h r) = h"
    by (rule bit_word_eqI) (auto simp: hops_def set_hops_def bit_simps)
  show "offset_small (set_hops h r) = offset_small r"
    by (rule bit_word_eqI) (auto simp: offset_small_def set_hops_def bit_simps)
qed

section \<open>Reassembling a header\<close>

lemma recv_waitall_stream:
  assumes "0 < len" "len \<le> length (stream s)"
  shows "\<exists>s'. recv_waitall len s = Some (Inr (take len (stream s)), s') \<and> stream s' = drop len (stream s)"
  using assms
proof (induction len s rule: recv_waitall.induct)
  case (3 len bs s)
  show ?case
  proof (cases "bs \<noteq> [] \<and> length bs < len")
    case True
    with 3 have "\<exists>s'. recv_waitall (len - length bs) s = Some (Inr (take (len - length bs) (stream s)), s')
        \<and> stream s' = drop (len - length bs) (stream s)"
      by (simp add: stream_Data)
    then show ?thesis using True by (auto simp: stream_Data)
  next
    case False
    then show ?thesis using 3(2,3) by (auto simp: stream_Data)
  qed
qed simp_all

lemma read_reply_stream:
  assumes "16 \<le> length (stream s)"
  shows "\<exists>s'. dnbd3_read_reply w s = Some (check_reply (take 16 (stream s)), s') \<and> stream s' = drop 16 (stream s)"
proof (cases w)
  case True
  then show ?thesis
    using recv_waitall_stream [of 16 s] assms by (auto simp: dnbd3_read_reply_def)
next
  case False
  obtain bs s1 where s: "s = Data bs # s1" "bs \<noteq> []"
    using assms by (cases s rule: stream.cases) auto
  show ?thesis
  proof (cases "length bs < 16")
    case True
    then have "\<exists>s'. recv_waitall (16 - length bs) s1 = Some (Inr (take (16 - length bs) (stream s1)), s')
        \<and> stream s' = drop (16 - length bs) (stream s1)"
      using assms s by (intro recv_waitall_stream) (simp_all add: stream_Data)
    then show ?thesis using True False s by (auto simp: dnbd3_read_reply_def stream_Data)
  next
    case big: False
    then have "drop 16 bs \<noteq> []" if "length bs \<noteq> 16" using that by simp
    then show ?thesis using big False s by (auto simp: dnbd3_read_reply_def stream_Data)
  qed
qed

lemma get_reply_stream:
  assumes "stream s = reply_bytes q @ rest" "rp_magic q = dnbd3_packet_magic"
  shows "\<exists>s'. dnbd3_get_reply s = Some (Some q, s') \<and> stream s' = rest"
proof -
  obtain s' where "dnbd3_read_reply True s = Some (REPLY_OK q, s')" "stream s' = rest"
    using read_reply_stream [of s True] assms by (auto simp: check_reply_def)
  then show ?thesis by (simp add: dnbd3_get_reply.simps [of s])
qed

section \<open>The select-image handshake\<close>

lemma select_image_payload_written:
  assumes "length (buffer b) = MAX_PAYLOAD" "length nm \<le> 994"
  shows "sbuf_wf (select_image_payload b nm revision flags8)"
    "written (select_image_payload b nm revision flags8)
       = to_le 2 PROTOCOL_VERSION @ nm @ [0] @ to_le 2 revision @ [flags8]"
    "buffer_pointer (select_image_payload b nm revision flags8) = length nm + 6"
proof -
  let ?b0 = "serializer_reset_write b"
  let ?b1 = "serializer_put_uint16 ?b0 PROTOCOL_VERSION"
  let ?b2 = "serializer_put_string ?b1 nm"
  let ?b3 = "serializer_put_uint16 ?b2 revision"
  have l: "length nm \<le> 994" "MAX_PAYLOAD = 1000" using assms by (simp_all add: MAX_PAYLOAD_def)
  note b0 = reset_write_empty [of b]
  have p1: "sbuf_wf ?b1" "written ?b1 = to_le 2 PROTOCOL_VERSION" "buffer_pointer ?b1 = 2" "buffer_end ?b1 = 1000"
    using f16.put_appends [of ?b0 PROTOCOL_VERSION] b0 assms l by simp_all
  have p2: "sbuf_wf ?b2" "written ?b2 = to_le 2 PROTOCOL_VERSION @ nm @ [0]"
      "buffer_pointer ?b2 = length nm + 3" "buffer_end ?b2 = 1000"
    using fstr.put_appends [of ?b1 nm] p1 l by simp_all
  have p3: "sbuf_wf ?b3" "written ?b3 = to_le 2 PROTOCOL_VERSION @ nm @ [0] @ to_le 2 revision"
      "buffer_pointer ?b3 = length nm + 5" "buffer_end ?b3 = 1000"
    using f16.put_appends [of ?b2 revision] p2 l by simp_all
  show "sbuf_wf (select_image_payload b nm revision flags8)"
    "written (select_image_payload b nm revision flags8)
       = to_le 2 PROTOCOL_VERSION @ nm @ [0] @ to_le 2 revision @ [flags8]"
    "buffer_pointer (select_image_payload b nm revision flags8) = length nm + 6"
    using f8.put_appends [of ?b3 flags8] p3 l by (simp_all add: select_image_payload_def)
qed

lemma parse_select_reply_fields:
  assumes "sbuf_wf b" "0 \<notin> set nm"
    and "remaining b = to_le 2 ver @ nm @ [0] @ to_le 2 revision @ to_le 8 isize @ rest"
  shows "parse_select_reply beyond b = \<lparr>sr_version = ver, sr_name = Some nm, sr_rid = revision, sr_size = isize\<rparr>"
proof -
  obtain r1 b1 where g1: "serializer_get_uint16 b = (r1, b1)" by (metis surj_pair)
  note f1 = f16.get_takes [OF assms(1) TrueI _ g1, of ver "nm @ [0] @ to_le 2 revision @ to_le 8 isize @ rest", unfolded id_apply]
  obtain r2 b2 where g2: "serializer_get_string beyond b1 = (r2, b2)" by (metis surj_pair)
  note f2 = fstr.get_takes [OF _ assms(2) _ g2, of "to_le 2 revision @ to_le 8 isize @ rest"]
  obtain r3 b3 where g3: "serializer_get_uint16 b2 = (r3, b3)" by (metis surj_pair)
  note f3 = f16.get_takes [OF _ TrueI _ g3, of revision "to_le 8 isize @ rest", unfolded id_apply]
  obtain r4 b4 where g4: "serializer_get_uint64 b3 = (r4, b4)" by (metis surj_pair)
  note f4 = f64.get_takes [OF _ TrueI _ g4, of isize rest, unfolded id_apply]
  show ?thesis
    using assms(3) f1 f2 f3 f4 by (simp add: parse_select_reply_def g1 g2 g3 g4)
qed

lemma select_image_reply_stream:
  assumes st: "stream s = reply_bytes q @ payload @ rest" and q: "rp_magic q = dnbd3_packet_magic" "rp_cmd q = CMD_SELECT_IMAGE"
    and sz: "unat (rp_size q) = length payload" and pl: "payload = to_le 2 ver @ nm @ [0] @ to_le 2 revision @ to_le 8 isize"
    and nm: "0 \<notin> set nm" and len: "length payload \<le> MAX_PAYLOAD" "length (buffer b) = MAX_PAYLOAD"
  shows "\<exists>s'. dnbd3_select_image_reply beyond b s
     = Some (Some \<lparr>sr_version = ver, sr_name = Some nm, sr_rid = revision, sr_size = isize\<rparr>, s') \<and> stream s' = rest"
proof -
  obtain s1 where s1: "dnbd3_get_reply s = Some (Some q, s1)" "stream s1 = payload @ rest"
    using get_reply_stream [OF st q(1)] by blast
  obtain s2 where s2: "sock_recv (length payload) s1 = Some (int (length payload), payload, s2)" "stream s2 = rest"
    using recv_loop_stream [of "length payload" "[]" s1 0 0] s1(2) pl by (auto simp: sock_recv_def)
  let ?b = "serializer_reset_read (b\<lparr>buffer := payload @ drop (length payload) (buffer b)\<rparr>) (length payload)"
  have "sbuf_wf ?b" "remaining ?b = payload"
    using len by (auto simp: sbuf_wf_def remaining_def serializer_reset_read_def)
  then have p: "parse_select_reply beyond ?b = \<lparr>sr_version = ver, sr_name = Some nm, sr_rid = revision, sr_size = isize\<rparr>"
    using parse_select_reply_fields [of ?b nm ver revision isize "[]" beyond] nm pl by simp
  have "\<not> rp_size q < 3" "\<not> unat (rp_size q) > MAX_PAYLOAD" using sz len pl by (auto simp: word_less_nat_alt)
  then show ?thesis
    using s1 s2 q(2) sz p by (simp add: dnbd3_select_image_reply_def)
qed

section \<open>Properties\<close>

text \<open>
  Request and reply headers survive the wire: decoding an encoded header gives it back, and every 24 (16) bytes
  are the encoding of the header they decode to.
\<close>

theorem header_round_trip:
  "request_of_bytes (request_bytes r) = r \<and> reply_of_bytes (reply_bytes q) = q
   \<and> (length bs = 24 \<longrightarrow> request_bytes (request_of_bytes bs) = bs)
   \<and> (length bs = 16 \<longrightarrow> reply_bytes (reply_of_bytes bs) = bs)"
  by (simp add: request_bytes_inverse reply_bytes_inverse)

theorem header_round_trip_witness:
  "reply_bytes (reply_of_bytes (replicate 16 7)) = replicate 16 7"
  using header_round_trip [of "mk_request 1 0 0 0" "\<lparr>rp_magic = 0, rp_cmd = 1, rp_size = 0, rp_handle = 0\<rparr>" "replicate 16 7"] by simp

text \<open>
  A block request carries offset and hop count independently: the receiver sees the hop count, the handle and
  the size that were passed, and the offset whenever it fits the 56 bits the header has for it.
\<close>

theorem block_request_fields:
  assumes "off < 2 ^ 56"
  shows "let r = request_of_bytes (request_bytes (block_request off sz handle h))
    in offset_small r = off \<and> hops r = h \<and> rq_size r = sz \<and> rq_handle r = handle
       \<and> rq_cmd r = CMD_GET_BLOCK \<and> rq_magic r = dnbd3_packet_magic"
proof -
  have "unat off < 2 ^ 56" using assms by (simp add: word_less_nat_alt)
  then have "take_bit 56 off = off"
    by (simp only: word_unat_eq_iff unsigned_take_bit_eq take_bit_nat_eq_self)
  then show ?thesis
    by (simp add: block_request_def set_hops_views) (simp add: set_hops_def mk_request_def offset_small_def)
qed

theorem block_request_fields_witness:
  "hops (request_of_bytes (request_bytes (block_request 4096 512 7 3))) = 3"
  using block_request_fields [of 4096 512 7 3] by (simp add: Let_def)

text \<open>
  A reply header is read correctly however the peer's bytes are fragmented, by the blocking and by the
  non-blocking variant: when the stream starts with a well-formed header, \<^verbatim>\<open>dnbd3_read_reply\<close> returns it and leaves
  the stream at the first payload byte.
\<close>

theorem read_reply_reassembles:
  assumes "stream s = reply_bytes q @ rest" "rp_magic q = dnbd3_packet_magic"
  shows "\<exists>s'. dnbd3_read_reply w s = Some (REPLY_OK q, s') \<and> stream s' = rest"
  using read_reply_stream [of s w] assms by (auto simp: check_reply_def)

theorem read_reply_reassembles_witness:
  "let q = \<lparr>rp_magic = dnbd3_packet_magic, rp_cmd = CMD_GET_BLOCK, rp_size = 1, rp_handle = 9\<rparr>
   in \<exists>s'. dnbd3_read_reply False [Data (take 5 (reply_bytes q)), Data (drop 5 (reply_bytes q) @ [42])]
             = Some (REPLY_OK q, s') \<and> stream s' = [42]"
  using read_reply_reassembles
    [of "[Data (take 5 (reply_bytes \<lparr>rp_magic = dnbd3_packet_magic, rp_cmd = CMD_GET_BLOCK, rp_size = 1, rp_handle = 9\<rparr>)),
          Data (drop 5 (reply_bytes \<lparr>rp_magic = dnbd3_packet_magic, rp_cmd = CMD_GET_BLOCK, rp_size = 1, rp_handle = 9\<rparr>) @ [42])]"
      "\<lparr>rp_magic = dnbd3_packet_magic, rp_cmd = CMD_GET_BLOCK, rp_size = 1, rp_handle = 9\<rparr>" "[42]" False]
  by (simp add: Let_def stream_Data)

end
