(* ===== verification/Host.thy ===== *)
theory Host
  imports Server_Types
begin

text \<open>
  Addresses and strings, after \<^verbatim>\<open>src/server/helper.[ch]\<close>. The conversions of the C library between binary and
  printed addresses are parameters: \<open>pton4\<close> and \<open>pton6\<close> for \<^verbatim>\<open>inet_pton\<close>, \<open>ntop4\<close> and \<open>ntop6\<close> for
  \<^verbatim>\<open>inet_ntop\<close>.
\<close>

section \<open>Comparing hosts\<close>

definition addr_len :: "dnbd3_host_t \<Rightarrow> nat" where
  "addr_len h = (if htype h = HOST_IP4 then 4 else 16)"

definition isSameAddress :: "dnbd3_host_t \<Rightarrow> dnbd3_host_t \<Rightarrow> bool" where
  "isSameAddress a b \<longleftrightarrow> htype a = htype b \<and> take (addr_len a) (addr a) = take (addr_len a) (addr b)"

definition isSameAddressPort :: "dnbd3_host_t \<Rightarrow> dnbd3_host_t \<Rightarrow> bool" where
  "isSameAddressPort a b \<longleftrightarrow> htype a = htype b \<and> port a = port b
     \<and> take (addr_len a) (addr a) = take (addr_len a) (addr b)"

section \<open>Strings\<close>

definition strend :: "string option \<Rightarrow> string option \<Rightarrow> bool" where
  "strend str suffix =
     (case str of
        None \<Rightarrow> False
      | Some s \<Rightarrow>
          (case suffix of
             None \<Rightarrow> True
           | Some x \<Rightarrow> if x = [] then True
                       else if length x > length s then False
                       else drop (length s - length x) s = x))"

definition remove_trailing_slash :: "string \<Rightarrow> string" where
  "remove_trailing_slash s = rev (dropWhile (\<lambda>c. c = CHR ''/'') (rev s))"

definition trim_right :: "string \<Rightarrow> string" where
  "trim_right s = rev (dropWhile (\<lambda>c. c = CHR 0x0D \<or> c = CHR 0x0A \<or> c = CHR '' '' \<or> c = CHR 0x09) (rev s))"

text \<open>\<^verbatim>\<open>htons\<close> and \<^verbatim>\<open>ntohs\<close> on a little-endian machine.\<close>

definition htons :: "u16 \<Rightarrow> u16" where
  "htons x = push_bit 8 x OR drop_bit 8 x"

text \<open>\<^verbatim>\<open>atol\<close>: blanks, a sign, digits; the value is cut to a \<^verbatim>\<open>long\<close>, by \<^verbatim>\<open>atoi\<close> then to an \<^verbatim>\<open>int\<close>.\<close>

definition is_digit :: "char \<Rightarrow> bool" where
  "is_digit c \<longleftrightarrow> of_char c \<ge> (48 :: nat) \<and> of_char c \<le> (57 :: nat)"

definition is_space :: "char \<Rightarrow> bool" where
  "is_space c \<longleftrightarrow> of_char c = (32 :: nat) \<or> (of_char c \<ge> (9 :: nat) \<and> of_char c \<le> (13 :: nat))"

definition digits_value :: "string \<Rightarrow> int" where
  "digits_value ds = foldl (\<lambda>v c. 10 * v + (of_char c - 48)) 0 ds"

definition atol :: "string \<Rightarrow> int" where
  "atol str =
     (let s = dropWhile is_space str;
          (neg, t) = (case s of [] \<Rightarrow> (False, [])
                      | c # cs \<Rightarrow> if c = CHR ''-'' then (True, cs) else if c = CHR ''+'' then (False, cs) else (False, s));
          v = digits_value (takeWhile is_digit t);
          w = (if neg then - v else v)
      in max (- (2 ^ 63)) (min (2 ^ 63 - 1) w))"

definition atoi :: "string \<Rightarrow> int" where
  "atoi str = sint (word_of_int (atol str) :: 32 word)"

text \<open>\<^verbatim>\<open>printf("%d")\<close> for a natural number.\<close>

fun print_nat :: "nat \<Rightarrow> string" where
  "print_nat n = (if n < 10 then [char_of (48 + n)] else print_nat (n div 10) @ [char_of (48 + n mod 10)])"

declare print_nat.simps [simp del]

section \<open>Parsing and printing addresses\<close>

definition PORT :: u16 where "PORT = 5003"

definition ip4_host :: "u8 list \<Rightarrow> u16 \<Rightarrow> dnbd3_host_t" where
  "ip4_host a p = \<lparr>addr = take 4 a @ replicate 12 0, port = p, htype = HOST_IP4\<rparr>"

definition ip6_host :: "u8 list \<Rightarrow> u16 \<Rightarrow> dnbd3_host_t" where
  "ip6_host a p = \<lparr>addr = take 16 a, port = p, htype = HOST_IP6\<rparr>"

definition parse_ip ::
  "(string \<Rightarrow> u8 list option) \<Rightarrow> (string \<Rightarrow> u8 list option) \<Rightarrow> string \<Rightarrow> u16 \<Rightarrow> dnbd3_host_t option" where
  "parse_ip pton4 pton6 s p =
     (case pton4 s of
        Some v4 \<Rightarrow> Some (ip4_host v4 p)
      | None \<Rightarrow> (case pton6 s of Some v6 \<Rightarrow> Some (ip6_host v6 p) | None \<Rightarrow> None))"

text \<open>The position of the last colon.\<close>

fun last_colon :: "string \<Rightarrow> nat option" where
  "last_colon [] = None"
| "last_colon (c # cs) =
     (case last_colon cs of Some i \<Rightarrow> Some (Suc i) | None \<Rightarrow> if c = CHR '':'' then Some 0 else None)"

definition parse_address ::
  "(string \<Rightarrow> u8 list option) \<Rightarrow> (string \<Rightarrow> u8 list option) \<Rightarrow> string \<Rightarrow> dnbd3_host_t option" where
  "parse_address pton4 pton6 s =
     (case parse_ip pton4 pton6 s (htons PORT) of
        Some h \<Rightarrow> Some h
      | None \<Rightarrow>
          (case last_colon s of
             None \<Rightarrow> None
           | Some pos \<Rightarrow>
               let ip = (if s ! 0 = CHR ''['' \<and> pos \<ge> 1 \<and> s ! (pos - 1) = CHR '']''
                         then take (pos - 2) (drop 1 s) else take pos s);
                   p = atoi (drop (pos + 1) s)
               in if p < 1 \<or> p > 65535 then None
                  else parse_ip pton4 pton6 ip (htons (word_of_int p))))"

text \<open>\<^verbatim>\<open>host_to_string\<close> into a buffer that is large enough (48 bytes hold every address).\<close>

definition host_to_string :: "(u8 list \<Rightarrow> string) \<Rightarrow> (u8 list \<Rightarrow> string) \<Rightarrow> dnbd3_host_t \<Rightarrow> string option" where
  "host_to_string ntop4 ntop6 h =
     (let suffix = (if port h \<noteq> 0 then CHR '':'' # print_nat (unat (htons (port h))) else [])
      in if htype h = HOST_IP6 then Some (CHR ''['' # ntop6 (addr h) @ CHR '']'' # suffix)
         else if htype h = HOST_IP4 then Some (ntop4 (take 4 (addr h)) @ suffix)
         else None)"

section \<open>Facts\<close>

lemma htons_htons [simp]: "htons (htons x) = x"
  by (rule bit_word_eqI) (auto simp: htons_def bit_simps)

lemma isSameAddress_refl [simp]: "isSameAddress a a"
  by (simp add: isSameAddress_def)

lemma isSameAddress_sym: "isSameAddress a b \<Longrightarrow> isSameAddress b a"
  by (auto simp: isSameAddress_def addr_len_def)

lemma isSameAddress_trans: "isSameAddress a b \<Longrightarrow> isSameAddress b c \<Longrightarrow> isSameAddress a c"
  by (auto simp: isSameAddress_def addr_len_def)

lemma isSameAddressPort_iff: "isSameAddressPort a b \<longleftrightarrow> isSameAddress a b \<and> port a = port b"
  by (auto simp: isSameAddressPort_def isSameAddress_def)

lemma isSameAddressPort_refl [simp]: "isSameAddressPort a a"
  by (simp add: isSameAddressPort_iff)

lemma strend_iff: "strend (Some s) (Some x) \<longleftrightarrow> (\<exists>p. s = p @ x)"
proof
  assume *: "strend (Some s) (Some x)"
  have "s = take (length s - length x) s @ drop (length s - length x) s" by simp
  moreover have "drop (length s - length x) s = x"
    using * by (auto simp: strend_def split: if_splits)
  ultimately show "\<exists>p. s = p @ x" by metis
qed (auto simp: strend_def)

end
