(* ===== verification/Uplink.thy ===== *)
theory Uplink
  imports CacheImage Wire Host
begin

text \<open>
  The uplink of a proxied image, after \<^verbatim>\<open>src/server/uplink.c\<close>: the queue of requests relayed to the
  upstream server, the clients attached to each of them, and what happens when a block arrives. The state is the
  uplink, its image, the local cache file as a function from byte positions to bytes, and logs of the effects: the
  callbacks fired, the requests sent and the hash blocks handed to the integrity checker, oldest first.

  Each section of the code that runs under \<^verbatim>\<open>queueLock\<close> or \<^verbatim>\<open>sendMutex\<close> is one definition; the functions compose
  them. Results of system calls are arguments.
\<close>

section \<open>State\<close>

record callback =
  cb_fn :: uplink_callback
  cb_data :: nat
  cb_handle :: u64
  cb_start :: u64
  cb_length :: u32
  cb_buffer :: "byte list option"

record uplink_state =
  ul :: dnbd3_uplink_t
  img :: dnbd3_image_t
  disk :: "nat \<Rightarrow> byte"
  totalBytesReceived :: u64
  calls :: "callback list"
  sends :: "dnbd3_request_t list"
  checks :: "int list"

text \<open>The client of a request: the \<^verbatim>\<open>data\<close> pointer, the callback and the client's own handle.\<close>

record requester =
  r_data :: nat
  r_callback :: uplink_callback
  r_handle :: u64

record req_t =
  req_start :: u64
  req_end :: u64
  req_handle :: u64

definition HOP_FLAG_BGR :: u8 where "HOP_FLAG_BGR = 0x80"
definition HOP_FLAG_PREFETCH :: u8 where "HOP_FLAG_PREFETCH = 0x40"

definition set_problem_queue :: "bool \<Rightarrow> dnbd3_image_t \<Rightarrow> dnbd3_image_t" where
  "set_problem_queue b i = i\<lparr>problem := (problem i)\<lparr>p_queue := b\<rparr>\<rparr>"

definition set_problem_uplink :: "bool \<Rightarrow> dnbd3_image_t \<Rightarrow> dnbd3_image_t" where
  "set_problem_uplink b i = i\<lparr>problem := (problem i)\<lparr>p_uplink := b\<rparr>\<rparr>"

definition set_problem_write :: "bool \<Rightarrow> dnbd3_image_t \<Rightarrow> dnbd3_image_t" where
  "set_problem_write b i = i\<lparr>problem := (problem i)\<lparr>p_write := b\<rparr>\<rparr>"

text \<open>The index of the first element of a linked list that satisfies a test.\<close>

fun queue_find :: "('a \<Rightarrow> bool) \<Rightarrow> 'a list \<Rightarrow> nat option" where
  "queue_find P [] = None"
| "queue_find P (x # xs) = (if P x then Some 0 else map_option Suc (queue_find P xs))"

section \<open>Cancelling\<close>

definition cancel_call :: "dnbd3_queue_client_t \<Rightarrow> callback" where
  "cancel_call c = \<lparr>cb_fn = qc_callback c, cb_data = qc_data c, cb_handle = qc_handle c, cb_start = 0,
     cb_length = 0, cb_buffer = None\<rparr>"

definition cancelAllRequests :: "uplink_state \<Rightarrow> uplink_state" where
  "cancelAllRequests st =
     st\<lparr>calls := calls st @ concat (map (\<lambda>e. map cancel_call (qe_clients e)) (queue (ul st))),
        ul := (ul st)\<lparr>queue := [], queueLen := 0\<rparr>,
        img := set_problem_queue False (img st)\<rparr>"

definition uplink_removeEntry :: "nat \<Rightarrow> uplink_callback \<Rightarrow> uplink_state \<Rightarrow> uplink_state" where
  "uplink_removeEntry dat cback st =
     (let mine = (\<lambda>c. qc_data c = dat \<and> qc_callback c = cback)
      in st\<lparr>calls := calls st @ concat (map (\<lambda>e. map cancel_call (filter mine (qe_clients e))) (queue (ul st))),
            ul := (ul st)\<lparr>queue := map (\<lambda>e. e\<lparr>qe_clients := filter (\<lambda>c. \<not> mine c) (qe_clients e)\<rparr>) (queue (ul st))\<rparr>\<rparr>)"

text \<open>\<^verbatim>\<open>uplink_shutdown\<close>: the return value; the reference the image holds on the uplink is dropped.\<close>

definition uplink_shutdown :: "uplink_state \<Rightarrow> bool \<times> uplink_state" where
  "uplink_shutdown st =
     (if uplinkref (img st) = None then (True, st)
      else let exp = shutdown (ul st);
               st1 = (if exp then st
                      else st\<lparr>ul := (ul st)\<lparr>shutdown := True\<rparr>, img := (img st)\<lparr>users := users (img st) + 1\<rparr>\<rparr>);
               st2 = cancelAllRequests st1;
               st3 = st2\<lparr>img := (img st2)\<lparr>uplinkref := None\<rparr>\<rparr>
           in (exp \<and> users (img st3) = 0, st3))"

section \<open>Requests\<close>

definition extendRequest :: "config \<Rightarrow> u64 \<Rightarrow> u64 \<Rightarrow> dnbd3_image_t \<Rightarrow> u32 \<Rightarrow> u64" where
  "extendRequest cfg start end i wanted =
     (let len = (ucast (end - start) :: u32) in
      if len \<ge> wanted then end
      else let far = start + ucast wanted;
               e1 = (if backgroundReplication cfg = BGR_HASHBLOCK
                        \<and> end div HASH_BLOCK_SIZE \<noteq> far div HASH_BLOCK_SIZE
                     then hash_floor far else far);
               e2 = (if e1 > virtualFilesize i then virtualFilesize i else e1)
           in block_ceil e2)"

text \<open>\<^verbatim>\<open>requestBlock\<close>: \<open>ok\<close> is what \<^verbatim>\<open>dnbd3_get_block\<close> returns if it is called.\<close>

definition requestBlock :: "req_t \<Rightarrow> u8 \<Rightarrow> bool \<Rightarrow> uplink_state \<Rightarrow> bool \<times> uplink_state" where
  "requestBlock req h ok st =
     (if conn_fd (current (ul st)) = -1 then (False, st)
      else (ok, st\<lparr>sends := sends st @ [block_request (req_start req) (ucast (req_end req - req_start req))
                     (req_handle req) (COND_HOPCOUNT (conn_version (current (ul st))) h)]\<rparr>))"

definition markRequestUnsent :: "u64 \<Rightarrow> uplink_state \<Rightarrow> uplink_state" where
  "markRequestUnsent handle st =
     (case queue_find (\<lambda>e. qe_handle e = handle) (queue (ul st)) of
        None \<Rightarrow> st
      | Some i \<Rightarrow> st\<lparr>ul := (ul st)\<lparr>queue := (queue (ul st))[i := (queue (ul st) ! i)\<lparr>qe_sent := False\<rparr>]\<rparr>\<rparr>)"

text \<open>
  The critical section of \<^verbatim>\<open>uplink_requestInternal\<close> in three parts. First find a pending request that covers the
  range, or append a new one: the index of the request and whether it is new; \<open>None\<close> is the label \<^verbatim>\<open>fail_lock\<close>.
\<close>

definition request_attach ::
  "requester option \<Rightarrow> u64 \<Rightarrow> u64 \<Rightarrow> u64 \<Rightarrow> u64 \<Rightarrow> u8 \<Rightarrow> uplink_state \<Rightarrow> (uplink_state \<times> nat \<times> bool) option" where
  "request_attach client start end rstart rend h st =
     (let u = ul st in
      if shutdown u then None
      else case queue_find (\<lambda>e. qe_from e \<le> start \<and> qe_to e \<ge> end) (queue u) of
             None \<Rightarrow>
               if queueLen u \<ge> UPLINK_MAX_QUEUE then None
               else let request = \<lparr>qe_handle = queueId u + 1, qe_from = rstart, qe_to = rend, qe_clients = [],
                                   qe_hopCount = h, qe_sent = True\<rparr>;
                        u1 = u\<lparr>queueLen := queueLen u + 1, queue := queue u @ [request], queueId := queueId u + 1\<rparr>;
                        i1 = (if queueLen u1 > SERVER_UPLINK_QUEUELEN_THRES
                              then set_problem_queue True (img st) else img st)
                    in Some (st\<lparr>ul := u1, img := i1\<rparr>, length (queue u), True)
           | Some i \<Rightarrow>
               let request = queue u ! i in
               if client = None then Some (st, i, False)
               else if h > qe_hopCount request \<and> qe_from request = start \<and> qe_to request = end then None
               else if length (qe_clients request) \<ge> UPLINK_MAX_CLIENTS_PER_REQUEST then None
               else Some (st, i, False))"

text \<open>Then insert a prefetch request right behind it, if it is eligible.\<close>

definition request_prefetch ::
  "config \<Rightarrow> requester option \<Rightarrow> u64 \<Rightarrow> u32 \<Rightarrow> u8 \<Rightarrow> nat \<Rightarrow> bool \<Rightarrow> uplink_state \<Rightarrow> uplink_state \<times> req_t option" where
  "request_prefetch cfg client end len h i isNew st =
     (let u = ul st; request = queue u ! i in
      case client of
        None \<Rightarrow> (st, None)
      | Some c \<Rightarrow>
          if (isNew \<or> qe_clients request = [] \<or> qc_data (hd (qe_clients request)) = r_data c)
             \<and> h AND (HOP_FLAG_BGR OR HOP_FLAG_PREFETCH) = 0
             \<and> end = qe_to request \<and> len \<le> maxPrefetch cfg
          then let preEnd = extendRequest cfg end end (img st) (min (len * 3) (maxPrefetch cfg)) in
               if end < preEnd
               then let pre = \<lparr>qe_handle = queueId u + 1, qe_from = end, qe_to = preEnd, qe_clients = [],
                               qe_hopCount = h OR HOP_FLAG_PREFETCH, qe_sent = True\<rparr>
                    in (st\<lparr>ul := u\<lparr>queueLen := queueLen u + 1,
                                   queue := take (i + 1) (queue u) @ [pre] @ drop (i + 1) (queue u),
                                   queueId := queueId u + 1\<rparr>\<rparr>,
                        Some \<lparr>req_start = end, req_end = preEnd, req_handle = queueId u + 1\<rparr>)
               else (st, None)
          else (st, None))"

text \<open>Finally put the client at the end of the request's list.\<close>

definition request_addClient :: "requester option \<Rightarrow> u64 \<Rightarrow> u64 \<Rightarrow> nat \<Rightarrow> uplink_state \<Rightarrow> uplink_state" where
  "request_addClient client start end i st =
     (case client of
        None \<Rightarrow> st
      | Some c \<Rightarrow>
          let request = queue (ul st) ! i;
              qc = \<lparr>qc_data = r_data c, qc_handle = r_handle c, qc_from = start, qc_to = end, qc_callback = r_callback c\<rparr>
          in st\<lparr>ul := (ul st)\<lparr>queue := (queue (ul st))[i := request\<lparr>qe_clients := qe_clients request @ [qc]\<rparr>]\<rparr>\<rparr>)"

definition request_enqueue ::
  "config \<Rightarrow> requester option \<Rightarrow> u64 \<Rightarrow> u32 \<Rightarrow> u8 \<Rightarrow> uplink_state \<Rightarrow> (uplink_state \<times> bool \<times> req_t \<times> req_t option) option" where
  "request_enqueue cfg client start len h st =
     (let end = start + ucast len;
          rstart = block_floor start;
          rend = block_ceil (if client \<noteq> None \<and> minRequestSize cfg \<noteq> 0
                             then extendRequest cfg rstart end (img st) (minRequestSize cfg) else end)
      in case request_attach client start end rstart rend h st of
           None \<Rightarrow> None
         | Some (st1, i, isNew) \<Rightarrow>
             let (st2, pre) = request_prefetch cfg client end len h i isNew st1;
                 st3 = request_addClient client start end i st2
             in Some (st3, isNew,
                      \<lparr>req_start = rstart, req_end = rend, req_handle = qe_handle (queue (ul st3) ! i)\<rparr>, pre))"

text \<open>Sending, under the send mutex, then marking what could not be sent.\<close>

definition request_send :: "bool \<Rightarrow> req_t \<Rightarrow> req_t option \<Rightarrow> u8 \<Rightarrow> bool \<Rightarrow> bool \<Rightarrow> uplink_state \<Rightarrow> uplink_state" where
  "request_send isNew req pre h ok1 ok2 st =
     (let (ret1, st1) = (if isNew then requestBlock req h ok1 st else (True, st));
          (ret2, st2) = (case pre of None \<Rightarrow> (True, st1)
                         | Some p \<Rightarrow> requestBlock p (h OR HOP_FLAG_PREFETCH) ok2 st1);
          st3 = (if \<not> ret1 \<or> \<not> ret2 then st2\<lparr>img := set_problem_uplink True (img st2)\<rparr> else st2);
          st4 = (if \<not> ret1 then markRequestUnsent (req_handle req) st3 else st3)
      in case pre of None \<Rightarrow> st4 | Some p \<Rightarrow> if \<not> ret2 then markRequestUnsent (req_handle p) st4 else st4)"

definition request_hops :: "config \<Rightarrow> requester option \<Rightarrow> u8 \<Rightarrow> u8" where
  "request_hops cfg client h =
     (if client = None then (h + 1) OR (if pretendClient cfg then HOP_FLAG_PREFETCH else HOP_FLAG_BGR) else h + 1)"

definition uplink_requestInternal ::
  "config \<Rightarrow> requester option \<Rightarrow> u64 \<Rightarrow> u32 \<Rightarrow> u8 \<Rightarrow> bool \<Rightarrow> bool \<Rightarrow> uplink_state \<Rightarrow> bool \<times> uplink_state" where
  "uplink_requestInternal cfg client start len h ok1 ok2 st =
     (if h AND HOP_FLAG_BGR \<noteq> 0 \<and> backgroundReplication cfg \<noteq> BGR_FULL then (False, st)
      else if shutdown (ul st) then (False, st)
      else if len > maxPayload cfg then (False, st)
      else let h' = request_hops cfg client h in
           case request_enqueue cfg client start len h' st of
             None \<Rightarrow> (False, st)
           | Some (st1, isNew, req, pre) \<Rightarrow>
               if pre = None \<and> \<not> isNew then (True, st1)
               else (True, request_send isNew req pre h' ok1 ok2 st1))"

section \<open>Creating an uplink and the entry points for clients\<close>

definition no_connection :: dnbd3_server_connection_t where
  "no_connection = \<lparr>conn_fd = 0, conn_version = 0, conn_index = 0\<rparr>"

text \<open>The structure after \<^verbatim>\<open>calloc\<close> and the first assignments of \<^verbatim>\<open>uplink_init\<close>.\<close>

definition uplink_fresh :: dnbd3_uplink_t where
  "uplink_fresh =
     \<lparr>current = no_connection, better = no_connection, rttTestResult = RTT_IDLE, cacheFd = -1, recvBuffer = [],
      recvBufferLen = 0, shutdown = False, replicatedLastBlock = False, cycleDetected = False,
      nextReplicationIndex = 0, bytesReceived = 0, bytesReceivedLastSave = 0, queueLen = 0,
      idleTime = SERVER_UPLINK_IDLE_TIMEOUT - 90, queue = [], queueId = 0,
      altData = replicate (nat SERVER_MAX_ALTS)
        \<lparr>l_fails = 0, l_rttIndex = 0, l_rtt = replicate SERVER_RTT_PROBES 0, l_blocked = False, l_initDone = False\<rparr>\<rparr>"

text \<open>The descriptors \<^verbatim>\<open>freeUplinkStruct\<close> closes; \<open>None\<close> is its assertion that the queue is empty.\<close>

definition freeUplinkStruct :: "dnbd3_uplink_t \<Rightarrow> int list option" where
  "freeUplinkStruct u =
     (if queueLen u \<noteq> 0 then None
      else Some (filter (\<lambda>fd. fd \<noteq> -1) [conn_fd (current u), conn_fd (better u), cacheFd u]))"

text \<open>
  \<^verbatim>\<open>uplink_init\<close>: the return value, the image, the uplink now attached (if any) and the descriptors closed. The
  descriptor \<open>sock\<close> is -1 for none; \<open>hasAlt\<close> is \<^verbatim>\<open>altservers_imageHasAltServers\<close>, \<open>hostIndex\<close>
  \<^verbatim>\<open>altservers_hostToIndex\<close>; \<open>signalOk\<close> and \<open>threadOk\<close> tell whether the two resources could be created. The failure
  path takes a user count on the image and \<^verbatim>\<open>freeUplinkStruct\<close> gives it back.
\<close>

definition uplink_init ::
  "config \<Rightarrow> bool \<Rightarrow> bool \<Rightarrow> int \<Rightarrow> int \<Rightarrow> int \<Rightarrow> bool \<Rightarrow> bool \<Rightarrow> nat \<Rightarrow> dnbd3_image_t
     \<Rightarrow> bool \<times> dnbd3_image_t \<times> dnbd3_uplink_t option \<times> int list" where
  "uplink_init cfg globalShutdown hasAlt sock hostIndex version signalOk threadOk ref i =
     (if \<not> isProxy cfg \<or> globalShutdown then (False, i, None, [])
      else if sock = -1 \<and> \<not> hasAlt then (False, i, None, [])
      else if uplinkref i \<noteq> None then (True, i, None, if sock \<noteq> -1 then [sock] else [])
      else if ref_cacheMap i = None then (False, i, None, [])
      else if \<not> signalOk then (False, i, None, the (freeUplinkStruct uplink_fresh))
      else
        let i1 = set_problem_queue False (set_problem_write True (set_problem_uplink True i));
            b = (if sock \<noteq> -1
                 then \<lparr>conn_fd = sock, conn_version = version, conn_index = (if hostIndex = -1 then 0 else hostIndex)\<rparr>
                 else no_connection\<lparr>conn_fd := -1\<rparr>);
            u = uplink_fresh\<lparr>current := no_connection\<lparr>conn_fd := -1\<rparr>, better := b,
                  rttTestResult := (if sock \<noteq> -1 then RTT_DOCHANGE else RTT_IDLE)\<rparr>
        in if \<not> threadOk then (False, i1, None, the (freeUplinkStruct u))
           else (True, i1\<lparr>uplinkref := Some ref\<rparr>, Some u, []))"

text \<open>
  What the entry points find in the environment: whether the server shuts down, whether another server may provide the
  image, whether the resources of a new uplink can be created and its address, the address of the current upstream
  server, and whether the one or two requests to it can be sent.
\<close>

record uplink_env =
  ue_globalShutdown :: bool
  ue_hasAlt :: bool
  ue_signalOk :: bool
  ue_threadOk :: bool
  ue_ref :: nat
  ue_host :: dnbd3_host_t
  ue_ok1 :: bool
  ue_ok2 :: bool

definition ensure_uplink :: "config \<Rightarrow> uplink_env \<Rightarrow> uplink_state \<Rightarrow> uplink_state" where
  "ensure_uplink cfg e st =
     (if uplinkref (img st) \<noteq> None then st
      else case uplink_init cfg (ue_globalShutdown e) (ue_hasAlt e) (-1) (-1) (-1) (ue_signalOk e) (ue_threadOk e)
                  (ue_ref e) (img st) of
             (_, i, Some u, _) \<Rightarrow> st\<lparr>ul := u, img := i\<rparr>
           | (_, i, None, _) \<Rightarrow> st\<lparr>img := i\<rparr>)"

definition uplink_requestClient ::
  "config \<Rightarrow> uplink_env \<Rightarrow> dnbd3_host_t \<Rightarrow> requester \<Rightarrow> u64 \<Rightarrow> u32 \<Rightarrow> u8 \<Rightarrow> uplink_state \<Rightarrow> bool \<times> uplink_state" where
  "uplink_requestClient cfg e clientHost client start len h st =
     (if h AND 0x3f > 60 then (False, st)
      else let st1 = ensure_uplink cfg e st in
        if uplinkref (img st1) = None then (False, st1)
        else if h > 1 \<and> isSameAddress (ue_host e) clientHost
        then (False, st1\<lparr>ul := (ul st1)\<lparr>cycleDetected := True\<rparr>\<rparr>)
        else uplink_requestInternal cfg (Some client) start len h (ue_ok1 e) (ue_ok2 e) st1)"

definition uplink_request ::
  "config \<Rightarrow> uplink_env \<Rightarrow> requester \<Rightarrow> u64 \<Rightarrow> u32 \<Rightarrow> uplink_state \<Rightarrow> bool \<times> uplink_state" where
  "uplink_request cfg e client start len st =
     (let st1 = ensure_uplink cfg e st in
      if uplinkref (img st1) = None then (False, st1)
      else uplink_requestInternal cfg (Some client) start len 0 (ue_ok1 e) (ue_ok2 e) st1)"

section \<open>The cache file\<close>

text \<open>\<^verbatim>\<open>reopenCacheFd\<close>; \<open>fd\<close> is what \<^verbatim>\<open>open\<close> returns if it is called.\<close>

definition reopenCacheFd :: "bool \<Rightarrow> int \<Rightarrow> uplink_state \<Rightarrow> bool \<times> uplink_state" where
  "reopenCacheFd force fd st =
     (if cacheFd (ul st) \<noteq> -1 \<and> \<not> force then (True, st)
      else (fd \<noteq> -1, st\<lparr>ul := (ul st)\<lparr>cacheFd := fd\<rparr>, img := set_problem_write (fd = -1) (img st)\<rparr>))"

text \<open>
  The outcomes of \<^verbatim>\<open>pwrite\<close>, each with the result of the recovery the code may attempt then: making room on the
  disk, or opening the file again.
\<close>

datatype pwrite_result = PW_ret int | PW_EINTR | PW_nospace bool | PW_badfd int | PW_other

definition write_bytes :: "nat \<Rightarrow> byte list \<Rightarrow> (nat \<Rightarrow> byte) \<Rightarrow> nat \<Rightarrow> byte" where
  "write_bytes pos bs d = (\<lambda>i. if pos \<le> i \<and> i < pos + length bs then bs ! (i - pos) else d i)"

text \<open>
  The write loop of \<^verbatim>\<open>handleReceive\<close>: the number of bytes that reached the file. \<open>None\<close> is a script that is too
  short.
\<close>

fun write_loop :: "bool \<Rightarrow> byte list \<Rightarrow> nat \<Rightarrow> nat \<Rightarrow> bool \<Rightarrow> pwrite_result list \<Rightarrow> uplink_state \<Rightarrow> (nat \<times> uplink_state) option" where
  "write_loop globalShutdown payload start done tryAgain [] st =
     (if done < length payload then None else Some (done, st))"
| "write_loop globalShutdown payload start done tryAgain (r # rs) st =
     (if \<not> done < length payload then Some (done, st)
      else case r of
        PW_EINTR \<Rightarrow> if \<not> globalShutdown then write_loop globalShutdown payload start done tryAgain rs st
                     else Some (done, st)
      | PW_nospace freed \<Rightarrow>
          if \<not> tryAgain \<or> \<not> freed then Some (done, st)
          else write_loop globalShutdown payload start done False rs st
      | PW_badfd fd \<Rightarrow>
          (let st1 = st\<lparr>img := set_problem_write True (img st)\<rparr> in
           if \<not> tryAgain then Some (done, st1)
           else let (ok, st2) = reopenCacheFd True fd st1 in
                if \<not> ok then Some (done, st2)
                else write_loop globalShutdown payload start done False rs st2)
      | PW_other \<Rightarrow> Some (done, st)
      | PW_ret n \<Rightarrow>
          if n \<le> 0 \<or> nat n > length payload - done then Some (done, st)
          else write_loop globalShutdown payload start (done + nat n) tryAgain rs
                 (st\<lparr>disk := write_bytes (start + done) (take (nat n) (drop done payload)) (disk st)\<rparr>))"

section \<open>Receiving\<close>

text \<open>\<^verbatim>\<open>recvBuffer\<close> grows when a payload does not fit; \<open>junk\<close> is what \<^verbatim>\<open>realloc\<close> finds in the new part.\<close>

definition grow_buffer :: "config \<Rightarrow> byte list \<Rightarrow> u32 \<Rightarrow> dnbd3_uplink_t \<Rightarrow> dnbd3_uplink_t" where
  "grow_buffer cfg junk sz u =
     (if recvBufferLen u < sz
      then let n = min (maxPayload cfg) (sz + 65536)
           in u\<lparr>recvBufferLen := n, recvBuffer := take (unat n) (recvBuffer u @ junk)\<rparr>
      else u)"

definition fill_buffer :: "byte list \<Rightarrow> dnbd3_uplink_t \<Rightarrow> dnbd3_uplink_t" where
  "fill_buffer payload u = u\<lparr>recvBuffer := payload @ drop (length payload) (recvBuffer u)\<rparr>"

text \<open>Writing a payload to the cache file and marking what was written.\<close>

definition receive_store ::
  "bool \<Rightarrow> int \<Rightarrow> pwrite_result list \<Rightarrow> u64 \<Rightarrow> byte list \<Rightarrow> uplink_state \<Rightarrow> uplink_state option" where
  "receive_store globalShutdown fd script start payload st =
     (let st1 = (if cacheFd (ul st) = -1 then snd (reopenCacheFd False fd st) else st) in
      if cacheFd (ul st1) = -1 then Some st1
      else case write_loop globalShutdown payload (unat start) 0 True script st1 of
             None \<Rightarrow> None
           | Some (done, st2) \<Rightarrow>
               if done > 0
               then (case image_updateCachemap (img st2) start (start + word_of_nat done) True of
                       None \<Rightarrow> None
                     | Some (i, blocks) \<Rightarrow> Some (st2\<lparr>img := i, checks := checks st2 @ blocks\<rparr>))
               else Some st2)"

text \<open>
  Taking the entry out of the queue and answering its clients from the receive buffer. Handles are unique, so that
  the comparison of pointers in the code is the comparison of handles. \<open>None\<close> is the assertion on the client's range.
  The source lets go of \<^verbatim>\<open>queueLock\<close> between the two; the entry is out of reach of all other threads by then, and the
  callbacks are counted with the section that took it out.
\<close>

definition answer_call :: "byte list \<Rightarrow> u64 \<Rightarrow> dnbd3_queue_client_t \<Rightarrow> callback" where
  "answer_call buf start c =
     \<lparr>cb_fn = qc_callback c, cb_data = qc_data c, cb_handle = qc_handle c, cb_start = qc_from c,
      cb_length = ucast (qc_to c - qc_from c),
      cb_buffer = Some (take (unat (ucast (qc_to c - qc_from c) :: u32)) (drop (unat (qc_from c - start)) buf))\<rparr>"

definition MAP_INDEX_HASH_START :: "int \<Rightarrow> int" where
  "MAP_INDEX_HASH_START i = i AND NOT 511"

definition receive_finish :: "u64 \<Rightarrow> u64 \<Rightarrow> u64 \<Rightarrow> uplink_state \<Rightarrow> uplink_state option" where
  "receive_finish handle start end st =
     (let u = ul st; ix = queue_find (\<lambda>e. qe_handle e = handle) (queue u);
          u1 = (case ix of None \<Rightarrow> u
                | Some i \<Rightarrow> u\<lparr>queue := take i (queue u) @ drop (i + 1) (queue u), queueLen := queueLen u - 1\<rparr>);
          i1 = (if queueLen u1 < SERVER_UPLINK_QUEUELEN_THRES then set_problem_queue False (img st) else img st)
      in case ix of
           None \<Rightarrow> Some (st\<lparr>ul := u1, img := i1\<rparr>)
         | Some i \<Rightarrow>
             let clients = qe_clients (queue u ! i) in
             if \<not> list_all (\<lambda>c. qc_from c \<ge> start \<and> qc_to c \<le> end) clients then None
             else let u2 = (if clients = [] then u1
                            else u1\<lparr>idleTime := 0,
                                    nextReplicationIndex := (if nextReplicationIndex u1 = -1
                                       then MAP_INDEX_HASH_START (c_int (start div 32768))
                                       else nextReplicationIndex u1)\<rparr>)
                  in Some (st\<lparr>ul := u2, img := i1,
                              calls := calls st @ map (answer_call (recvBuffer u) start) clients\<rparr>))"

text \<open>What follows once the payload of a block reply is in the receive buffer.\<close>

definition receive_block ::
  "bool \<Rightarrow> int \<Rightarrow> pwrite_result list \<Rightarrow> u64 \<Rightarrow> byte list \<Rightarrow> uplink_state \<Rightarrow> uplink_state option" where
  "receive_block globalShutdown fd script handle payload st0 =
     (let sz = word_of_nat (length payload);
          st = st0\<lparr>totalBytesReceived := totalBytesReceived st0 + sz,
                   ul := (ul st0)\<lparr>bytesReceived := bytesReceived (ul st0) + sz\<rparr>\<rparr>
      in case queue_find (\<lambda>e. qe_handle e = handle) (queue (ul st)) of
           None \<Rightarrow> Some st
         | Some i \<Rightarrow>
             let entry = queue (ul st) ! i in
             (case receive_store globalShutdown fd script (qe_from entry) payload st of
                None \<Rightarrow> None
              | Some st1 \<Rightarrow> receive_finish handle (qe_from entry) (qe_to entry) st1))"

end
