(* ===== verification/UplinkInv.thy ===== *)
theory UplinkInv
  imports Uplink
begin

text \<open>
  The invariant of the request queue and that every operation of the uplink keeps it: the length counter is the
  length, handles are unique and were all handed out, every entry is a block-aligned range inside the image, and
  every client's range lies inside its entry. The assertions of the code follow from it.
\<close>

definition client_ok :: "dnbd3_queue_entry_t \<Rightarrow> dnbd3_queue_client_t \<Rightarrow> bool" where
  "client_ok e c \<longleftrightarrow> qe_from e \<le> qc_from c \<and> qc_from c \<le> qc_to c \<and> qc_to c \<le> qe_to e
     \<and> unat (qc_to c) - unat (qc_from c) < 2 ^ 32"

definition entry_ok :: "u64 \<Rightarrow> dnbd3_queue_entry_t \<Rightarrow> bool" where
  "entry_ok vs e \<longleftrightarrow> 4096 dvd unat (qe_from e) \<and> 4096 dvd unat (qe_to e) \<and> qe_from e \<le> qe_to e \<and> qe_to e \<le> vs
     \<and> length (qe_clients e) \<le> UPLINK_MAX_CLIENTS_PER_REQUEST \<and> list_all (client_ok e) (qe_clients e)"

definition queue_ok :: "u64 \<Rightarrow> u64 \<Rightarrow> dnbd3_queue_entry_t list \<Rightarrow> bool" where
  "queue_ok vs qid q \<longleftrightarrow> distinct (map qe_handle q) \<and> list_all (entry_ok vs) q \<and> list_all (\<lambda>e. qe_handle e \<le> qid) q"

definition uplink_inv :: "uplink_state \<Rightarrow> bool" where
  "uplink_inv st \<longleftrightarrow> image_wf (img st) \<and> queueLen (ul st) = int (length (queue (ul st)))
     \<and> queue_ok (virtualFilesize (img st)) (queueId (ul st)) (queue (ul st))"

text \<open>What identifies an entry and never changes while it is queued.\<close>

definition entry_key :: "dnbd3_queue_entry_t \<Rightarrow> u64 \<times> u64 \<times> u64" where
  "entry_key e = (qe_handle e, qe_from e, qe_to e)"

section \<open>Searching and updating the queue\<close>

lemma queue_find_Some:
  "queue_find P xs = Some i \<Longrightarrow> i < length xs \<and> P (xs ! i) \<and> (\<forall>j < i. \<not> P (xs ! j))"
proof (induction xs arbitrary: i)
  case (Cons x xs)
  then show ?case by (cases i) (auto split: if_splits simp: less_Suc_eq_0_disj)
qed simp

lemma queue_find_None: "queue_find P xs = None \<longleftrightarrow> (\<forall>x \<in> set xs. \<not> P x)"
  by (induction xs) auto

lemma queue_ok_update:
  assumes "queue_ok vs qid q" "i < length q" "qe_handle e = qe_handle (q ! i)" "entry_ok vs e"
  shows "queue_ok vs qid (q[i := e])"
proof -
  have "map qe_handle (q[i := e]) = map qe_handle q"
    using assms(2,3) by (simp add: map_update list_update_same_conv)
  moreover have "qe_handle e \<le> qid"
    using assms(1-3) by (auto simp: queue_ok_def list_all_length)
  ultimately show ?thesis
    using assms(1,4) set_update_subset_insert [of q i e] by (auto simp: queue_ok_def list_all_iff)
qed

lemma queue_ok_insert:
  assumes "queue_ok vs qid (xs @ ys)" "entry_ok vs e" "qe_handle e = qid + 1" "unat qid + 1 < 2 ^ 64"
  shows "queue_ok vs (qid + 1) (xs @ [e] @ ys)"
proof -
  have lt: "qid < qid + 1"
    using assms(4) by (simp add: word_less_nat_alt unat_add_no_wrap)
  have "\<forall>e \<in> set (xs @ ys). qe_handle e \<le> qid"
    using assms(1) by (auto simp: queue_ok_def list_all_iff)
  then have "qid + 1 \<notin> qe_handle ` set (xs @ ys)"
    using lt by (metis image_iff linorder_not_less)
  moreover have "h \<le> qid \<Longrightarrow> h \<le> qid + 1" for h using lt by (meson less_imp_le order_trans)
  ultimately show ?thesis
    using assms(1-3) by (auto simp: queue_ok_def list_all_iff image_iff)
qed

lemma queue_ok_remove:
  "queue_ok vs qid q \<Longrightarrow> queue_ok vs qid (take i q @ drop (Suc i) q)"
proof -
  assume q: "queue_ok vs qid q"
  have "set (take i q) \<subseteq> set q" "set (drop (Suc i) q) \<subseteq> set q"
    by (simp_all add: set_take_subset set_drop_subset)
  moreover have "distinct (map qe_handle (take i q @ drop (Suc i) q))"
  proof (cases "i < length q")
    case True
    then have "map qe_handle q = map qe_handle (take i q) @ qe_handle (q ! i) # map qe_handle (drop (Suc i) q)"
      by (metis id_take_nth_drop list.map(2) map_append)
    then show ?thesis using q by (auto simp: queue_ok_def)
  qed (use q in \<open>simp add: queue_ok_def\<close>)
  ultimately show ?thesis using q by (auto simp: queue_ok_def list_all_iff)
qed

lemma queue_ok_map:
  assumes "queue_ok vs qid q" "\<And>e. qe_handle (f e) = qe_handle e" "\<And>e. e \<in> set q \<Longrightarrow> entry_ok vs e \<Longrightarrow> entry_ok vs (f e)"
  shows "queue_ok vs qid (map f q)"
  using assms by (auto simp: queue_ok_def list_all_iff comp_def)

lemma entry_ok_filter:
  "entry_ok vs e \<Longrightarrow> entry_ok vs (e\<lparr>qe_clients := filter P (qe_clients e)\<rparr>)"
  by (auto simp: entry_ok_def client_ok_def list_all_iff intro: le_trans [OF length_filter_le])

lemma entry_ok_sent [simp]: "entry_ok vs (e\<lparr>qe_sent := b\<rparr>) = entry_ok vs e"
  by (auto simp: entry_ok_def client_ok_def list_all_iff)

lemma image_frame [simp]:
  "image_wf (i\<lparr>problem := p\<rparr>) = image_wf i" "image_wf (i\<lparr>users := n\<rparr>) = image_wf i"
  "image_wf (i\<lparr>uplinkref := r\<rparr>) = image_wf i" "cached (i\<lparr>problem := p\<rparr>) = cached i"
  "cached (i\<lparr>users := n\<rparr>) = cached i" "cached (i\<lparr>uplinkref := r\<rparr>) = cached i"
  by (cases "ref_cacheMap i"; simp add: image_wf_def cached_def image_blocks_def)+

lemma set_problem_simps [simp]:
  "virtualFilesize (set_problem_queue b i) = virtualFilesize i" "virtualFilesize (set_problem_uplink b i) = virtualFilesize i"
  "virtualFilesize (set_problem_write b i) = virtualFilesize i"
  "ref_cacheMap (set_problem_queue b i) = ref_cacheMap i" "ref_cacheMap (set_problem_uplink b i) = ref_cacheMap i"
  "ref_cacheMap (set_problem_write b i) = ref_cacheMap i"
  "image_wf (set_problem_queue b i) = image_wf i" "image_wf (set_problem_uplink b i) = image_wf i"
  "image_wf (set_problem_write b i) = image_wf i"
  "cached (set_problem_queue b i) = cached i" "cached (set_problem_uplink b i) = cached i"
  "cached (set_problem_write b i) = cached i"
  "users (set_problem_queue b i) = users i" "uplinkref (set_problem_queue b i) = uplinkref i"
  by (simp_all add: set_problem_queue_def set_problem_uplink_def set_problem_write_def)

section \<open>Cancelling and marking\<close>

lemma inv_cancelAllRequests: "uplink_inv st \<Longrightarrow> uplink_inv (cancelAllRequests st)"
  by (simp add: uplink_inv_def cancelAllRequests_def queue_ok_def)

lemma inv_removeEntry: "uplink_inv st \<Longrightarrow> uplink_inv (uplink_removeEntry d c st)"
  by (auto simp: uplink_inv_def uplink_removeEntry_def Let_def intro!: queue_ok_map entry_ok_filter)

lemma inv_markRequestUnsent:
  assumes "uplink_inv st"
  shows "uplink_inv (markRequestUnsent h st)"
proof (cases "queue_find (\<lambda>e. qe_handle e = h) (queue (ul st))")
  case None
  then show ?thesis using assms by (simp add: markRequestUnsent_def)
next
  case (Some i)
  note i = queue_find_Some [OF Some]
  have "entry_ok (virtualFilesize (img st)) (queue (ul st) ! i)"
    using assms i by (auto simp: uplink_inv_def queue_ok_def list_all_length)
  then show ?thesis
    using assms i Some by (auto simp: markRequestUnsent_def uplink_inv_def intro: queue_ok_update)
qed

lemma inv_shutdown: "uplink_inv st \<Longrightarrow> uplink_shutdown st = (r, st') \<Longrightarrow> uplink_inv st'"
  by (auto simp: uplink_shutdown_def Let_def uplink_inv_def cancelAllRequests_def queue_ok_def split: if_splits)

section \<open>Extending a request\<close>

lemma unat_less_32: "unat (x :: u32) < 2 ^ 32"
  using unsigned_less [of x] by simp

lemma unat_ucast_64 [simp]: "unat (ucast (x :: u32) :: u64) = unat x"
  using unat_less_32 [of x] by (simp add: unsigned_ucast_eq take_bit_nat_eq_self)

text \<open>
  An extension never shrinks the request, stays inside the image and ends on a block border; in hash-block mode it
  stays out of the next hash block.
\<close>

lemma extendRequest_bounds:
  fixes start "end" :: u64 and cfg :: config and wanted :: u32
  assumes wf: "image_wf i" and le: "start \<le> end" "end \<le> virtualFilesize i" and short: "unat end - unat start < 2 ^ 32"
  defines "e' \<equiv> extendRequest cfg start end i wanted"
  shows "end \<le> e'" "e' \<le> virtualFilesize i" "e' = end \<or> 4096 dvd unat e'"
    "unat e' \<le> max (unat end) (unat start + unat wanted + 4095)"
proof -
  note sz = image_wf_size [OF wf]
  have nat: "unat start \<le> unat end" "unat end \<le> unat (virtualFilesize i)" using le by (simp_all add: word_le_nat_alt)
  define far where "far = start + (ucast wanted :: u64)"
  have far: "unat far = unat start + unat wanted"
    using nat sz(2) unat_less_32 [of wanted] unfolding far_def by (subst unat_add_no_wrap) simp_all
  have len: "unat (ucast (end - start) :: u32) = unat end - unat start"
    using short le(1) by (simp add: unsigned_ucast_eq take_bit_nat_eq_self unat_sub word_le_nat_alt)
  define e1 where "e1 = (if backgroundReplication cfg = BGR_HASHBLOCK \<and> end div HASH_BLOCK_SIZE \<noteq> far div HASH_BLOCK_SIZE
    then hash_floor far else far)"
  define e2 where "e2 = (if e1 > virtualFilesize i then virtualFilesize i else e1)"
  have e': "e' = (if unat wanted \<le> unat end - unat start then end else block_ceil e2)"
    unfolding e'_def extendRequest_def Let_def far_def [symmetric] e1_def [symmetric] e2_def [symmetric]
    by (simp add: word_le_nat_alt len)
  have ext: "unat end \<le> unat e2 \<and> unat e2 \<le> unat (virtualFilesize i) \<and> unat e2 \<le> unat far"
    if "\<not> unat wanted \<le> unat end - unat start"
  proof -
    have "unat end < unat far" using that far by simp
    moreover have "unat end \<le> unat (hash_floor far)" if "end div HASH_BLOCK_SIZE \<noteq> far div HASH_BLOCK_SIZE"
    proof -
      have "unat end div 16777216 \<noteq> unat far div 16777216"
        using that by (auto simp: HASH_BLOCK_SIZE_def word_unat_eq_iff unat_div)
      then show ?thesis using \<open>unat end < unat far\<close> unfolding unat_hash_floor by linarith
    qed
    moreover have "unat (hash_floor far) \<le> unat far" by (simp add: unat_hash_floor)
    ultimately have "unat end \<le> unat e1 \<and> unat e1 \<le> unat far" by (auto simp: e1_def)
    then show ?thesis using nat by (auto simp: e2_def word_less_nat_alt)
  qed
  have ceil: "unat (block_ceil e2) = (unat e2 + 4095) div 4096 * 4096" if "\<not> unat wanted \<le> unat end - unat start"
    using ext [OF that] sz by (intro unat_block_ceil) simp
  have "unat end \<le> unat e' \<and> unat e' \<le> unat (virtualFilesize i) \<and> (e' = end \<or> 4096 dvd unat e')
      \<and> unat e' \<le> max (unat end) (unat far + 4095)"
  proof (cases "unat wanted \<le> unat end - unat start")
    case False
    show ?thesis using e' ext [OF False] ceil [OF False] sz(1) False by auto
  qed (use e' nat in simp)
  then show "end \<le> e'" "e' \<le> virtualFilesize i" "e' = end \<or> 4096 dvd unat e'"
    "unat e' \<le> max (unat end) (unat start + unat wanted + 4095)"
    by (simp_all add: word_le_nat_alt far)
qed

section \<open>Requesting\<close>

text \<open>
  What the callers guarantee: the range asked for lies in the image, its length leaves room for rounding in 32 bits,
  and there are handles left.
\<close>

definition request_pre :: "uplink_state \<Rightarrow> u64 \<Rightarrow> u32 \<Rightarrow> bool" where
  "request_pre st start len \<longleftrightarrow> unat start + unat len \<le> unat (virtualFilesize (img st))
     \<and> unat len + 4096 \<le> 2 ^ 32 \<and> unat (queueId (ul st)) + 2 < 2 ^ 64"

lemma request_range:
  assumes wf: "image_wf i" and le: "unat start + unat len \<le> unat (virtualFilesize i)"
  defines "end \<equiv> start + (ucast (len :: u32) :: u64)"
  shows "unat end = unat start + unat len" "start \<le> end" "end \<le> virtualFilesize i"
    "block_floor start \<le> start" "4096 dvd unat (block_floor start)"
proof -
  have "unat (ucast len :: u64) = unat len" by simp
  then show e: "unat end = unat start + unat len"
    using le image_wf_size(2) [OF wf] unfolding end_def by (subst unat_add_no_wrap) simp_all
  show "start \<le> end" "end \<le> virtualFilesize i" using e le by (simp_all add: word_le_nat_alt)
  show "block_floor start \<le> start" "4096 dvd unat (block_floor start)"
    by (simp_all add: word_le_nat_alt unat_block_floor)
qed

lemma block_ceil_in_image:
  assumes "image_wf i" "x \<le> virtualFilesize i"
  shows "x \<le> block_ceil x" "block_ceil x \<le> virtualFilesize i" "4096 dvd unat (block_ceil x)"
proof -
  have "unat x \<le> unat (virtualFilesize i)" using assms(2) by (simp add: word_le_nat_alt)
  moreover have c: "unat (block_ceil x) = (unat x + 4095) div 4096 * 4096"
    using calculation image_wf_size(2) [OF assms(1)] by (intro unat_block_ceil) simp
  ultimately show "x \<le> block_ceil x" "block_ceil x \<le> virtualFilesize i"
    using image_wf_size(1) [OF assms(1)] by (auto simp: word_le_nat_alt)
  show "4096 dvd unat (block_ceil x)" using c by simp
qed

lemma inv_request_attach:
  assumes inv: "uplink_inv st" and at: "request_attach client start end rstart rend h st = Some (st1, i, isNew)"
    and r: "rstart \<le> start" "start \<le> end" "end \<le> rend" "rend \<le> virtualFilesize (img st)"
    and al: "4096 dvd unat rstart" "4096 dvd unat rend" and qid: "unat (queueId (ul st)) + 2 < 2 ^ 64"
  shows "uplink_inv st1" "i < length (queue (ul st1))" "virtualFilesize (img st1) = virtualFilesize (img st)"
    "qe_from (queue (ul st1) ! i) \<le> start" "end \<le> qe_to (queue (ul st1) ! i)"
    "client \<noteq> None \<longrightarrow> length (qe_clients (queue (ul st1) ! i)) < UPLINK_MAX_CLIENTS_PER_REQUEST"
    "unat (queueId (ul st1)) + 1 < 2 ^ 64"
proof -
  let ?find = "queue_find (\<lambda>e. qe_from e \<le> start \<and> end \<le> qe_to e) (queue (ul st))"
  have "uplink_inv st1 \<and> i < length (queue (ul st1)) \<and> virtualFilesize (img st1) = virtualFilesize (img st)
      \<and> qe_from (queue (ul st1) ! i) \<le> start \<and> end \<le> qe_to (queue (ul st1) ! i)
      \<and> (client \<noteq> None \<longrightarrow> length (qe_clients (queue (ul st1) ! i)) < UPLINK_MAX_CLIENTS_PER_REQUEST)
      \<and> unat (queueId (ul st1)) + 1 < 2 ^ 64"
  proof (cases ?find)
    case None
    define e where "e = \<lparr>qe_handle = queueId (ul st) + 1, qe_from = rstart, qe_to = rend, qe_clients = [],
      qe_hopCount = h, qe_sent = True\<rparr>"
    have "entry_ok (virtualFilesize (img st)) e"
      using r al by (auto simp: entry_ok_def e_def)
    then have "queue_ok (virtualFilesize (img st)) (queueId (ul st) + 1) (queue (ul st) @ [e] @ [])"
      using inv qid by (intro queue_ok_insert) (auto simp: uplink_inv_def e_def)
    moreover have "unat (queueId (ul st) + 1) + 1 < 2 ^ 64"
      using qid by (subst unat_add_no_wrap) simp_all
    ultimately show ?thesis
      using at None inv r
      by (auto simp: request_attach_def Let_def e_def uplink_inv_def server_constants split: if_splits)
  next
    case (Some j)
    note j = queue_find_Some [OF Some]
    then show ?thesis
      using at Some inv qid by (auto simp: request_attach_def Let_def split: if_splits)
  qed
  then show "uplink_inv st1" "i < length (queue (ul st1))" "virtualFilesize (img st1) = virtualFilesize (img st)"
    "qe_from (queue (ul st1) ! i) \<le> start" "end \<le> qe_to (queue (ul st1) ! i)"
    "client \<noteq> None \<longrightarrow> length (qe_clients (queue (ul st1) ! i)) < UPLINK_MAX_CLIENTS_PER_REQUEST"
    "unat (queueId (ul st1)) + 1 < 2 ^ 64"
    by simp_all
qed

lemma request_prefetch_cases:
  obtains "request_prefetch cfg client end len h i isNew st = (st, None)"
  | preEnd pre where "preEnd = extendRequest cfg end end (img st) (min (len * 3) (maxPrefetch cfg))"
    "end < preEnd" "end = qe_to (queue (ul st) ! i)" "client \<noteq> None"
    "pre = \<lparr>qe_handle = queueId (ul st) + 1, qe_from = end, qe_to = preEnd, qe_clients = [],
       qe_hopCount = h OR HOP_FLAG_PREFETCH, qe_sent = True\<rparr>"
    "request_prefetch cfg client end len h i isNew st =
       (st\<lparr>ul := (ul st)\<lparr>queueLen := queueLen (ul st) + 1,
          queue := take (i + 1) (queue (ul st)) @ [pre] @ drop (i + 1) (queue (ul st)),
          queueId := queueId (ul st) + 1\<rparr>\<rparr>,
        Some \<lparr>req_start = end, req_end = preEnd, req_handle = queueId (ul st) + 1\<rparr>)"
proof (cases "\<exists>c. client = Some c \<and> (isNew \<or> qe_clients (queue (ul st) ! i) = []
      \<or> qc_data (hd (qe_clients (queue (ul st) ! i))) = r_data c) \<and> h AND (HOP_FLAG_BGR OR HOP_FLAG_PREFETCH) = 0
      \<and> end = qe_to (queue (ul st) ! i) \<and> len \<le> maxPrefetch cfg
      \<and> end < extendRequest cfg end end (img st) (min (len * 3) (maxPrefetch cfg))")
  case True
  then show ?thesis
    by (intro that(2) [OF refl _ _ _ refl]) (auto simp: request_prefetch_def Let_def)
next
  case False
  then show ?thesis by (intro that(1)) (auto simp: request_prefetch_def Let_def split: option.splits)
qed

lemma inv_request_prefetch:
  assumes inv: "uplink_inv st" and i: "i < length (queue (ul st))" and "end \<le> virtualFilesize (img st)"
    and pre: "request_prefetch cfg client end len h i isNew st = (st1, p)" and qid: "unat (queueId (ul st)) + 1 < 2 ^ 64"
  shows "uplink_inv st1" "i < length (queue (ul st1))" "queue (ul st1) ! i = queue (ul st) ! i" "img st1 = img st"
proof -
  have wf: "image_wf (img st)" using inv by (simp add: uplink_inv_def)
  have "uplink_inv st1 \<and> i < length (queue (ul st1)) \<and> queue (ul st1) ! i = queue (ul st) ! i \<and> img st1 = img st"
  proof (cases rule: request_prefetch_cases [of cfg client "end" len h i isNew st])
    case 1
    then show ?thesis using pre inv i by simp
  next
    case (2 preEnd e)
    have "4096 dvd unat end"
      using inv i 2(3) by (auto simp: uplink_inv_def queue_ok_def list_all_length entry_ok_def)
    moreover have "preEnd \<le> virtualFilesize (img st)" "preEnd = end \<or> 4096 dvd unat preEnd"
      using extendRequest_bounds [OF wf order_refl assms(3)] by (auto simp: 2(1))
    ultimately have "entry_ok (virtualFilesize (img st)) e"
      using 2(2) by (auto simp: entry_ok_def 2(5))
    then have "queue_ok (virtualFilesize (img st)) (queueId (ul st) + 1)
        (take (i + 1) (queue (ul st)) @ [e] @ drop (i + 1) (queue (ul st)))"
      using inv qid by (intro queue_ok_insert) (auto simp: uplink_inv_def 2(5))
    then show ?thesis using pre inv i 2(6) by (auto simp: uplink_inv_def nth_append)
  qed
  then show "uplink_inv st1" "i < length (queue (ul st1))" "queue (ul st1) ! i = queue (ul st) ! i" "img st1 = img st"
    by simp_all
qed

lemma inv_request_addClient:
  assumes inv: "uplink_inv st" and i: "i < length (queue (ul st))"
    and r: "qe_from (queue (ul st) ! i) \<le> start" "start \<le> end" "end \<le> qe_to (queue (ul st) ! i)"
    and short: "unat end - unat start < 2 ^ 32"
    and room: "client \<noteq> None \<longrightarrow> length (qe_clients (queue (ul st) ! i)) < UPLINK_MAX_CLIENTS_PER_REQUEST"
  shows "uplink_inv (request_addClient client start end i st)"
proof (cases client)
  case None
  then show ?thesis using inv by (simp add: request_addClient_def)
next
  case (Some c)
  let ?e = "queue (ul st) ! i"
  let ?qc = "\<lparr>qc_data = r_data c, qc_handle = r_handle c, qc_from = start, qc_to = end, qc_callback = r_callback c\<rparr>"
  have "entry_ok (virtualFilesize (img st)) ?e"
    using inv i by (auto simp: uplink_inv_def queue_ok_def list_all_length)
  then have "entry_ok (virtualFilesize (img st)) (?e\<lparr>qe_clients := qe_clients ?e @ [?qc]\<rparr>)"
    using r short room Some by (auto simp: entry_ok_def client_ok_def list_all_iff)
  then show ?thesis
    using inv i Some by (auto simp: request_addClient_def Let_def uplink_inv_def intro!: queue_ok_update)
qed

lemma inv_requestBlock: "requestBlock req h ok st = (r, st') \<Longrightarrow> ul st' = ul st \<and> img st' = img st \<and> disk st' = disk st \<and> calls st' = calls st"
  by (auto simp: requestBlock_def split: if_splits)

lemma inv_frame:
  "uplink_inv st \<Longrightarrow> ul st' = ul st \<Longrightarrow> image_wf (img st') = image_wf (img st) \<Longrightarrow>
     virtualFilesize (img st') = virtualFilesize (img st) \<Longrightarrow> uplink_inv st'"
  by (simp add: uplink_inv_def)

text \<open>What \<^verbatim>\<open>markRequestUnsent\<close> and sending leave alone.\<close>

lemma markRequestUnsent_frame [simp]:
  "img (markRequestUnsent h st) = img st" "disk (markRequestUnsent h st) = disk st" "calls (markRequestUnsent h st) = calls st"
  "queueId (ul (markRequestUnsent h st)) = queueId (ul st)"
  "map qe_clients (queue (ul (markRequestUnsent h st))) = map qe_clients (queue (ul st))"
  "map entry_key (queue (ul (markRequestUnsent h st))) = map entry_key (queue (ul st))"
  by (auto simp: markRequestUnsent_def map_update list_update_same_conv entry_key_def dest: queue_find_Some split: option.splits)

lemma request_send_frame:
  assumes "uplink_inv st"
  shows "uplink_inv (request_send isNew req pre h ok1 ok2 st)"
    "disk (request_send isNew req pre h ok1 ok2 st) = disk st" "calls (request_send isNew req pre h ok1 ok2 st) = calls st"
    "queueId (ul (request_send isNew req pre h ok1 ok2 st)) = queueId (ul st)"
    "map qe_clients (queue (ul (request_send isNew req pre h ok1 ok2 st))) = map qe_clients (queue (ul st))"
    "\<exists>p. img (request_send isNew req pre h ok1 ok2 st) = (img st)\<lparr>problem := p\<rparr>"
    "map entry_key (queue (ul (request_send isNew req pre h ok1 ok2 st))) = map entry_key (queue (ul st))"
proof -
  define r1 where "r1 = (if isNew then requestBlock req h ok1 st else (True, st))"
  define r2 where "r2 = (case pre of None \<Rightarrow> (True, snd r1) | Some p \<Rightarrow> requestBlock p (h OR HOP_FLAG_PREFETCH) ok2 (snd r1))"
  have f1: "ul (snd r1) = ul st" "img (snd r1) = img st" "disk (snd r1) = disk st" "calls (snd r1) = calls st"
    by (auto simp: r1_def requestBlock_def)
  have f2: "ul (snd r2) = ul st" "img (snd r2) = img st" "disk (snd r2) = disk st" "calls (snd r2) = calls st"
    using f1 by (auto simp: r2_def requestBlock_def split: option.splits)
  define st3 where "st3 = (if \<not> fst r1 \<or> \<not> fst r2 then (snd r2)\<lparr>img := set_problem_uplink True (img (snd r2))\<rparr> else snd r2)"
  have f3: "ul st3 = ul st" "disk st3 = disk st" "calls st3 = calls st" "\<exists>p. img st3 = (img st)\<lparr>problem := p\<rparr>"
    using f2 by (auto simp: st3_def set_problem_uplink_def intro: exI [of _ "problem (img st)"])
  have inv3: "uplink_inv st3" using assms f3 by (auto simp: uplink_inv_def)
  have "request_send isNew req pre h ok1 ok2 st =
      (let st4 = (if \<not> fst r1 then markRequestUnsent (req_handle req) st3 else st3)
       in case pre of None \<Rightarrow> st4 | Some p \<Rightarrow> if \<not> fst r2 then markRequestUnsent (req_handle p) st4 else st4)"
    unfolding request_send_def Let_def case_prod_unfold
    unfolding r1_def [symmetric] unfolding r2_def [symmetric] unfolding st3_def [symmetric] by (rule refl)
  then show "uplink_inv (request_send isNew req pre h ok1 ok2 st)"
    "disk (request_send isNew req pre h ok1 ok2 st) = disk st" "calls (request_send isNew req pre h ok1 ok2 st) = calls st"
    "queueId (ul (request_send isNew req pre h ok1 ok2 st)) = queueId (ul st)"
    "map qe_clients (queue (ul (request_send isNew req pre h ok1 ok2 st))) = map qe_clients (queue (ul st))"
    "\<exists>p. img (request_send isNew req pre h ok1 ok2 st) = (img st)\<lparr>problem := p\<rparr>"
    "map entry_key (queue (ul (request_send isNew req pre h ok1 ok2 st))) = map entry_key (queue (ul st))"
    using inv3 f3 by (auto simp: Let_def intro!: inv_markRequestUnsent split: option.splits)
qed

text \<open>The shape of a successful enqueue, with what later steps need to know of it.\<close>

lemma request_enqueue_steps:
  assumes inv: "uplink_inv st" and pre: "request_pre st start len"
    and enq: "request_enqueue cfg client start len h st = Some (st', isNew, req, p)"
  obtains st1 st2 i where
    "request_attach client start (start + ucast len) (block_floor start) (req_end req) h st = Some (st1, i, isNew)"
    "request_prefetch cfg client (start + ucast len) len h i isNew st1 = (st2, p)"
    "st' = request_addClient client start (start + ucast len) i st2"
    "uplink_inv st1" "uplink_inv st2" "uplink_inv st'" "i < length (queue (ul st1))"
    "queue (ul st2) ! i = queue (ul st1) ! i" "i < length (queue (ul st2))"
proof -
  define e where "e = start + (ucast len :: u64)"
  define x where "x = (if client \<noteq> None \<and> minRequestSize cfg \<noteq> 0
    then extendRequest cfg (block_floor start) e (img st) (minRequestSize cfg) else e)"
  have wf: "image_wf (img st)" using inv by (simp add: uplink_inv_def)
  have le: "unat start + unat len \<le> unat (virtualFilesize (img st))" and qid: "unat (queueId (ul st)) + 2 < 2 ^ 64"
    and len: "unat len + 4096 \<le> 2 ^ 32"
    using pre by (simp_all add: request_pre_def)
  note r = request_range [OF wf le, folded e_def]
  have "unat start \<le> unat (block_floor start) + 4095" by (simp add: unat_block_floor)
  then have short: "unat e - unat (block_floor start) < 2 ^ 32" "unat e - unat start < 2 ^ 32" using r(1) len by simp_all
  have "block_floor start \<le> e" using r by simp
  then have "e \<le> x" "x \<le> virtualFilesize (img st)"
    using extendRequest_bounds(1,2) [OF wf _ r(3) short(1)] r(3) by (auto simp: x_def)
  with block_ceil_in_image [OF wf, of x] have ext: "e \<le> block_ceil x" "block_ceil x \<le> virtualFilesize (img st)" "4096 dvd unat (block_ceil x)"
    by auto
  from enq [unfolded request_enqueue_def Let_def, folded e_def, folded x_def] obtain st1 i st2 where at: "request_attach client start e (block_floor start) (block_ceil x) h st = Some (st1, i, isNew)"
    and pf: "request_prefetch cfg client e len h i isNew st1 = (st2, p)"
    and st': "st' = request_addClient client start e i st2" and re: "req_end req = block_ceil x"
    by (auto split: option.splits prod.splits)
  note a = inv_request_attach [OF inv at r(4) r(2) ext(1,2) r(5) ext(3) qid]
  have "e \<le> virtualFilesize (img st1)" using a(3) r(3) by simp
  note b = inv_request_prefetch [OF a(1,2) this pf a(7)]
  have "uplink_inv st'" unfolding st' by (rule inv_request_addClient) (use a b r short in auto)
  then show thesis using that at pf st' re a b by (simp add: e_def)
qed

lemma inv_request_enqueue:
  assumes "uplink_inv st" "request_pre st start len" "request_enqueue cfg client start len h st = Some (st', isNew, req, p)"
  shows "uplink_inv st'"
  using assms by (rule request_enqueue_steps)

lemma inv_requestInternal:
  assumes "uplink_inv st" "request_pre st start len" "uplink_requestInternal cfg client start len h ok1 ok2 st = (r, st')"
  shows "uplink_inv st'"
  using assms inv_request_enqueue [OF assms(1,2)] request_send_frame(1)
  by (auto simp: uplink_requestInternal_def Let_def split: if_splits option.splits)

section \<open>Storing a payload\<close>

text \<open>What the write loop may change besides the cache file: the descriptor and the problem flags.\<close>

definition store_frame :: "uplink_state \<Rightarrow> uplink_state \<Rightarrow> bool" where
  "store_frame st st' \<longleftrightarrow> (\<exists>fd p d. st' = st\<lparr>ul := (ul st)\<lparr>cacheFd := fd\<rparr>, img := (img st)\<lparr>problem := p\<rparr>, disk := d\<rparr>)"

lemma store_frame_refl [simp]: "store_frame st st"
  unfolding store_frame_def
  by (intro exI [of _ "cacheFd (ul st)"] exI [of _ "problem (img st)"] exI [of _ "disk st"]) simp

lemma store_frame_trans: "store_frame a b \<Longrightarrow> store_frame b c \<Longrightarrow> store_frame a c"
  unfolding store_frame_def by (elim exE) (simp, blast)

lemma store_frame_step [simp]:
  "store_frame st (st\<lparr>disk := d\<rparr>)" "store_frame st (st\<lparr>img := set_problem_write b (img st)\<rparr>)"
  "store_frame st (snd (reopenCacheFd f fd st))"
proof -
  show "store_frame st (st\<lparr>disk := d\<rparr>)" unfolding store_frame_def
    by (intro exI [of _ "cacheFd (ul st)"] exI [of _ "problem (img st)"] exI [of _ d]) simp
  show "store_frame st (st\<lparr>img := set_problem_write b (img st)\<rparr>)" unfolding store_frame_def
    by (intro exI [of _ "cacheFd (ul st)"] exI [of _ "(problem (img st))\<lparr>p_write := b\<rparr>"] exI [of _ "disk st"])
      (simp add: set_problem_write_def)
  show "store_frame st (snd (reopenCacheFd f fd st))"
  proof (cases "cacheFd (ul st) \<noteq> -1 \<and> \<not> f")
    case True
    then show ?thesis by (simp add: reopenCacheFd_def)
  next
    case False
    then show ?thesis unfolding store_frame_def
      by (intro exI [of _ fd] exI [of _ "(problem (img st))\<lparr>p_write := (fd = -1)\<rparr>"] exI [of _ "disk st"])
        (auto simp: reopenCacheFd_def set_problem_write_def)
  qed
qed

lemma write_bytes_append:
  "write_bytes (pos + length xs) ys (write_bytes pos xs d) = write_bytes pos (xs @ ys) d"
  by (rule ext) (auto simp: write_bytes_def nth_append)

lemma write_bytes_Nil [simp]: "write_bytes pos [] d = d"
  by (rule ext) (auto simp: write_bytes_def)

lemma reopenCacheFd_disk [simp]: "disk (snd (reopenCacheFd f fd st)) = disk st"
  by (simp add: reopenCacheFd_def)

lemma write_loop_sound:
  assumes "write_loop gs payload start done tryAgain script st = Some (n, st')" "done \<le> length payload"
    and "disk st = write_bytes start (take done payload) d"
  shows "store_frame st st'" "done \<le> n" "n \<le> length payload" "disk st' = write_bytes start (take n payload) d"
proof -
  have "store_frame st st' \<and> done \<le> n \<and> n \<le> length payload \<and> disk st' = write_bytes start (take n payload) d"
    using assms
  proof (induction script arbitrary: "done" tryAgain st)
    case (Cons r rs)
    show ?case
    proof (cases "\<not> done < length payload")
      case False
      show ?thesis
      proof (cases r)
        case (PW_ret k)
        show ?thesis
        proof (cases "k \<le> 0 \<or> nat k > length payload - done")
          case bad: False
          let ?st = "st\<lparr>disk := write_bytes (start + done) (take (nat k) (drop done payload)) (disk st)\<rparr>"
          have "take (done + nat k) payload = take done payload @ take (nat k) (drop done payload)"
            by (simp add: take_add)
          then have "disk ?st = write_bytes start (take (done + nat k) payload) d"
            using Cons.prems(2,3) write_bytes_append [of start "take done payload"] by simp
          moreover have "done + nat k \<le> length payload" using bad False by linarith
          moreover have "write_loop gs payload start (done + nat k) tryAgain rs ?st = Some (n, st')"
            using Cons.prems(1) PW_ret False bad by simp
          ultimately have "store_frame ?st st' \<and> done + nat k \<le> n \<and> n \<le> length payload
              \<and> disk st' = write_bytes start (take n payload) d"
            by (intro Cons.IH)
          then show ?thesis using store_frame_trans [OF store_frame_step(1)] by auto
        qed (use Cons.prems PW_ret False in auto)
      next
        case (PW_badfd fd)
        let ?st1 = "st\<lparr>img := set_problem_write True (img st)\<rparr>"
        let ?st2 = "snd (reopenCacheFd True fd ?st1)"
        have f: "store_frame st ?st2" "disk ?st2 = disk st"
          using store_frame_trans [OF store_frame_step(2) store_frame_step(3)] by simp_all
        show ?thesis
          using Cons.IH [of "done" False ?st2] Cons.prems PW_badfd False f
          by (auto simp: Let_def case_prod_unfold split: if_splits intro: store_frame_trans)
      qed (use Cons False in \<open>auto split: if_splits\<close>)
    qed (use Cons.prems in auto)
  qed (auto split: if_splits)
  then show "store_frame st st'" "done \<le> n" "n \<le> length payload" "disk st' = write_bytes start (take n payload) d"
    by simp_all
qed

lemma store_frame_inv: "store_frame st st' \<Longrightarrow> uplink_inv st \<Longrightarrow> uplink_inv st'"
  by (auto simp: store_frame_def uplink_inv_def)

lemma receive_store_cases:
  assumes "receive_store gs fd script start payload st = Some st'"
  obtains st1 n blocks where "store_frame st st1" "n \<le> length payload"
      "disk st1 = write_bytes (unat start) (take n payload) (disk st)"
      "image_updateCachemap (img st1) start (start + word_of_nat n) True = Some (img st', blocks)"
      "st' = st1\<lparr>img := img st', checks := checks st1 @ blocks\<rparr>"
    | "store_frame st st'" "disk st' = disk st"
proof -
  define st0 where "st0 = (if cacheFd (ul st) = -1 then snd (reopenCacheFd False fd st) else st)"
  have f0: "store_frame st st0" "disk st0 = disk st" by (auto simp: st0_def)
  note def = assms [unfolded receive_store_def Let_def, folded st0_def]
  show thesis
  proof (cases "cacheFd (ul st0) = -1")
    case True
    then show thesis using def f0 that(2) by simp
  next
    case False
    then obtain n st1 where w: "write_loop gs payload (unat start) 0 True script st0 = Some (n, st1)"
      using def by (auto split: option.splits)
    have s: "store_frame st0 st1" "n \<le> length payload" "disk st1 = write_bytes (unat start) (take n payload) (disk st)"
      using write_loop_sound [OF w, of "disk st"] f0(2) by simp_all
    note fr = store_frame_trans [OF f0(1) s(1)]
    show thesis
    proof (cases "n > 0")
      case True
      then show thesis
        using def False w that(1) [OF fr s(2,3)] by (auto split: option.splits)
    next
      case zero: False
      then show thesis using def False w s fr that(2) by auto
    qed
  qed
qed

lemma inv_receive_store:
  assumes inv: "uplink_inv st" and st: "receive_store gs fd script start payload st = Some st'"
  shows "uplink_inv st'" "virtualFilesize (img st') = virtualFilesize (img st)"
    "queue (ul st') = queue (ul st)" "calls st' = calls st" "queueId (ul st') = queueId (ul st)"
    "recvBuffer (ul st') = recvBuffer (ul st)"
proof -
  have "uplink_inv st' \<and> virtualFilesize (img st') = virtualFilesize (img st) \<and> queue (ul st') = queue (ul st)
     \<and> calls st' = calls st \<and> queueId (ul st') = queueId (ul st) \<and> recvBuffer (ul st') = recvBuffer (ul st)"
  proof (cases rule: receive_store_cases [OF st])
    case (1 st1 n blocks)
    have inv1: "uplink_inv st1" using store_frame_inv [OF 1(1) inv] .
    then have "image_wf (img st')" using update_mark(1) [OF _ 1(4)] by (simp add: uplink_inv_def)
    moreover have "virtualFilesize (img st') = virtualFilesize (img st1)"
      using img.mark_law [of "img st1" start "start + word_of_nat n" "img st'"] inv1 1(4)
      by (simp add: uplink_inv_def mark_range_def word_unat_eq_iff)
    ultimately show ?thesis
      using inv1 1(1) by (subst (1 3 4 5 6) 1(5)) (auto simp: uplink_inv_def store_frame_def)
  next
    case 2
    then show ?thesis using store_frame_inv [OF 2(1) inv] by (auto simp: store_frame_def)
  qed
  then show "uplink_inv st'" "virtualFilesize (img st') = virtualFilesize (img st)"
    "queue (ul st') = queue (ul st)" "calls st' = calls st" "queueId (ul st') = queueId (ul st)"
    "recvBuffer (ul st') = recvBuffer (ul st)"
    by simp_all
qed

section \<open>Answering\<close>

lemma inv_receive_finish:
  assumes inv: "uplink_inv st" and fin: "receive_finish handle start end st = Some st'"
  shows "uplink_inv st'"
  using assms
  by (auto simp: receive_finish_def Let_def uplink_inv_def dest: queue_find_Some
      split: option.splits if_splits intro!: queue_ok_remove)

text \<open>The assertion on the clients' ranges holds: the entry found again has the range it had.\<close>

lemma receive_finish_total:
  assumes inv: "uplink_inv st"
    and same: "\<forall>e \<in> set (queue (ul st)). qe_handle e = handle \<longrightarrow> qe_from e = start \<and> qe_to e = end"
  shows "receive_finish handle start end st \<noteq> None"
proof (cases "queue_find (\<lambda>e. qe_handle e = handle) (queue (ul st))")
  case None
  then show ?thesis by (simp add: receive_finish_def)
next
  case (Some i)
  note i = queue_find_Some [OF Some]
  have "entry_ok (virtualFilesize (img st)) (queue (ul st) ! i)"
    using inv i by (auto simp: uplink_inv_def queue_ok_def list_all_length)
  then have "list_all (\<lambda>c. qc_from c \<ge> start \<and> qc_to c \<le> end) (qe_clients (queue (ul st) ! i))"
    using same i by (auto simp: entry_ok_def client_ok_def list_all_iff)
  then show ?thesis using Some by (simp add: receive_finish_def Let_def)
qed

end
