(* ===== verification/UplinkSteps.thy ===== *)
theory UplinkSteps
  imports UplinkInv "HOL-Library.Multiset"
begin

text \<open>
  The uplink as a state machine. Client threads, the FUSE module and the uplink thread interleave at the granularity
  of the critical sections; a step is one of them. Beside the state the machine keeps the list of clients whose
  request was accepted, so that what becomes of each of them can be stated.
\<close>

definition accepted :: "requester option \<Rightarrow> u64 \<Rightarrow> u32 \<Rightarrow> dnbd3_queue_client_t list" where
  "accepted client start len =
     (case client of
        None \<Rightarrow> []
      | Some c \<Rightarrow> [\<lparr>qc_data = r_data c, qc_handle = r_handle c, qc_from = start, qc_to = start + ucast len,
                   qc_callback = r_callback c\<rparr>])"

text \<open>
  A step that leaves the clients, the cache file and the cached blocks alone: it may change the connection, counters,
  flags and buffers, mark requests as sent, and use up handles.
\<close>

definition unsent :: "dnbd3_queue_entry_t \<Rightarrow> dnbd3_queue_entry_t" where
  "unsent e = e\<lparr>qe_sent := False\<rparr>"

definition quiet :: "uplink_state \<Rightarrow> uplink_state \<Rightarrow> bool" where
  "quiet st st' \<longleftrightarrow> map unsent (queue (ul st')) = map unsent (queue (ul st)) \<and> queueLen (ul st') = queueLen (ul st)
     \<and> queueId (ul st) \<le> queueId (ul st') \<and> virtualFilesize (img st') = virtualFilesize (img st)
     \<and> (image_wf (img st) \<longrightarrow> image_wf (img st') \<and> cached (img st') = cached (img st))
     \<and> disk st' = disk st \<and> calls st' = calls st"

text \<open>\<open>ok start payload\<close> says which payloads the upstream server may deliver for a range that begins at \<open>start\<close>.\<close>

inductive ustep :: "config \<Rightarrow> (u64 \<Rightarrow> byte list \<Rightarrow> bool) \<Rightarrow> uplink_state \<times> dnbd3_queue_client_t list
    \<Rightarrow> uplink_state \<times> dnbd3_queue_client_t list \<Rightarrow> bool"
  for cfg ok where
  enqueue: "request_pre st start len \<Longrightarrow> request_enqueue cfg client start len h st = Some (st', isNew, req, pre) \<Longrightarrow>
      ustep cfg ok (st, acc) (st', acc @ accepted client start len)"
| send: "ustep cfg ok (st, acc) (request_send isNew req pre h ok1 ok2 st, acc)"
| store: "ok start payload \<Longrightarrow> receive_store gs fd script start payload st = Some st' \<Longrightarrow> ustep cfg ok (st, acc) (st', acc)"
| finish: "receive_finish handle start end st = Some st' \<Longrightarrow> ustep cfg ok (st, acc) (st', acc)"
| remove: "ustep cfg ok (st, acc) (uplink_removeEntry dat cback st, acc)"
| cancel: "ustep cfg ok (st, acc) (cancelAllRequests st, acc)"
| internal: "quiet st st' \<Longrightarrow> ustep cfg ok (st, acc) (st', acc)"
| stop: "uplink_shutdown st = (r, st') \<Longrightarrow> ustep cfg ok (st, acc) (st', acc)"

inductive_cases ustepE: "ustep cfg ok (st, acc) (st', acc')"

text \<open>Clients still waiting, and what identifies a client in the queue and in a callback.\<close>

definition pending :: "uplink_state \<Rightarrow> dnbd3_queue_client_t list" where
  "pending st = concat (map qe_clients (queue (ul st)))"

definition client_key :: "dnbd3_queue_client_t \<Rightarrow> uplink_callback \<times> nat \<times> u64" where
  "client_key c = (qc_callback c, qc_data c, qc_handle c)"

definition call_key :: "callback \<Rightarrow> uplink_callback \<times> nat \<times> u64" where
  "call_key cb = (cb_fn cb, cb_data cb, cb_handle cb)"

definition balanced :: "uplink_state \<times> dnbd3_queue_client_t list \<Rightarrow> bool" where
  "balanced s \<longleftrightarrow> mset (map client_key (snd s)) = mset (map call_key (calls (fst s))) + mset (map client_key (pending (fst s)))"

text \<open>An uplink with one request for the fifth block of the ten-block image, with one client attached to it.\<close>

definition sample_client :: dnbd3_queue_client_t where
  "sample_client = \<lparr>qc_data = 7, qc_handle = 99, qc_from = 16384, qc_to = 16896, qc_callback = NetCallback\<rparr>"

definition sample_entry :: dnbd3_queue_entry_t where
  "sample_entry = \<lparr>qe_handle = 1, qe_from = 16384, qe_to = 20480, qe_clients = [sample_client], qe_hopCount = 1, qe_sent = True\<rparr>"

definition sample_uplink :: uplink_state where
  "sample_uplink =
     \<lparr>ul = uplink_fresh\<lparr>current := \<lparr>conn_fd = 3, conn_version = 3, conn_index = 0\<rparr>, cacheFd := 4, queueLen := 1,
        queue := [sample_entry], queueId := 1\<rparr>,
      img = sample_image, disk = (\<lambda>_. 0), totalBytesReceived = 0, calls = [], sends = [], checks = []\<rparr>"

section \<open>The invariant along steps\<close>

lemma quiet_refl [simp]: "quiet st st"
  by (simp add: quiet_def)

lemma quiet_trans: "quiet a b \<Longrightarrow> quiet b c \<Longrightarrow> quiet a c"
  by (auto simp: quiet_def)

lemma unsent_fields [simp]:
  "qe_clients (unsent e) = qe_clients e" "qe_handle (unsent e) = qe_handle e" "entry_ok vs (unsent e) = entry_ok vs e"
  "entry_key (unsent e) = entry_key e"
  by (simp_all add: unsent_def entry_key_def)

lemma quiet_map:
  assumes "quiet st st'" "\<And>e. f (unsent e) = f e"
  shows "map f (queue (ul st')) = map f (queue (ul st))"
proof -
  have "map f (map unsent (queue (ul st'))) = map f (map unsent (queue (ul st)))"
    using assms(1) unfolding quiet_def by simp
  then show ?thesis by (simp add: comp_def assms(2))
qed

lemma quiet_queue:
  assumes "quiet st st'"
  shows "map qe_clients (queue (ul st')) = map qe_clients (queue (ul st))"
    "map qe_handle (queue (ul st')) = map qe_handle (queue (ul st))"
    "map entry_key (queue (ul st')) = map entry_key (queue (ul st))"
    "map (entry_ok vs) (queue (ul st')) = map (entry_ok vs) (queue (ul st))"
    "length (queue (ul st')) = length (queue (ul st))"
  using quiet_map [OF assms, of qe_handle, THEN map_eq_imp_length_eq] by (auto intro: quiet_map [OF assms])

lemma inv_quiet:
  assumes "uplink_inv st" "quiet st st'"
  shows "uplink_inv st'"
proof -
  note q = quiet_queue [OF assms(2)]
  have hs: "qe_handle ` set (queue (ul st')) = qe_handle ` set (queue (ul st))" by (metis q(2) set_map)
  have ok: "entry_ok vs ` set (queue (ul st')) = entry_ok vs ` set (queue (ul st))" for vs by (metis q(4) set_map)
  have "list_all (entry_ok vs) (queue (ul st')) = list_all (entry_ok vs) (queue (ul st))" for vs
    using arg_cong [OF ok [of vs], of "\<lambda>B. \<forall>b \<in> B. b"] by (simp add: list_all_iff)
  moreover have "\<forall>h \<in> qe_handle ` set (queue (ul st)). h \<le> queueId (ul st)"
    using assms(1) by (auto simp: uplink_inv_def queue_ok_def list_all_iff)
  then have "\<forall>h \<in> qe_handle ` set (queue (ul st')). h \<le> queueId (ul st')"
    using assms(2) unfolding hs quiet_def by (meson order_trans)
  ultimately show ?thesis
    using assms q by (simp add: uplink_inv_def queue_ok_def quiet_def list_all_iff)
qed

lemma inv_ustep: "ustep cfg ok s s' \<Longrightarrow> uplink_inv (fst s) \<Longrightarrow> uplink_inv (fst s')"
  by (induction rule: ustep.induct)
    (auto intro: inv_request_enqueue request_send_frame(1) inv_receive_store(1) inv_receive_finish inv_removeEntry
      inv_cancelAllRequests inv_shutdown inv_quiet)

lemma inv_usteps: "(ustep cfg ok)\<^sup>*\<^sup>* s s' \<Longrightarrow> uplink_inv (fst s) \<Longrightarrow> uplink_inv (fst s')"
  by (induction rule: rtranclp_induct) (auto intro: inv_ustep)

text \<open>A request is accepted and sent in at most two steps; a refused one changes nothing.\<close>

lemma requestInternal_usteps:
  assumes "uplink_requestInternal cfg client start len h ok1 ok2 st = (r, st')" "request_pre st start len"
  shows "(ustep cfg ok)\<^sup>*\<^sup>* (st, acc) (st', acc @ (if r then accepted client start len else []))"
proof (cases "request_enqueue cfg client start len (request_hops cfg client h) st")
  case None
  then show ?thesis using assms(1) by (auto simp: uplink_requestInternal_def split: if_splits)
next
  case (Some x)
  then obtain st1 isNew req pre where e: "request_enqueue cfg client start len (request_hops cfg client h) st = Some (st1, isNew, req, pre)"
    by (cases x) auto
  let ?acc = "acc @ accepted client start len"
  have "ustep cfg ok (st, acc) (st1, ?acc)" using assms(2) e by (rule ustep.enqueue)
  moreover have "ustep cfg ok (st1, ?acc) (request_send isNew req pre (request_hops cfg client h) ok1 ok2 st1, ?acc)"
    by (rule ustep.send)
  ultimately show ?thesis
    using assms(1) e by (auto simp: uplink_requestInternal_def Let_def split: if_splits)
qed

section \<open>Accounting for clients\<close>

lemma keys [simp]: "call_key (cancel_call c) = client_key c" "call_key (answer_call buf start c) = client_key c"
  "map call_key (map cancel_call cs) = map client_key cs"
  by (simp_all add: call_key_def client_key_def cancel_call_def answer_call_def)

lemma pending_update:
  assumes "i < length q" "qe_clients e = qe_clients (q ! i) @ cs"
  shows "mset (concat (map qe_clients (q[i := e]))) = mset (concat (map qe_clients q)) + mset cs"
proof -
  define a b where "a = take i q" and "b = drop (Suc i) q"
  have q: "q = a @ q ! i # b" unfolding a_def b_def using assms(1) by (rule id_take_nth_drop)
  have "q[i := e] = a @ e # b" unfolding a_def b_def using assms(1) by (rule upd_conv_take_nth_drop)
  then have "mset (concat (map qe_clients (q[i := e]))) = mset (concat (map qe_clients (a @ q ! i # b))) + mset cs"
    by (simp add: assms(2))
  then show ?thesis by (simp only: q [symmetric])
qed

lemma pending_split:
  "concat (map qe_clients (take k q)) @ concat (map qe_clients (drop k q)) = concat (map qe_clients q)"
  by (simp flip: concat_append map_append)

lemma pending_attach:
  assumes "request_attach client start end rstart rend h st = Some (st1, i, isNew)"
  shows "pending st1 = pending st" "calls st1 = calls st"
  using assms by (auto simp: request_attach_def Let_def pending_def split: option.splits if_splits)

lemma pending_prefetch:
  assumes "request_prefetch cfg client end len h i isNew st = (st1, p)"
  shows "pending st1 = pending st \<and> calls st1 = calls st"
proof (cases rule: request_prefetch_cases [of cfg client "end" len h i isNew st])
  case (2 preEnd pre)
  then have "pending st1 = concat (map qe_clients (take (i + 1) (queue (ul st)))) @ concat (map qe_clients (drop (i + 1) (queue (ul st))))"
    using assms by (auto simp: pending_def)
  then show ?thesis using 2(6) assms pending_split [of "i + 1"] by (auto simp: pending_def)
qed (use assms in simp)

lemma pending_addClient:
  assumes "i < length (queue (ul st))"
  shows "mset (pending (request_addClient client start (start + ucast len) i st)) = mset (pending st) + mset (accepted client start len)"
    "calls (request_addClient client start end i st) = calls st"
  using assms by (auto simp: request_addClient_def pending_def accepted_def Let_def pending_update split: option.splits)

lemma pending_enqueue:
  assumes "uplink_inv st" "request_pre st start len" "request_enqueue cfg client start len h st = Some (st', isNew, req, pre)"
  shows "mset (pending st') = mset (pending st) + mset (accepted client start len)" "calls st' = calls st"
proof -
  show "mset (pending st') = mset (pending st) + mset (accepted client start len)"
    using assms by (rule request_enqueue_steps) (simp add: pending_addClient pending_prefetch pending_attach)
  show "calls st' = calls st"
    using assms by (rule request_enqueue_steps) (simp add: pending_addClient pending_prefetch pending_attach)
qed

lemma pending_send:
  assumes "uplink_inv st"
  shows "pending (request_send isNew req pre h ok1 ok2 st) = pending st" "calls (request_send isNew req pre h ok1 ok2 st) = calls st"
  using request_send_frame(3,5) [OF assms] by (simp_all add: pending_def)

lemma pending_finish:
  assumes "receive_finish handle start end st = Some st'"
  obtains cs buf where "mset (pending st) = mset (pending st') + mset cs" "calls st' = calls st @ map (answer_call buf start) cs"
proof (cases "queue_find (\<lambda>e. qe_handle e = handle) (queue (ul st))")
  case None
  then have "pending st = pending st'" "calls st' = calls st"
    using assms by (auto simp: receive_finish_def Let_def pending_def)
  then show thesis using that [of "[]"] by simp
next
  case (Some i)
  define q where "q = queue (ul st)"
  have i: "i < length q" using queue_find_Some [OF Some] by (simp add: q_def)
  have "mset (concat (map qe_clients q)) = mset (concat (map qe_clients (take i q @ q ! i # drop (Suc i) q)))"
    by (simp only: id_take_nth_drop [OF i, symmetric])
  then have "mset (pending st) = mset (concat (map qe_clients (take i q @ drop (Suc i) q))) + mset (qe_clients (q ! i))"
    by (simp add: pending_def q_def)
  moreover have "pending st' = concat (map qe_clients (take i q @ drop (Suc i) q))"
    "calls st' = calls st @ map (answer_call (recvBuffer (ul st)) start) (qe_clients (q ! i))"
    using assms Some by (auto simp: receive_finish_def Let_def pending_def q_def split: if_splits)
  ultimately show thesis using that by metis
qed

lemma mset_filter_both: "mset (filter P xs) + mset (filter (\<lambda>x. \<not> P x) xs) = mset xs"
  by (induction xs) auto

lemma mset_filter_concat:
  "mset (concat (map (\<lambda>e. filter P (f e)) q)) + mset (concat (map (\<lambda>e. filter (\<lambda>x. \<not> P x) (f e)) q)) = mset (concat (map f q))"
proof (induction q)
  case (Cons a q)
  then show ?case using mset_filter_both [of P "f a"] by (simp add: ac_simps del: mset_filter)
qed simp

lemma pending_remove:
  obtains cs where "mset (pending st) = mset (pending (uplink_removeEntry d c st)) + mset cs"
    "calls (uplink_removeEntry d c st) = calls st @ map cancel_call cs"
proof -
  let ?mine = "\<lambda>x. qc_data x = d \<and> qc_callback x = c"
  have "calls (uplink_removeEntry d c st) = calls st @ map cancel_call (concat (map (\<lambda>e. filter ?mine (qe_clients e)) (queue (ul st))))"
    by (simp add: uplink_removeEntry_def Let_def map_concat comp_def)
  moreover have "pending (uplink_removeEntry d c st) = concat (map (\<lambda>e. filter (\<lambda>x. \<not> ?mine x) (qe_clients e)) (queue (ul st)))"
    by (simp add: uplink_removeEntry_def Let_def pending_def comp_def)
  moreover have "pending st = concat (map qe_clients (queue (ul st)))" by (simp add: pending_def)
  ultimately show thesis
    using mset_filter_concat [of ?mine qe_clients "queue (ul st)"]
    by (intro that [of "concat (map (\<lambda>e. filter ?mine (qe_clients e)) (queue (ul st)))"]) (simp_all only: add.commute)
qed

lemma calls_cancel:
  "pending (cancelAllRequests st) = []" "calls (cancelAllRequests st) = calls st @ map cancel_call (pending st)"
  by (simp_all add: cancelAllRequests_def pending_def map_concat comp_def)

lemma shutdown_cases:
  assumes "uplink_shutdown st = (r, st')"
  shows "st' = st \<or> (pending st' = [] \<and> calls st' = calls st @ map cancel_call (pending st))"
  using assms by (auto simp: uplink_shutdown_def Let_def cancelAllRequests_def pending_def map_concat comp_def split: if_splits)

lemma balanced_answer:
  assumes "balanced (st, acc)" "mset (pending st) = mset (pending st') + mset cs" "map call_key (calls st') = map call_key (calls st) @ map client_key cs"
  shows "balanced (st', acc)"
proof -
  have "mset (map client_key (pending st)) = mset (map client_key (pending st')) + mset (map client_key cs)"
    using assms(2) by (simp flip: image_mset_union)
  then show ?thesis using assms(1,3) by (simp add: balanced_def ac_simps)
qed

lemma balanced_ustep: "ustep cfg ok s s' \<Longrightarrow> uplink_inv (fst s) \<Longrightarrow> balanced s \<Longrightarrow> balanced s'"
proof (induction rule: ustep.induct)
  case (enqueue st start len client h st' isNew req pre acc)
  then have "mset (pending st') = mset (pending st) + mset (accepted client start len)" "calls st' = calls st"
    using pending_enqueue by auto
  then have "mset (map client_key (pending st')) = mset (map client_key (pending st)) + mset (map client_key (accepted client start len))"
    by (simp flip: image_mset_union)
  with enqueue(4) \<open>calls st' = calls st\<close> show ?case by (simp add: balanced_def ac_simps)
next
  case (send st acc isNew req pre h ok1 ok2)
  then show ?case using pending_send [of st] by (simp add: balanced_def)
next
  case (store start payload gs fd script st st' acc)
  then show ?case using inv_receive_store [of st] by (simp add: balanced_def pending_def)
next
  case (finish handle start "end" st st' acc)
  obtain cs buf where "mset (pending st) = mset (pending st') + mset cs" "calls st' = calls st @ map (answer_call buf start) cs"
    using pending_finish [OF finish(1)] .
  then show ?case using balanced_answer [OF finish(3)] by simp
next
  case (remove st acc dat cback)
  obtain cs where "mset (pending st) = mset (pending (uplink_removeEntry dat cback st)) + mset cs"
    "calls (uplink_removeEntry dat cback st) = calls st @ map cancel_call cs"
    using pending_remove [of st dat cback] .
  then show ?case using balanced_answer [OF remove(2)] by simp
next
  case (cancel st acc)
  then show ?case using balanced_answer [OF cancel(2), of "cancelAllRequests st" "pending st"] calls_cancel [of st] by simp
next
  case (internal st st' acc)
  then show ?case using quiet_queue(1) [OF internal(1)] by (simp add: balanced_def pending_def quiet_def)
next
  case (stop st r st' acc)
  then show ?case using shutdown_cases [OF stop(1)] balanced_answer [OF stop(3), of st' "pending st"] by auto
qed

lemma balanced_usteps:
  "(ustep cfg ok)\<^sup>*\<^sup>* s s' \<Longrightarrow> uplink_inv (fst s) \<Longrightarrow> balanced s \<Longrightarrow> balanced s'"
  by (induction rule: rtranclp_induct) (auto intro: balanced_ustep inv_usteps)

section \<open>Handles keep their meaning\<close>

definition ranges :: "uplink_state \<Rightarrow> (u64 \<times> u64 \<times> u64) set" where
  "ranges st = set (map entry_key (queue (ul st)))"

definition range_stable :: "uplink_state \<Rightarrow> uplink_state \<Rightarrow> bool" where
  "range_stable st st' \<longleftrightarrow> queueId (ul st) \<le> queueId (ul st') \<and> (\<forall>h f t. (h, f, t) \<in> ranges st' \<and> h \<le> queueId (ul st) \<longrightarrow> (h, f, t) \<in> ranges st)"

lemma range_stable_trans: "range_stable a b \<Longrightarrow> range_stable b c \<Longrightarrow> range_stable a c"
  unfolding range_stable_def by (meson order_trans)

lemma range_stable_subset: "queueId (ul st') = queueId (ul st) \<Longrightarrow> ranges st' \<subseteq> ranges st \<Longrightarrow> range_stable st st'"
  by (auto simp: range_stable_def)

lemma range_stable_new:
  assumes "queueId (ul st') = queueId (ul st) + 1" "ranges st' \<subseteq> insert (queueId (ul st) + 1, f, t) (ranges st)"
    and "unat (queueId (ul st)) + 1 < 2 ^ 64"
  shows "range_stable st st'"
proof -
  have "queueId (ul st) < queueId (ul st) + 1"
    using assms(3) by (simp add: word_less_nat_alt unat_add_no_wrap)
  then show ?thesis using assms(1,2) unfolding range_stable_def by (auto dest: leD)
qed

lemma stable_enqueue:
  assumes "uplink_inv st" "request_pre st start len" "request_enqueue cfg client start len h st = Some (st', isNew, req, p)"
  shows "range_stable st st'"
  using assms
proof (rule request_enqueue_steps)
  fix st1 st2 i
  assume at: "request_attach client start (start + ucast len) (block_floor start) (req_end req) h st = Some (st1, i, isNew)"
    and pf: "request_prefetch cfg client (start + ucast len) len h i isNew st1 = (st2, p)"
    and st': "st' = request_addClient client start (start + ucast len) i st2" and i: "i < length (queue (ul st2))"
  have qid: "unat (queueId (ul st)) + 2 < 2 ^ 64" using assms(2) by (simp add: request_pre_def)
  then have q1: "unat (queueId (ul st) + 1) + 1 < 2 ^ 64" by (subst unat_add_no_wrap) simp_all
  have "range_stable st st1 \<and> unat (queueId (ul st1)) + 1 < 2 ^ 64"
  proof (cases "st1 = st")
    case True
    then show ?thesis using qid by (simp add: range_stable_def)
  next
    case False
    with at have "queueId (ul st1) = queueId (ul st) + 1"
      "ranges st1 \<subseteq> insert (queueId (ul st) + 1, block_floor start, req_end req) (ranges st)"
      by (auto simp: request_attach_def Let_def ranges_def entry_key_def split: option.splits if_splits)
    then show ?thesis using range_stable_new qid q1 by auto
  qed
  moreover have "range_stable st1 st2" if "unat (queueId (ul st1)) + 1 < 2 ^ 64"
  proof (cases rule: request_prefetch_cases [of cfg client "start + ucast len" len h i isNew st1])
    case 1
    then show ?thesis using pf by (simp add: range_stable_def)
  next
    case (2 preEnd pre)
    have "ranges st2 \<subseteq> insert (queueId (ul st1) + 1, start + ucast len, preEnd) (ranges st1)"
      using pf 2 by (auto simp: ranges_def entry_key_def dest: in_set_takeD in_set_dropD)
    then show ?thesis using pf 2 that by (intro range_stable_new) auto
  qed
  moreover have "range_stable st2 st'"
  proof -
    have "map entry_key ((queue (ul st2))[i := (queue (ul st2) ! i)\<lparr>qe_clients := cs\<rparr>]) = map entry_key (queue (ul st2))" for cs
      using i by (simp add: map_update list_update_same_conv entry_key_def)
    then have "map entry_key (queue (ul st')) = map entry_key (queue (ul st2))" "queueId (ul st') = queueId (ul st2)"
      by (auto simp: st' request_addClient_def Let_def split: option.splits)
    then show ?thesis by (intro range_stable_subset) (simp_all only: ranges_def subset_refl)
  qed
  ultimately show "range_stable st st'" by (meson range_stable_trans)
qed

lemma receive_finish_queue:
  assumes "receive_finish handle start end st = Some st'"
  shows "set (queue (ul st')) \<subseteq> set (queue (ul st))" "queueId (ul st') = queueId (ul st)"
  using assms
  by (auto simp: receive_finish_def Let_def dest: in_set_takeD in_set_dropD split: option.splits if_splits)

lemma stable_ustep: "ustep cfg ok s s' \<Longrightarrow> uplink_inv (fst s) \<Longrightarrow> range_stable (fst s) (fst s')"
proof (induction rule: ustep.induct)
  case (enqueue st start len client h st' isNew req pre acc)
  then show ?case using stable_enqueue by simp
next
  case (send st acc isNew req pre h ok1 ok2)
  then show ?case
    using request_send_frame(4,7) [of st] unfolding range_stable_def ranges_def by simp
next
  case (store start payload gs fd script st st' acc)
  then show ?case using inv_receive_store(3,5) [of st] by (simp add: range_stable_def ranges_def)
next
  case (finish handle start "end" st st' acc)
  then show ?case
    using receive_finish_queue [OF finish(1)] by (intro range_stable_subset) (simp_all add: ranges_def image_mono)
next
  case (remove st acc dat cback)
  then show ?case
    by (intro range_stable_subset) (auto simp: uplink_removeEntry_def Let_def ranges_def entry_key_def)
next
  case (cancel st acc)
  then show ?case by (intro range_stable_subset) (auto simp: cancelAllRequests_def ranges_def)
next
  case (internal st st' acc)
  then show ?case using quiet_queue(3) [OF internal(1)] by (simp add: range_stable_def ranges_def quiet_def)
next
  case (stop st r st' acc)
  then show ?case
    by (intro range_stable_subset) (auto simp: uplink_shutdown_def Let_def cancelAllRequests_def ranges_def split: if_splits)
qed

lemma stable_usteps: "(ustep cfg ok)\<^sup>*\<^sup>* s s' \<Longrightarrow> uplink_inv (fst s) \<Longrightarrow> range_stable (fst s) (fst s')"
proof (induction rule: rtranclp_induct)
  case base
  then show ?case by (simp add: range_stable_def)
next
  case (step y z)
  then show ?case using range_stable_trans stable_ustep inv_usteps by metis
qed

section \<open>The cache file and the upstream image\<close>

text \<open>
  \<open>up\<close> is the content of the image on the upstream server. The local state is coherent when every block the map
  claims has that content in the cache file.
\<close>

definition coherent :: "(nat \<Rightarrow> byte) \<Rightarrow> uplink_state \<Rightarrow> bool" where
  "coherent up st \<longleftrightarrow> (\<forall>b \<in> cached (img st). \<forall>i. 4096 * b \<le> i \<and> i < 4096 * (b + 1) \<longrightarrow> disk st i = up i)"

definition from_upstream :: "(nat \<Rightarrow> byte) \<Rightarrow> u64 \<Rightarrow> byte list \<Rightarrow> bool" where
  "from_upstream up start payload \<longleftrightarrow> payload = map up [unat start ..< unat start + length payload]
     \<and> unat start + length payload < 2 ^ 64"

lemma write_bytes_upstream:
  assumes "payload = map up [s ..< s + length payload]" "n \<le> length payload"
  shows "write_bytes s (take n payload) d i = (if s \<le> i \<and> i < s + n then up i else d i)"
proof (cases "s \<le> i \<and> i < s + n")
  case True
  then have "i - s < length payload" "s + (i - s) = i" using assms(2) by linarith+
  then have "payload ! (i - s) = up i"
    by (subst assms(1)) simp
  moreover have "i - s < n" using True by linarith
  ultimately show ?thesis using True assms(2) by (simp add: write_bytes_def)
qed (use assms(2) in \<open>auto simp: write_bytes_def\<close>)

lemma coherent_store:
  assumes inv: "uplink_inv st" and co: "coherent up st" and up: "from_upstream up start payload"
    and st: "receive_store gs fd script start payload st = Some st'"
  shows "coherent up st'"
proof (cases rule: receive_store_cases [OF st])
  case (1 st1 n blocks)
  have wf: "image_wf (img st1)" using store_frame_inv [OF 1(1) inv] by (simp add: uplink_inv_def)
  have "cached (img st1) = cached (img st)" using 1(1) by (auto simp: store_frame_def)
  moreover have "unat (start + word_of_nat n) = unat start + n"
    using up 1(2) by (subst unat_add_no_wrap) (auto simp: from_upstream_def unsigned_of_nat take_bit_nat_eq_self)
  ultimately have c: "cached (img st') = cached (img st) \<union> blocks_within (unat start) (unat start + n)"
    using update_mark(2) [OF wf 1(4)] by simp
  have "disk st' = disk st1" by (subst 1(5)) simp
  then have d: "disk st' i = (if unat start \<le> i \<and> i < unat start + n then up i else disk st i)" for i
    using up 1(2,3) by (simp add: write_bytes_upstream from_upstream_def)
  show ?thesis
    unfolding coherent_def
  proof (intro ballI allI impI)
    fix b i assume b: "b \<in> cached (img st')" and i: "4096 * b \<le> i \<and> i < 4096 * (b + 1)"
    show "disk st' i = up i"
    proof (cases "b \<in> cached (img st)")
      case True
      then show ?thesis using co i d by (auto simp: coherent_def)
    next
      case False
      then have "b \<in> blocks_within (unat start) (unat start + n)" using b c by simp
      then show ?thesis using i d by (auto simp: blocks_within_def)
    qed
  qed
next
  case 2
  then have "cached (img st') = cached (img st)" by (auto simp: store_frame_def)
  then show ?thesis using co 2(2) by (simp add: coherent_def)
qed

lemma coherent_frame: "coherent up st \<Longrightarrow> cached (img st') = cached (img st) \<Longrightarrow> disk st' = disk st \<Longrightarrow> coherent up st'"
  by (simp add: coherent_def)

lemma enqueue_frame:
  assumes "request_enqueue cfg client start len h st = Some (st', isNew, req, pre)"
  shows "disk st' = disk st \<and> cached (img st') = cached (img st)"
proof -
  obtain e r st1 i st2 where at: "request_attach client start e (block_floor start) r h st = Some (st1, i, isNew)"
    and pf: "request_prefetch cfg client e len h i isNew st1 = (st2, pre)" and st': "st' = request_addClient client start e i st2"
    using assms by (auto simp: request_enqueue_def Let_def split: option.splits prod.splits)
  have "disk st1 = disk st \<and> cached (img st1) = cached (img st)"
    using at by (auto simp: request_attach_def Let_def split: option.splits if_splits)
  moreover have "disk st2 = disk st1 \<and> img st2 = img st1"
    using pf by (cases rule: request_prefetch_cases [of cfg client e len h i isNew st1]) auto
  moreover have "disk st' = disk st2 \<and> img st' = img st2"
    by (auto simp: st' request_addClient_def Let_def split: option.splits)
  ultimately show ?thesis by simp
qed

lemma coherent_ustep:
  "ustep cfg (from_upstream up) s s' \<Longrightarrow> uplink_inv (fst s) \<Longrightarrow> coherent up (fst s) \<Longrightarrow> coherent up (fst s')"
proof (induction rule: ustep.induct)
  case (enqueue st start len client h st' isNew req pre acc)
  then show ?case using enqueue_frame [OF enqueue(2)] coherent_frame [of up st st'] by simp
next
  case (send st acc isNew req pre h ok1 ok2)
  then show ?case
    using request_send_frame(2,6) [of st isNew req pre h ok1 ok2] by (auto intro: coherent_frame)
next
  case (store start payload gs fd script st st' acc)
  then show ?case using coherent_store by simp
next
  case (finish handle start "end" st st' acc)
  then have "disk st' = disk st \<and> cached (img st') = cached (img st)"
    by (auto simp: receive_finish_def Let_def split: option.splits if_splits)
  then show ?case using finish coherent_frame [of up st st'] by simp
next
  case (remove st acc dat cback)
  then show ?case by (simp add: coherent_def uplink_removeEntry_def Let_def)
next
  case (cancel st acc)
  then show ?case by (simp add: coherent_def cancelAllRequests_def)
next
  case (internal st st' acc)
  then show ?case by (simp add: coherent_def quiet_def uplink_inv_def)
next
  case (stop st r st' acc)
  then show ?case
    by (auto simp: coherent_def uplink_shutdown_def Let_def cancelAllRequests_def split: if_splits)
qed

lemma coherent_usteps:
  "(ustep cfg (from_upstream up))\<^sup>*\<^sup>* s s' \<Longrightarrow> uplink_inv (fst s) \<Longrightarrow> coherent up (fst s) \<Longrightarrow> coherent up (fst s')"
  by (induction rule: rtranclp_induct) (auto intro: coherent_ustep inv_usteps)

section \<open>The data clients get\<close>

lemma answer_data:
  assumes "take (unat end - unat start) buf = map up [unat start ..< unat end]"
    and "start \<le> qc_from c" "qc_from c \<le> qc_to c" "qc_to c \<le> end" "unat (qc_to c) - unat (qc_from c) < 2 ^ 32"
  shows "cb_buffer (answer_call buf start c) = Some (map up [unat (qc_from c) ..< unat (qc_to c)])"
    "unat (cb_length (answer_call buf start c)) = unat (qc_to c) - unat (qc_from c)"
proof -
  have le: "unat start \<le> unat (qc_from c)" "unat (qc_from c) \<le> unat (qc_to c)" "unat (qc_to c) \<le> unat end"
    using assms(2-4) by (simp_all add: word_le_nat_alt)
  have l: "unat (ucast (qc_to c - qc_from c) :: u32) = unat (qc_to c) - unat (qc_from c)"
    using assms(5) assms(3) by (simp add: unsigned_ucast_eq take_bit_nat_eq_self unat_sub)
  have o: "unat (qc_from c - start) = unat (qc_from c) - unat start"
    using assms(2) by (simp add: unat_sub)
  have "take (unat (qc_to c) - unat (qc_from c)) (drop (unat (qc_from c) - unat start) buf)
      = take (unat (qc_to c) - unat (qc_from c)) (drop (unat (qc_from c) - unat start) (take (unat end - unat start) buf))"
    using le by (simp add: take_drop min_absorb1)
  also have "\<dots> = map up [unat (qc_from c) ..< unat (qc_to c)]"
    unfolding assms(1) using le by (simp add: drop_map take_map drop_upt take_upt)
  finally show "cb_buffer (answer_call buf start c) = Some (map up [unat (qc_from c) ..< unat (qc_to c)])"
    by (simp add: answer_call_def l o)
  show "unat (cb_length (answer_call buf start c)) = unat (qc_to c) - unat (qc_from c)"
    by (simp add: answer_call_def l)
qed

lemma remove_nth_distinct: "distinct xs \<Longrightarrow> i < length xs \<Longrightarrow> take i xs @ drop (Suc i) xs = remove1 (xs ! i) xs"
proof (induction xs arbitrary: i)
  case (Cons x xs)
  then show ?case by (cases i) auto
qed simp

lemma sample_uplink_inv: "uplink_inv sample_uplink"
  by (simp add: uplink_inv_def sample_uplink_def queue_ok_def entry_ok_def client_ok_def sample_entry_def
      sample_client_def server_constants)

lemma sample_uplink_balanced: "balanced (sample_uplink, [sample_client])"
  by (simp add: balanced_def sample_uplink_def pending_def sample_entry_def)

section \<open>Properties\<close>

text \<open>
  C4: However requests, sends, receptions, removals and shutdown interleave, the request queue stays well formed: the
  length counter is right, handles are unique, every entry is a block-aligned range inside the image, and the range of
  every attached client lies inside its entry.
\<close>

theorem uplink_queue_invariant:
  assumes "(ustep cfg ok)\<^sup>*\<^sup>* (st, acc) (st', acc')" "uplink_inv st"
  shows "uplink_inv st'"
  using inv_usteps [OF assms(1)] assms(2) by simp

theorem uplink_queue_invariant_witness:
  "uplink_inv (cancelAllRequests (uplink_removeEntry 7 NetCallback sample_uplink))"
proof -
  have "(ustep cfg ok)\<^sup>*\<^sup>* (sample_uplink, []) (cancelAllRequests (uplink_removeEntry 7 NetCallback sample_uplink), [])" for cfg ok
    by (meson converse_rtranclp_into_rtranclp rtranclp.rtrancl_refl ustep.cancel ustep.remove)
  then show ?thesis using uplink_queue_invariant sample_uplink_inv by blast
qed

text \<open>
  C1: Every client whose request was accepted is called back exactly once: at any moment the accepted clients are, as a
  multiset, those already called back and those still waiting in the queue. Once the queue has been cancelled nobody is
  left waiting.
\<close>

theorem every_client_answered_once:
  assumes "(ustep cfg ok)\<^sup>*\<^sup>* (st, acc) (st', acc')" "uplink_inv st" "balanced (st, acc)"
  shows "mset (map client_key acc') = mset (map call_key (calls st')) + mset (map client_key (pending st'))
    \<and> mset (map client_key acc') = mset (map call_key (calls (cancelAllRequests st')))"
  using balanced_usteps [OF assms(1)] assms(2,3) calls_cancel(2) [of st'] by (simp add: balanced_def comp_def)

theorem every_client_answered_once_witness:
  "mset (map client_key [sample_client]) = mset (map call_key (calls (cancelAllRequests sample_uplink)))"
  using every_client_answered_once [OF rtranclp.rtrancl_refl sample_uplink_inv sample_uplink_balanced] by blast

text \<open>
  C5: The assertion of \<^verbatim>\<open>handleReceive\<close> that a client's range lies inside the received block never fails: the range
  remembered when the reply's entry was looked up is still that entry's range after any number of concurrent steps.
\<close>

theorem receive_assertion_holds:
  assumes "uplink_inv st" "e \<in> set (queue (ul st))" "(ustep cfg ok)\<^sup>*\<^sup>* (st, acc) (st', acc')"
  shows "receive_finish (qe_handle e) (qe_from e) (qe_to e) st' \<noteq> None"
proof (rule receive_finish_total)
  have stab: "range_stable st st'" using stable_usteps [OF assms(3)] assms(1) by simp
  have dist: "distinct (map qe_handle (queue (ul st)))" and le: "qe_handle e \<le> queueId (ul st)"
    using assms(1,2) by (auto simp: uplink_inv_def queue_ok_def list_all_iff)
  show "\<forall>x \<in> set (queue (ul st')). qe_handle x = qe_handle e \<longrightarrow> qe_from x = qe_from e \<and> qe_to x = qe_to e"
  proof (intro ballI impI)
    fix x assume x: "x \<in> set (queue (ul st'))" "qe_handle x = qe_handle e"
    then have "(qe_handle e, qe_from x, qe_to x) \<in> ranges st'"
      by (auto simp: ranges_def entry_key_def image_iff intro!: bexI [of _ x])
    then have "(qe_handle e, qe_from x, qe_to x) \<in> ranges st" using stab le by (simp add: range_stable_def)
    then obtain y where "y \<in> set (queue (ul st))" "qe_handle y = qe_handle e" "qe_from y = qe_from x" "qe_to y = qe_to x"
      by (auto simp: ranges_def entry_key_def)
    moreover have "y = e" using dist calculation(1,2) assms(2) by (auto simp: distinct_map inj_on_def)
    ultimately show "qe_from x = qe_from e \<and> qe_to x = qe_to e" by simp
  qed
  show "uplink_inv st'" using inv_usteps [OF assms(3)] assms(1) by simp
qed

theorem receive_assertion_holds_witness:
  "receive_finish 1 16384 20480 (uplink_removeEntry 7 NetCallback sample_uplink) \<noteq> None"
proof -
  have "(ustep cfg ok)\<^sup>*\<^sup>* (sample_uplink, []) (uplink_removeEntry 7 NetCallback sample_uplink, [])" for cfg ok
    by (meson r_into_rtranclp ustep.remove)
  moreover have "sample_entry \<in> set (queue (ul sample_uplink))" by (simp add: sample_uplink_def)
  ultimately have "receive_finish (qe_handle sample_entry) (qe_from sample_entry) (qe_to sample_entry)
      (uplink_removeEntry 7 NetCallback sample_uplink) \<noteq> None"
    using receive_assertion_holds [OF sample_uplink_inv, of sample_entry] by blast
  then show ?thesis by (simp add: sample_entry_def)
qed

text \<open>
  C3: Cache coherence. As long as the upstream server delivers the bytes of the image, every block the cache map claims
  has the image's content in the cache file, whatever the interleaving, however writes are split up, fail half way, are
  retried or run out of space.
\<close>

theorem cache_stays_coherent:
  assumes "(ustep cfg (from_upstream up))\<^sup>*\<^sup>* (st, acc) (st', acc')" "uplink_inv st" "coherent up st"
  shows "coherent up st'"
  using coherent_usteps [OF assms(1)] assms(2,3) by simp

theorem cache_stays_coherent_witness:
  "coherent (\<lambda>_. 0) (cancelAllRequests sample_uplink)"
proof -
  have "(ustep cfg ok)\<^sup>*\<^sup>* (sample_uplink, []) (cancelAllRequests sample_uplink, [])" for cfg ok
    by (meson r_into_rtranclp ustep.cancel)
  moreover have "coherent (\<lambda>_. 0) sample_uplink" by (simp add: coherent_def sample_uplink_def)
  ultimately show ?thesis using cache_stays_coherent sample_uplink_inv by blast
qed

text \<open>
  C2: The clients of a received block get the image's bytes for exactly the range they asked for, and the entry leaves
  the queue.
\<close>

theorem clients_get_upstream_data:
  assumes "uplink_inv st" "e \<in> set (queue (ul st))"
    and "take (unat (qe_to e) - unat (qe_from e)) (recvBuffer (ul st)) = map up [unat (qe_from e) ..< unat (qe_to e)]"
    and "receive_finish (qe_handle e) (qe_from e) (qe_to e) st = Some st'"
  shows "map cb_buffer (calls st') = map cb_buffer (calls st)
       @ map (\<lambda>c. Some (map up [unat (qc_from c) ..< unat (qc_to c)])) (qe_clients e)
    \<and> map call_key (calls st') = map call_key (calls st) @ map client_key (qe_clients e)
    \<and> queue (ul st') = remove1 e (queue (ul st))"
proof -
  have dist: "distinct (map qe_handle (queue (ul st)))" and ok: "entry_ok (virtualFilesize (img st)) e"
    using assms(1,2) by (auto simp: uplink_inv_def queue_ok_def list_all_iff)
  obtain i where i: "queue_find (\<lambda>x. qe_handle x = qe_handle e) (queue (ul st)) = Some i"
    using assms(2) queue_find_None [of "\<lambda>x. qe_handle x = qe_handle e"] by (cases "queue_find (\<lambda>x. qe_handle x = qe_handle e) (queue (ul st))") auto
  have il: "i < length (queue (ul st))" and "qe_handle (queue (ul st) ! i) = qe_handle e" using queue_find_Some [OF i] by auto
  then have e: "queue (ul st) ! i = e"
    using dist assms(2) by (auto simp: distinct_map inj_on_def)
  have "cb_buffer (answer_call (recvBuffer (ul st)) (qe_from e) c) = Some (map up [unat (qc_from c) ..< unat (qc_to c)])"
    if "c \<in> set (qe_clients e)" for c
    using that ok by (intro answer_data(1) [OF assms(3)]) (auto simp: entry_ok_def client_ok_def list_all_iff)
  moreover have "calls st' = calls st @ map (answer_call (recvBuffer (ul st)) (qe_from e)) (qe_clients e)"
    "queue (ul st') = take i (queue (ul st)) @ drop (Suc i) (queue (ul st))"
    using assms(4) i e by (auto simp: receive_finish_def Let_def split: if_splits)
  moreover have "take i (queue (ul st)) @ drop (Suc i) (queue (ul st)) = remove1 e (queue (ul st))"
    using remove_nth_distinct [OF _ il] dist e by (auto simp: distinct_map)
  ultimately show ?thesis by simp
qed

theorem clients_get_upstream_data_witness:
  "let st = sample_uplink\<lparr>ul := (ul sample_uplink)\<lparr>recvBuffer := replicate 4096 5\<rparr>\<rparr>;
       st' = the (receive_finish 1 16384 20480 st)
   in map cb_buffer (calls st') = [Some (replicate 512 5)] \<and> queue (ul st') = []"
proof -
  let ?st = "sample_uplink\<lparr>ul := (ul sample_uplink)\<lparr>recvBuffer := replicate 4096 5\<rparr>\<rparr>"
  have inv: "uplink_inv ?st" using sample_uplink_inv by (simp add: uplink_inv_def)
  have q: "queue (ul ?st) = [sample_entry]" "calls ?st = []" "recvBuffer (ul ?st) = replicate 4096 5"
    by (simp_all add: sample_uplink_def)
  have e: "qe_handle sample_entry = 1" "qe_from sample_entry = 16384" "qe_to sample_entry = 20480"
    "qe_clients sample_entry = [sample_client]" "unat (qc_from sample_client) = 16384" "unat (qc_to sample_client) = 16896"
    by (simp_all add: sample_entry_def sample_client_def)
  have "queue (ul sample_uplink) = [sample_entry]" by (simp add: sample_uplink_def)
  then have "receive_finish 1 16384 20480 ?st \<noteq> None"
    by (intro receive_finish_total [OF inv]) (simp add: e)
  then have fin: "receive_finish 1 16384 20480 ?st = Some (the (receive_finish 1 16384 20480 ?st))"
    by (rule option.collapse [symmetric])
  have "take (unat (20480 :: u64) - unat (16384 :: u64)) (recvBuffer (ul ?st)) = map (\<lambda>_. 5) [unat (16384 :: u64) ..< unat (20480 :: u64)]"
    unfolding q map_replicate_const length_upt by simp
  then show ?thesis
    using clients_get_upstream_data [OF inv, of sample_entry "\<lambda>_. 5", unfolded e, OF _ _ fin]
    unfolding Let_def q map_replicate_const length_upt by (simp add: e map_replicate_const del: upt_rec_numeral)
qed

end
