(* ===== verification/Replication.thy ===== *)
theory Replication
  imports UplinkSteps
begin

text \<open>
  Background replication, after \<^verbatim>\<open>sendReplicationRequest\<close>, \<^verbatim>\<open>findNextIncompleteHashBlock\<close> and
  \<^verbatim>\<open>numWantedReplicationRequests\<close> of \<^verbatim>\<open>src/server/uplink.c\<close>: which part of an incomplete image the uplink thread
  asks for when no client needs anything. Map indices are the \<^verbatim>\<open>int\<close>s of the code; images are small enough
  (\<^const>\<open>image_wf\<close>) that none of them overflows. One call sees one state of the cache map.
\<close>

definition MAP_BYTES_PER_HASH_BLOCK :: int where "MAP_BYTES_PER_HASH_BLOCK = 512"
definition FILE_BYTES_PER_MAP_BYTE :: u64 where "FILE_BYTES_PER_MAP_BYTE = 32768"

section \<open>How many requests\<close>

fun wanted_loop :: "int \<Rightarrow> dnbd3_queue_entry_t list \<Rightarrow> int" where
  "wanted_loop ret [] = ret"
| "wanted_loop ret (it # q) = (if qe_clients it = [] then wanted_loop (ret - 1) q else 0)"

definition numWantedReplicationRequests :: "config \<Rightarrow> dnbd3_uplink_t \<Rightarrow> int" where
  "numWantedReplicationRequests cfg u =
     (let ret = min (bgrWindowSize cfg) (idleTime u + 1)
      in if queueLen u = 0 then ret else wanted_loop ret (queue u))"

section \<open>The next hash block that is worth completing\<close>

text \<open>The loop over the map; \<open>Some\<close> is a \<^verbatim>\<open>break\<close> with the value of \<^verbatim>\<open>retval\<close>, \<open>None\<close> a loop that ran to its end.\<close>

fun hash_scan :: "u8 list \<Rightarrow> bool \<Rightarrow> int \<Rightarrow> int \<Rightarrow> int list \<Rightarrow> int option" where
  "hash_scan m rep mapBytes retval [] = None"
| "hash_scan m rep mapBytes retval (i # is) =
     (let b = m ! nat i;
          isFull = (b = 0xff \<or> (i + 1 = mapBytes \<and> rep));
          isEmpty = (b = 0)
      in if \<not> isEmpty \<and> \<not> isFull then Some (if retval = -1 then i else retval)
         else if MAP_INDEX_HASH_START i = i then hash_scan m rep mapBytes (if isEmpty then i else -1) is
         else if isFull then (if retval \<noteq> -1 then Some retval else hash_scan m rep mapBytes retval is)
         else if retval = -1 then Some i
         else hash_scan m rep mapBytes retval is)"

text \<open>
  Without a cache map the source passes the address of a field of \<^verbatim>\<open>NULL\<close> to \<^verbatim>\<open>ref_put\<close>; the value -1 stands for the
  result it has computed by then. The callers modelled here have a map.
\<close>

definition findNextIncompleteHashBlock :: "dnbd3_image_t \<Rightarrow> bool \<Rightarrow> int \<Rightarrow> int" where
  "findNextIncompleteHashBlock i replicatedLast startMapIndex =
     (case ref_cacheMap i of
        None \<Rightarrow> -1
      | Some cache \<Rightarrow>
          let mapBytes = IMGSIZE_TO_MAPBYTES (virtualFilesize i);
              start = MAP_INDEX_HASH_START startMapIndex
          in case hash_scan (cmap cache) replicatedLast mapBytes (-1)
                    (map (\<lambda>j. (start + j) mod mapBytes) [0 .. mapBytes - 1]) of
               None \<Rightarrow> -1
             | Some retval \<Rightarrow> retval)"

section \<open>Requesting\<close>

text \<open>The end of the search and the first incomplete map byte before it, -1 if there is none.\<close>

definition replication_end :: "config \<Rightarrow> int \<Rightarrow> int \<Rightarrow> int" where
  "replication_end cfg mapBytes next =
     (if backgroundReplication cfg = BGR_FULL then next + mapBytes
      else let endByte = MAP_INDEX_HASH_START (next + MAP_BYTES_PER_HASH_BLOCK)
           in if endByte > mapBytes then mapBytes else endByte)"

definition replication_find :: "u8 list \<Rightarrow> bool \<Rightarrow> int \<Rightarrow> int \<Rightarrow> int \<Rightarrow> int" where
  "replication_find m rep mapBytes next endByte =
     (case find (\<lambda>j. let i = j mod mapBytes in m ! nat i \<noteq> 0xff \<and> (i \<noteq> mapBytes - 1 \<or> \<not> rep)) [next .. endByte - 1] of
        None \<Rightarrow> -1
      | Some j \<Rightarrow> j mod mapBytes)"

text \<open>The loop that extends a request over following incomplete bytes, at most \<open>n\<close> times.\<close>

fun extend_replication :: "u8 list \<Rightarrow> u64 \<Rightarrow> u64 \<Rightarrow> nat \<Rightarrow> int \<Rightarrow> u32 \<Rightarrow> int \<times> u32" where
  "extend_replication m vs offset 0 ri sz = (ri, sz)"
| "extend_replication m vs offset (Suc n) ri sz =
     (if \<not> offset + ucast sz < vs then (ri, sz)
      else if m ! nat (ri + 1) = 0xff then (ri, sz)
      else extend_replication m vs offset n (ri + 1)
             (sz + ucast (min (vs - offset - ucast sz) FILE_BYTES_PER_MAP_BYTE)))"

definition replication_extra :: "config \<Rightarrow> nat" where
  "replication_extra cfg =
     (if backgroundReplication cfg = BGR_FULL then unat (minRequestSize cfg) div 32768 - 1 else 0)"

text \<open>The range requested for a map byte, and the last map byte it covers.\<close>

definition replication_range :: "config \<Rightarrow> u8 list \<Rightarrow> u64 \<Rightarrow> int \<Rightarrow> u64 \<times> int \<times> u32" where
  "replication_range cfg m vs ri =
     (let offset = word_of_int ri * FILE_BYTES_PER_MAP_BYTE;
          sz = ucast (min (vs - offset) FILE_BYTES_PER_MAP_BYTE)
      in (offset, extend_replication m vs offset (replication_extra cfg) ri sz))"

text \<open>One iteration of the request loop: \<^verbatim>\<open>break\<close>, next iteration, or \<^verbatim>\<open>return false\<close>.\<close>

datatype repl_step = RBreak | RNext | RFail

definition replicate_step :: "config \<Rightarrow> dnbd3_cache_map_t \<Rightarrow> bool \<Rightarrow> uplink_state \<Rightarrow> repl_step \<times> uplink_state" where
  "replicate_step cfg cache ok st =
     (let u = ul st; i = img st;
          mapBytes = IMGSIZE_TO_MAPBYTES (virtualFilesize i)
      in
      if UPLINK_MAX_QUEUE - queueLen u < 10 then (RBreak, st)
      else
        let endByte = replication_end cfg mapBytes (nextReplicationIndex u);
            r1 = replication_find (cmap cache) (replicatedLastBlock u) mapBytes (nextReplicationIndex u) endByte;
            r2 = (if r1 = -1 \<and> backgroundReplication cfg = BGR_HASHBLOCK
                  then findNextIncompleteHashBlock i (replicatedLastBlock u) endByte else r1)
        in
        if r2 = -1 then (RBreak, st\<lparr>ul := u\<lparr>nextReplicationIndex := -1\<rparr>\<rparr>)
        else
          let (offset, ri, sz) = replication_range cfg (cmap cache) (virtualFilesize i) r2;
              (sent, st1) = uplink_requestInternal cfg None offset sz 0 ok True
                              (st\<lparr>ul := u\<lparr>queueId := queueId u + 1\<rparr>\<rparr>)
          in
          if \<not> sent then (RFail, st1)
          else
            let rep = (replicatedLastBlock (ul st1) \<or> ri = mapBytes - 1);
                cross = (backgroundReplication cfg = BGR_HASHBLOCK \<and> (ri + 1) mod MAP_BYTES_PER_HASH_BLOCK = 0);
                nxt = (if cross then findNextIncompleteHashBlock (img st1) rep (ri + 1) else ri + 1)
            in (if cross \<and> nxt = -1 then RBreak else RNext,
                st1\<lparr>ul := (ul st1)\<lparr>replicatedLastBlock := rep, nextReplicationIndex := nxt\<rparr>\<rparr>))"

fun replicate_loop :: "config \<Rightarrow> dnbd3_cache_map_t \<Rightarrow> nat \<Rightarrow> bool list \<Rightarrow> uplink_state \<Rightarrow> bool \<times> uplink_state" where
  "replicate_loop cfg cache 0 oks st = (True, st)"
| "replicate_loop cfg cache (Suc n) oks st =
     (case replicate_step cfg cache (oks \<noteq> [] \<and> hd oks) st of
        (RBreak, st') \<Rightarrow> (True, st')
      | (RFail, st') \<Rightarrow> (False, st')
      | (RNext, st') \<Rightarrow> replicate_loop cfg cache n (tl oks) st')"

text \<open>
  \<^verbatim>\<open>sendReplicationRequest\<close>; \<open>oks\<close> tells, for one request after the other, whether it could be sent (not, when the
  list is used up).
\<close>

definition sendReplicationRequest :: "config \<Rightarrow> bool list \<Rightarrow> uplink_state \<Rightarrow> bool \<times> uplink_state" where
  "sendReplicationRequest cfg oks st =
     (let u = ul st in
      if conn_fd (current u) = -1 then (False, st)
      else if backgroundReplication cfg = BGR_DISABLED \<or> cacheFd u = -1 then (True, st)
      else if nextReplicationIndex u = -1 then (True, st)
      else if users (img st) < bgrMinClients cfg then (True, st)
      else let numNewRequests = numWantedReplicationRequests cfg u in
           if numNewRequests \<le> 0 then (True, st)
           else case ref_cacheMap (img st) of
                  None \<Rightarrow> (True, st)
                | Some cache \<Rightarrow> replicate_loop cfg cache (nat numNewRequests) oks st)"

section \<open>The scan for hash blocks\<close>

text \<open>
  How the scan classifies a map byte. A zero byte at the very end that was already requested counts as empty at the
  start of a hash block and as full elsewhere.
\<close>

datatype byte_kind = Partial | Empty | Full

definition kind_of :: "u8 list \<Rightarrow> bool \<Rightarrow> int \<Rightarrow> int \<Rightarrow> byte_kind" where
  "kind_of m rep mapBytes i =
     (let isFull = (m ! nat i = 0xff \<or> (i + 1 = mapBytes \<and> rep)); isEmpty = (m ! nat i = 0)
      in if \<not> isEmpty \<and> \<not> isFull then Partial
         else if isEmpty \<and> (i mod 512 = 0 \<or> \<not> isFull) then Empty else Full)"

definition hash_end :: "int \<Rightarrow> int \<Rightarrow> int" where
  "hash_end mapBytes h = min (512 * h + 512) mapBytes"

text \<open>A hash block is mixed if a byte of it is partly set, or if it has both empty and full bytes.\<close>

definition uniform :: "u8 list \<Rightarrow> bool \<Rightarrow> int \<Rightarrow> int \<Rightarrow> byte_kind \<Rightarrow> bool" where
  "uniform m rep mapBytes h k \<longleftrightarrow> (\<forall>i \<in> {512 * h ..< hash_end mapBytes h}. kind_of m rep mapBytes i = k)"

definition mixed :: "u8 list \<Rightarrow> bool \<Rightarrow> int \<Rightarrow> int \<Rightarrow> bool" where
  "mixed m rep mapBytes h \<longleftrightarrow> \<not> uniform m rep mapBytes h Empty \<and> \<not> uniform m rep mapBytes h Full"

lemma hash_start_eq: "MAP_INDEX_HASH_START i = i div 512 * 512"
proof -
  have "i AND NOT (mask 9) = push_bit 9 (drop_bit 9 i)"
    by (rule bit_eqI) (auto simp: bit_simps)
  moreover have "(511 :: int) = mask 9" by (simp add: mask_eq_exp_minus_1)
  ultimately have "MAP_INDEX_HASH_START i = push_bit 9 (drop_bit 9 i)"
    unfolding MAP_INDEX_HASH_START_def by (simp only:)
  then show ?thesis by (simp add: push_bit_eq_mult drop_bit_eq_div)
qed

lemma hash_start_iff: "MAP_INDEX_HASH_START i = i \<longleftrightarrow> i mod 512 = 0"
  unfolding hash_start_eq minus_mod_eq_div_mult [symmetric] by simp

lemma hash_scan_Cons:
  "hash_scan m rep mb r (i # is) =
     (case kind_of m rep mb i of
        Partial \<Rightarrow> Some (if r = -1 then i else r)
      | Empty \<Rightarrow> if i mod 512 = 0 then hash_scan m rep mb i is
                 else if r = -1 then Some i else hash_scan m rep mb r is
      | Full \<Rightarrow> if i mod 512 = 0 then hash_scan m rep mb (-1) is
                else if r \<noteq> -1 then Some r else hash_scan m rep mb r is)"
  by (simp add: kind_of_def hash_start_iff Let_def)

declare hash_scan.simps(2) [simp del]

lemma scan_rest_of_block:
  assumes "0 \<le> h" "512 * h < i" "i \<le> e" "e \<le> 512 * h + 512"
    and r: "if r = -1 then k = Full else r = 512 * h \<and> k = Empty"
    and before: "\<forall>j \<in> {512 * h ..< i}. kind_of m rep mb j = k"
  shows "(\<forall>j \<in> {512 * h ..< e}. kind_of m rep mb j = k) \<and> hash_scan m rep mb r ([i .. e - 1] @ rest) = hash_scan m rep mb r rest
    \<or> (\<exists>j \<in> {512 * h ..< e}. kind_of m rep mb j \<noteq> k) \<and> (\<exists>x. hash_scan m rep mb r ([i .. e - 1] @ rest) = Some x
         \<and> 512 * h \<le> x \<and> x < e \<and> kind_of m rep mb x \<noteq> Full)"
  using assms(2-) 
proof (induction "nat (e - i)" arbitrary: i)
  case 0
  then have "i = e" by simp
  then show ?case using 0 by simp
next
  case (Suc n)
  then have lt: "i < e" by simp
  then have up: "[i .. e - 1] = i # [i + 1 .. e - 1]" by (simp add: upto_rec1)
  have "(512 * h + (i - 512 * h)) mod 512 = i - 512 * h"
    using Suc.prems(1,3) lt by (simp only: mod_mult_self4) simp
  then have na: "i mod 512 \<noteq> 0" using Suc.prems(1) by simp
  have h0: "kind_of m rep mb (512 * h) = k" using Suc.prems by simp
  show ?case
  proof (cases "kind_of m rep mb i = k")
    case True
    have "hash_scan m rep mb r ([i .. e - 1] @ rest) = hash_scan m rep mb r ([i + 1 .. e - 1] @ rest)"
      using r True na by (cases k) (simp_all add: up hash_scan_Cons split: if_splits)
    moreover have "\<forall>j \<in> {512 * h ..< i + 1}. kind_of m rep mb j = k"
      using Suc.prems(5) True by (auto simp: zless_add1_eq)
    moreover have "n = nat (e - (i + 1))" "512 * h < i + 1" "i + 1 \<le> e"
      using Suc.hyps(2) Suc.prems lt by simp_all
    ultimately show ?thesis
      using Suc.hyps(1) [of "i + 1"] Suc.prems(3,4) by simp
  next
    case False
    then have "\<exists>x. hash_scan m rep mb r ([i .. e - 1] @ rest) = Some x \<and> 512 * h \<le> x \<and> x < e \<and> kind_of m rep mb x \<noteq> Full"
      using r na lt Suc.prems(1) h0 by (cases "kind_of m rep mb i"; cases "r = -1") (simp_all add: up hash_scan_Cons)
    moreover have "\<exists>j \<in> {512 * h ..< e}. kind_of m rep mb j \<noteq> k" using False Suc.prems lt by (intro bexI [of _ i]) auto
    ultimately show ?thesis by blast
  qed
qed

text \<open>One hash block: its first byte resets the state, unless that byte is partly set.\<close>

lemma scan_block:
  assumes "0 \<le> h" "512 * h < mb"
  defines "B \<equiv> [512 * h .. hash_end mb h - 1]"
  shows "mixed m rep mb h \<and> kind_of m rep mb (512 * h) = Partial \<and> hash_scan m rep mb r (B @ rest) = Some (if r = -1 then 512 * h else r)
    \<or> mixed m rep mb h \<and> (\<exists>x. hash_scan m rep mb r (B @ rest) = Some x \<and> 512 * h \<le> x \<and> x < hash_end mb h \<and> kind_of m rep mb x \<noteq> Full)
    \<or> uniform m rep mb h Empty \<and> hash_scan m rep mb r (B @ rest) = hash_scan m rep mb (512 * h) rest
    \<or> uniform m rep mb h Full \<and> hash_scan m rep mb r (B @ rest) = hash_scan m rep mb (-1) rest"
proof -
  have e: "512 * h + 1 \<le> hash_end mb h" "hash_end mb h \<le> 512 * h + 512" using assms(2) by (auto simp: hash_end_def)
  have up: "B = 512 * h # [512 * h + 1 .. hash_end mb h - 1]" using e by (simp add: B_def upto_rec1)
  have in0: "512 * h \<in> {512 * h ..< hash_end mb h}" using e by simp
  show ?thesis
  proof (cases "kind_of m rep mb (512 * h)")
    case Partial
    then have "mixed m rep mb h" using in0 by (auto simp: mixed_def uniform_def intro!: bexI [of _ "512 * h"])
    then show ?thesis using Partial by (simp add: up hash_scan_Cons)
  next
    case Empty
    then have "\<not> uniform m rep mb h Full" using in0 by (auto simp: uniform_def intro!: bexI [of _ "512 * h"])
    moreover have "\<forall>j \<in> {512 * h ..< 512 * h + 1}. kind_of m rep mb j = Empty" using Empty by auto
    ultimately show ?thesis
      using scan_rest_of_block [OF assms(1) _ e, of "512 * h" Empty m rep mb rest] Empty assms(1)
      by (auto simp: up hash_scan_Cons mixed_def uniform_def)
  next
    case Full
    then have "\<not> uniform m rep mb h Empty" using in0 by (auto simp: uniform_def intro!: bexI [of _ "512 * h"])
    moreover have "\<forall>j \<in> {512 * h ..< 512 * h + 1}. kind_of m rep mb j = Full" using Full by auto
    ultimately show ?thesis
      using scan_rest_of_block [OF assms(1) _ e, of "-1" Full m rep mb rest] Full
      by (auto simp: up hash_scan_Cons mixed_def uniform_def)
  qed
qed

lemma scan_blocks:
  assumes "\<forall>h \<in> set hs. 0 \<le> h \<and> 512 * h < mb"
    and "r = -1 \<or> (0 \<le> r \<and> r < mb \<and> kind_of m rep mb r = Empty)"
  shows "(\<forall>h \<in> set hs. \<not> mixed m rep mb h)
      \<and> hash_scan m rep mb r (concat (map (\<lambda>h. [512 * h .. hash_end mb h - 1]) hs)) = None
    \<or> (\<exists>h \<in> set hs. mixed m rep mb h)
      \<and> (\<exists>x. hash_scan m rep mb r (concat (map (\<lambda>h. [512 * h .. hash_end mb h - 1]) hs)) = Some x
           \<and> 0 \<le> x \<and> x < mb \<and> kind_of m rep mb x \<noteq> Full)"
  using assms
proof (induction hs arbitrary: r)
  case (Cons h hs)
  let ?rest = "concat (map (\<lambda>h. [512 * h .. hash_end mb h - 1]) hs)"
  have h: "0 \<le> h" "512 * h < mb" "hash_end mb h \<le> mb" using Cons.prems by (auto simp: hash_end_def)
  have tl: "\<forall>h \<in> set hs. 0 \<le> h \<and> 512 * h < mb" using Cons.prems by simp
  from scan_block [OF h(1,2), of m rep r ?rest] show ?case
  proof (elim disjE conjE)
    assume "uniform m rep mb h Empty"
      and eq: "hash_scan m rep mb r ([512 * h .. hash_end mb h - 1] @ ?rest) = hash_scan m rep mb (512 * h) ?rest"
    then have "kind_of m rep mb (512 * h) = Empty" "\<not> mixed m rep mb h"
      using h by (simp_all add: uniform_def hash_end_def mixed_def)
    then show ?thesis using Cons.IH [OF tl, of "512 * h"] h eq by simp
  next
    assume "uniform m rep mb h Full"
      and eq: "hash_scan m rep mb r ([512 * h .. hash_end mb h - 1] @ ?rest) = hash_scan m rep mb (-1) ?rest"
    then show ?thesis using Cons.IH [OF tl, of "-1"] by (simp add: mixed_def)
  qed (use Cons.prems(2) h in auto)
qed simp

lemma upto_hash_blocks:
  assumes "a \<le> b" "0 \<le> a" "512 * (b - 1) < mb"
  shows "concat (map (\<lambda>h. [512 * h .. hash_end mb h - 1]) [a .. b - 1]) = [512 * a .. min (512 * b) mb - 1]"
  using assms
proof (induction "nat (b - a)" arbitrary: a)
  case 0
  then show ?case by simp
next
  case (Suc n)
  then have lt: "a < b" by simp
  have he: "hash_end mb a = min (512 * (a + 1)) mb" by (simp add: hash_end_def)
  have "[a .. b - 1] = a # [a + 1 .. b - 1]" using lt by (simp add: upto_rec1)
  moreover have "concat (map (\<lambda>h. [512 * h .. hash_end mb h - 1]) [a + 1 .. b - 1]) = [512 * (a + 1) .. min (512 * b) mb - 1]"
    using Suc.hyps(1) [of "a + 1"] Suc.hyps(2) Suc.prems lt by simp
  moreover have "[512 * a .. min (512 * b) mb - 1] = [512 * a .. hash_end mb a - 1] @ [512 * (a + 1) .. min (512 * b) mb - 1]"
  proof (cases "b = a + 1")
    case False
    then have "hash_end mb a = 512 * (a + 1)" "512 * (a + 1) < min (512 * b) mb"
      using lt Suc.prems by (auto simp: he)
    then show ?thesis using upto_split1 [of "512 * a" "512 * (a + 1)" "min (512 * b) mb - 1"] by simp
  qed (simp add: he)
  ultimately show ?case by simp
qed

text \<open>The order in which the scan visits the map, as whole hash blocks.\<close>

lemma upto_shift: "map (\<lambda>j. a + j) [0 .. (n :: int) - 1] = [a .. a + n - 1]"
proof (cases "n \<le> 0")
  case False
  then show ?thesis
    by (intro nth_equalityI) (auto simp: nth_upto)
qed simp

lemma rotated_upto:
  assumes "0 \<le> a" "a < (mb :: int)"
  shows "map (\<lambda>j. (a + j) mod mb) [0 .. mb - 1] = [a .. mb - 1] @ [0 .. a - 1]"
proof -
  have "[0 .. mb - 1] = [0 .. mb - a - 1] @ [mb - a .. mb - 1]"
    using assms upto_split1 [of 0 "mb - a" "mb - 1"] by (cases "a = 0") simp_all
  moreover have "map (\<lambda>j. (a + j) mod mb) [0 .. mb - a - 1] = map (\<lambda>j. a + j) [0 .. mb - a - 1]"
    using assms by (intro map_cong) auto
  moreover have "(a + j) mod mb = a - mb + j" if "j \<in> {mb - a .. mb - 1}" for j
  proof -
    have "(a + j) mod mb = (a - mb + j + mb) mod mb" by simp
    also have "\<dots> = (a - mb + j) mod mb" by (rule mod_add_self2)
    finally show ?thesis using that assms by simp
  qed
  then have "map (\<lambda>j. (a + j) mod mb) [mb - a .. mb - 1] = map (\<lambda>j. a - mb + j) [mb - a .. mb - 1]"
    by (intro map_cong) auto
  moreover have "map (\<lambda>j. a - mb + j) [mb - a .. mb - 1] = [0 .. a - 1]"
    by (intro nth_equalityI) (auto simp: nth_upto)
  moreover have "map (\<lambda>j. a + j) [0 .. mb - a - 1] = [a .. mb - 1]"
    using upto_shift [of a "mb - a"] by simp
  ultimately show ?thesis by simp
qed

lemma scan_order:
  assumes "0 < mb" "0 \<le> ix" "ix \<le> mb"
  obtains hs where "set hs = {h. 0 \<le> h \<and> 512 * h < mb}"
    "map (\<lambda>j. (MAP_INDEX_HASH_START ix + j) mod mb) [0 .. mb - 1] = concat (map (\<lambda>h. [512 * h .. hash_end mb h - 1]) hs)"
proof -
  define n where "n = (mb + 511) div 512"
  have n: "512 * (n - 1) < mb" "mb \<le> 512 * n" "0 < n" using assms(1) by (simp_all add: n_def)
  define a where "a = (if MAP_INDEX_HASH_START ix = mb then 0 else ix div 512)"
  have a: "0 \<le> a" "512 * a < mb"
    using assms by (auto simp: a_def hash_start_eq split: if_splits)
  have "map (\<lambda>j. (MAP_INDEX_HASH_START ix + j) mod mb) [0 .. mb - 1] = map (\<lambda>j. (512 * a + j) mod mb) [0 .. mb - 1]"
    by (auto simp: a_def hash_start_eq mult.commute)
  also have "\<dots> = [512 * a .. mb - 1] @ [0 .. 512 * a - 1]"
    using a by (intro rotated_upto) auto
  also have "[512 * a .. mb - 1] = concat (map (\<lambda>h. [512 * h .. hash_end mb h - 1]) [a .. n - 1])"
    using upto_hash_blocks [of a n mb] a n by simp
  also have "[0 .. 512 * a - 1] = concat (map (\<lambda>h. [512 * h .. hash_end mb h - 1]) [0 .. a - 1])"
    using upto_hash_blocks [of 0 a mb] a by simp
  finally have "map (\<lambda>j. (MAP_INDEX_HASH_START ix + j) mod mb) [0 .. mb - 1] =
    concat (map (\<lambda>h. [512 * h .. hash_end mb h - 1]) ([a .. n - 1] @ [0 .. a - 1]))" by simp
  moreover have "set ([a .. n - 1] @ [0 .. a - 1]) = {h. 0 \<le> h \<and> 512 * h < mb}"
    using a n by auto
  ultimately show ?thesis using that by blast
qed

section \<open>The requested range\<close>

text \<open>
  A range that begins at map byte \<open>a\<close> and ends with map byte \<open>k\<close>, in bytes of the image: whole map bytes, cut off at
  the end of the image.
\<close>

definition covers :: "u64 \<Rightarrow> nat \<Rightarrow> int \<Rightarrow> u64 \<Rightarrow> u32 \<Rightarrow> bool" where
  "covers vs a ri offset sz \<longleftrightarrow> unat offset = 32768 * a \<and> int a \<le> ri \<and> ri < int ((unat vs + 32767) div 32768)
     \<and> unat offset + unat sz = min (unat vs) (32768 * (nat ri + 1))"

lemma add_min_diff: "(a :: nat) \<le> v \<Longrightarrow> a + min (v - a) k = min v (a + k)"
  by linarith

lemma covers_step:
  fixes vs offset :: u64 and sz :: u32
  assumes c: "covers vs a ri offset sz" and vs: "unat vs < 2 ^ 45" and more: "offset + ucast sz < vs"
    and room: "unat sz + 32768 < 2 ^ 32"
  shows "covers vs a (ri + 1) offset (sz + ucast (min (vs - offset - ucast sz) FILE_BYTES_PER_MAP_BYTE))"
proof -
  have le: "unat offset + unat sz \<le> unat vs" using c unfolding covers_def by linarith
  then have sum: "unat (offset + ucast sz) = unat offset + unat sz"
    using vs by (subst unat_add_no_wrap) simp_all
  then have lt: "unat offset + unat sz < unat vs" using more by (simp add: word_less_nat_alt)
  then have eq: "unat offset + unat sz = 32768 * (nat ri + 1)" using c unfolding covers_def by linarith
  have rest: "unat (vs - offset - ucast sz) = unat vs - (unat offset + unat sz)"
    using sum more by (simp add: diff_diff_eq unat_sub order_less_imp_le)
  let ?d = "min (vs - offset - ucast sz) FILE_BYTES_PER_MAP_BYTE"
  have d: "unat ?d = min (unat vs - (unat offset + unat sz)) 32768"
    using rest by (simp add: min_def word_le_nat_alt FILE_BYTES_PER_MAP_BYTE_def)
  then have dc: "unat (ucast ?d :: u32) = unat ?d"
    by (simp add: unsigned_ucast_eq take_bit_nat_eq_self)
  have "unat (sz + ucast ?d) = unat sz + unat ?d"
    using room d dc by (subst unat_add_no_wrap) simp_all
  moreover have "ri + 1 < int ((unat vs + 32767) div 32768)"
    using eq lt c by (simp add: covers_def)
  moreover have "nat (ri + 1) = nat ri + 1" using c by (simp add: covers_def nat_add_distrib)
  then have "unat offset + (unat sz + unat ?d) = min (unat vs) (32768 * (nat (ri + 1) + 1))"
    using add_min_diff [of "unat offset + unat sz" "unat vs" 32768] d eq lt by (simp add: add.assoc)
  ultimately show ?thesis
    using c by (simp add: covers_def)
qed

lemma extend_replication_covers:
  assumes "extend_replication m vs offset n ri sz = (ri', sz')" "covers vs a ri offset sz" "unat vs < 2 ^ 45"
    and "32768 * (nat ri - a + 1 + n) < 2 ^ 32"
  shows "covers vs a ri' offset sz' \<and> ri \<le> ri' \<and> nat ri' - a \<le> nat ri - a + n
    \<and> (\<forall>j. ri < j \<and> j \<le> ri' \<longrightarrow> m ! nat j \<noteq> 0xff)"
  using assms
proof (induction m vs offset n ri sz rule: extend_replication.induct)
  case (2 m vs offset n ri sz)
  show ?case
  proof (cases "offset + ucast sz < vs \<and> m ! nat (ri + 1) \<noteq> 0xff")
    case True
    have sz: "unat sz \<le> 32768 * (nat ri - a + 1)" "int a \<le> ri" using "2.prems"(2) by (auto simp: covers_def)
    then have "unat sz + 32768 < 2 ^ 32" using "2.prems"(4) by simp
    then have c: "covers vs a (ri + 1) offset (sz + ucast (min (vs - offset - ucast sz) FILE_BYTES_PER_MAP_BYTE))"
      using "2.prems"(2,3) True by (intro covers_step) auto
    have n: "nat (ri + 1) - a = Suc (nat ri - a)" using sz(2) by (simp add: nat_add_distrib Suc_diff_le nat_le_iff le_nat_iff)
    from True have *: "\<not> \<not> offset + ucast sz < vs" "m ! nat (ri + 1) \<noteq> 0xff" by simp_all
    have eq: "extend_replication m vs offset n (ri + 1)
        (sz + ucast (min (vs - offset - ucast sz) FILE_BYTES_PER_MAP_BYTE)) = (ri', sz')"
      using "2.prems"(1) True by simp
    note ih = "2.IH" [OF * eq c "2.prems"(3)]
    have "covers vs a ri' offset sz' \<and> ri + 1 \<le> ri' \<and> nat ri' - a \<le> nat (ri + 1) - a + n
        \<and> (\<forall>j. ri + 1 < j \<and> j \<le> ri' \<longrightarrow> m ! nat j \<noteq> 0xff)"
      by (rule ih) (use "2.prems"(4) n in simp)
    moreover have "m ! nat j \<noteq> 0xff" if "ri < j" "j \<le> ri'" "\<forall>j. ri + 1 < j \<and> j \<le> ri' \<longrightarrow> m ! nat j \<noteq> 0xff" for j
      using that *(2) by (cases "j = ri + 1") auto
    ultimately show ?thesis using n by auto
  next
    case False
    then have "ri' = ri" "sz' = sz" using "2.prems"(1) by (auto split: if_splits)
    then show ?thesis using "2.prems"(2) by auto
  qed
qed auto

lemma replication_range_covers:
  assumes wf: "image_wf i" and ri: "0 \<le> ri" "ri < IMGSIZE_TO_MAPBYTES (virtualFilesize i)"
    and eq: "replication_range cfg m (virtualFilesize i) ri = (offset, ri', sz)"
  shows "covers (virtualFilesize i) (nat ri) ri' offset sz" "ri \<le> ri'" "unat sz + 4096 \<le> 2 ^ 32"
    "\<forall>j. ri < j \<and> j \<le> ri' \<longrightarrow> m ! nat j \<noteq> 0xff" "backgroundReplication cfg \<noteq> BGR_FULL \<Longrightarrow> ri' = ri"
proof -
  let ?vs = "virtualFilesize i"
  have vs: "unat ?vs < 2 ^ 45" by (rule image_wf_size(2) [OF wf])
  have lt: "ri < int ((unat ?vs + 32767) div 32768)" using ri mapbytes_eq [OF vs] by simp
  then have r32: "32768 * nat ri < unat ?vs" using ri(1) by simp
  have off: "unat (word_of_int ri * FILE_BYTES_PER_MAP_BYTE) = 32768 * nat ri"
  proof -
    have "word_of_int ri * FILE_BYTES_PER_MAP_BYTE = (word_of_nat (32768 * nat ri) :: u64)"
      using ri(1) by (simp add: FILE_BYTES_PER_MAP_BYTE_def mult.commute)
    moreover have "unat (word_of_nat (32768 * nat ri) :: u64) = 32768 * nat ri"
      unfolding unsigned_of_nat of_nat_id using r32 vs by (intro take_bit_nat_eq_self) simp
    ultimately show ?thesis by (simp only:)
  qed
  define o1 :: u64 where "o1 = word_of_int ri * FILE_BYTES_PER_MAP_BYTE"
  define s1 :: u32 where "s1 = ucast (min (?vs - o1) FILE_BYTES_PER_MAP_BYTE)"
  have "o1 \<le> ?vs" using off r32 by (simp add: o1_def word_le_nat_alt)
  then have "unat (min (?vs - o1) FILE_BYTES_PER_MAP_BYTE) = min (unat ?vs - 32768 * nat ri) 32768"
    using off by (simp add: min_def word_le_nat_alt FILE_BYTES_PER_MAP_BYTE_def unat_sub o1_def)
  then have "unat s1 = min (unat ?vs - 32768 * nat ri) 32768"
    by (simp add: s1_def unsigned_ucast_eq take_bit_nat_eq_self)
  then have c: "covers ?vs (nat ri) ri o1 s1"
    using off ri(1) lt r32 add_min_diff [of "32768 * nat ri" "unat ?vs" 32768]
    by (auto simp: covers_def o1_def add.commute)
  have ex: "extend_replication m ?vs o1 (replication_extra cfg) ri s1 = (ri', sz)" "offset = o1"
    using eq unfolding replication_range_def Let_def o1_def [symmetric] s1_def [symmetric] by auto
  have "32768 * (unat (minRequestSize cfg) div 32768) \<le> unat (minRequestSize cfg)" by simp
  also have "\<dots> < 2 ^ 32" by (rule unat_less_32)
  finally have room: "32768 * (unat (minRequestSize cfg) div 32768) < 2 ^ 32" .
  then have room': "32768 * (nat ri - nat ri + 1 + replication_extra cfg) + 32768 \<le> 2 ^ 32"
    by (auto simp: replication_extra_def)
  note r = extend_replication_covers [OF ex(1) c vs]
  then show "covers ?vs (nat ri) ri' offset sz" "ri \<le> ri'"  "\<forall>j. ri < j \<and> j \<le> ri' \<longrightarrow> m ! nat j \<noteq> 0xff"
    using room' ex(2) by auto
  then have "32768 * nat ri + unat sz \<le> 32768 * (nat ri' + 1)"
    unfolding covers_def by (metis min.cobounded2)
  moreover have "nat ri' \<le> nat ri + replication_extra cfg" using r room' by auto
  ultimately show "unat sz + 4096 \<le> 2 ^ 32" using room' by simp
  show "backgroundReplication cfg \<noteq> BGR_FULL \<Longrightarrow> ri' = ri" using ex(1) by (simp add: replication_extra_def)
qed

section \<open>One replication request\<close>

text \<open>The state that the loop keeps: the index is a map index, one past the map at most, or -1.\<close>

definition repl_inv :: "uplink_state \<Rightarrow> bool" where
  "repl_inv st \<longleftrightarrow> uplink_inv st \<and> 0 < virtualFilesize (img st) \<and> -1 \<le> nextReplicationIndex (ul st)
     \<and> nextReplicationIndex (ul st) \<le> IMGSIZE_TO_MAPBYTES (virtualFilesize (img st))"

lemma repl_inv_mapbytes:
  assumes "repl_inv st"
  shows "0 < IMGSIZE_TO_MAPBYTES (virtualFilesize (img st))"
proof -
  have "unat (virtualFilesize (img st)) < 2 ^ 45" 
    using assms image_wf_size(2) by (simp add: repl_inv_def uplink_inv_def del: power_numeral)
  moreover have "0 < unat (virtualFilesize (img st))"
    using assms by (simp add: repl_inv_def word_less_nat_alt unat_gt_0)
  ultimately show ?thesis by (simp add: mapbytes_eq)
qed

lemma findNext_cases:
  fixes rep :: bool
  assumes "0 < IMGSIZE_TO_MAPBYTES (virtualFilesize i)" "ref_cacheMap i = Some cache"
    and "0 \<le> ix" "ix \<le> IMGSIZE_TO_MAPBYTES (virtualFilesize i)"
  defines "mb \<equiv> IMGSIZE_TO_MAPBYTES (virtualFilesize i)" and "r \<equiv> findNextIncompleteHashBlock i rep ix"
  shows "r = -1 \<and> (\<forall>h. 0 \<le> h \<and> 512 * h < mb \<longrightarrow> \<not> mixed (cmap cache) rep mb h)
    \<or> 0 \<le> r \<and> r < mb \<and> kind_of (cmap cache) rep mb r \<noteq> Full \<and> (\<exists>h. 0 \<le> h \<and> 512 * h < mb \<and> mixed (cmap cache) rep mb h)"
proof -
  obtain hs where hs: "set hs = {h. 0 \<le> h \<and> 512 * h < mb}"
    "map (\<lambda>j. (MAP_INDEX_HASH_START ix + j) mod mb) [0 .. mb - 1] = concat (map (\<lambda>h. [512 * h .. hash_end mb h - 1]) hs)"
    using scan_order [of mb ix] assms by blast
  have "r = (case hash_scan (cmap cache) rep mb (-1) (concat (map (\<lambda>h. [512 * h .. hash_end mb h - 1]) hs)) of
      None \<Rightarrow> -1 | Some x \<Rightarrow> x)"
    unfolding r_def findNextIncompleteHashBlock_def Let_def assms(2) option.case mb_def [symmetric] hs(2) ..
  then show ?thesis
    using scan_blocks [of hs mb "-1" "cmap cache" rep] hs(1) by fastforce
qed

lemma replication_find_cases:
  assumes "0 < mb" "0 \<le> next"
  shows "replication_find m rep mb next e = -1 \<and> (\<forall>j. next \<le> j \<and> j < e \<longrightarrow> m ! nat (j mod mb) = 0xff \<or> (j mod mb = mb - 1 \<and> rep))
    \<or> (let r = replication_find m rep mb next e in 0 \<le> r \<and> r < mb \<and> m ! nat r \<noteq> 0xff \<and> (r \<noteq> mb - 1 \<or> \<not> rep))"
proof (cases "find (\<lambda>j. let i = j mod mb in m ! nat i \<noteq> 0xff \<and> (i \<noteq> mb - 1 \<or> \<not> rep)) [next .. e - 1]")
  case None
  then have "replication_find m rep mb next e = -1" by (simp add: replication_find_def)
  then show ?thesis using None by (auto simp: find_None_iff Let_def)
next
  case (Some j)
  then have "m ! nat (j mod mb) \<noteq> 0xff \<and> (j mod mb \<noteq> mb - 1 \<or> \<not> rep)" by (auto simp: find_Some_iff Let_def)
  then show ?thesis using Some assms(1) by (simp add: replication_find_def Let_def)
qed

lemma replication_end_bounds:
  assumes "0 \<le> next" "next \<le> mb" "backgroundReplication cfg \<noteq> BGR_FULL"
  shows "0 \<le> replication_end cfg mb next" "replication_end cfg mb next \<le> mb"
  using assms by (auto simp: replication_end_def Let_def hash_start_eq MAP_BYTES_PER_HASH_BLOCK_def)

lemma kind_not_full: "kind_of m rep mb i \<noteq> Full \<Longrightarrow> m ! nat i \<noteq> 0xff"
  by (auto simp: kind_of_def Let_def split: if_splits)

text \<open>What a request without a client changes.\<close>

lemma markRequestUnsent_frame2 [simp]:
  "sends (markRequestUnsent h st) = sends st" "nextReplicationIndex (ul (markRequestUnsent h st)) = nextReplicationIndex (ul st)"
  "replicatedLastBlock (ul (markRequestUnsent h st)) = replicatedLastBlock (ul st)"
  by (simp_all add: markRequestUnsent_def split: option.splits)

lemma requestBlock_frame2:
  "requestBlock req h ok st = (r, st') \<Longrightarrow> ul st' = ul st \<and> img st' = img st \<and> (\<exists>new. sends st' = sends st @ new
     \<and> (new = [] \<or> (\<exists>hp. new = [block_request (req_start req) (ucast (req_end req - req_start req)) (req_handle req) hp])))"
  by (auto simp: requestBlock_def split: if_splits)

lemma send_None_frame:
  fixes req :: req_t and st :: uplink_state and h :: u8 and ok1 ok2 :: bool
  defines "st' \<equiv> request_send True req None h ok1 ok2 st"
  shows "virtualFilesize (img st') = virtualFilesize (img st)" "ref_cacheMap (img st') = ref_cacheMap (img st)"
    "nextReplicationIndex (ul st') = nextReplicationIndex (ul st)" "queueId (ul st') = queueId (ul st)"
    "replicatedLastBlock (ul st') = replicatedLastBlock (ul st)"
    "\<exists>new. sends st' = sends st @ new \<and> (new = [] \<or>
       (\<exists>hp. new = [block_request (req_start req) (ucast (req_end req - req_start req)) (req_handle req) hp]))"
proof -
  obtain r st1 where r: "requestBlock req h ok1 st = (r, st1)" by force
  note f = requestBlock_frame2 [OF r]
  show "virtualFilesize (img st') = virtualFilesize (img st)" "ref_cacheMap (img st') = ref_cacheMap (img st)"
    "nextReplicationIndex (ul st') = nextReplicationIndex (ul st)" "queueId (ul st') = queueId (ul st)"
    "replicatedLastBlock (ul st') = replicatedLastBlock (ul st)"
    using f by (simp_all add: st'_def request_send_def r Let_def)
  show "\<exists>new. sends st' = sends st @ new \<and> (new = [] \<or>
       (\<exists>hp. new = [block_request (req_start req) (ucast (req_end req - req_start req)) (req_handle req) hp]))"
    using f by (simp add: st'_def request_send_def r Let_def)
qed

lemma attach_None:
  "request_attach None start end rs re h st = Some (st1, i, isNew) \<Longrightarrow>
     virtualFilesize (img st1) = virtualFilesize (img st) \<and> ref_cacheMap (img st1) = ref_cacheMap (img st)
     \<and> nextReplicationIndex (ul st1) = nextReplicationIndex (ul st) \<and> sends st1 = sends st
     \<and> replicatedLastBlock (ul st1) = replicatedLastBlock (ul st) \<and> queueId (ul st1) \<in> {queueId (ul st), queueId (ul st) + 1}"
  by (auto simp: request_attach_def Let_def split: if_splits option.splits)

lemma requestInternal_None:
  assumes "uplink_requestInternal cfg None start len h ok1 ok2 st = (r, st')"
  shows "virtualFilesize (img st') = virtualFilesize (img st)" "ref_cacheMap (img st') = ref_cacheMap (img st)"
    "nextReplicationIndex (ul st') = nextReplicationIndex (ul st)"
    "replicatedLastBlock (ul st') = replicatedLastBlock (ul st)"
    "queueId (ul st') \<in> {queueId (ul st), queueId (ul st) + 1}"
    "\<exists>new. sends st' = sends st @ new \<and> (new = [] \<or>
       (\<exists>hd hp. new = [block_request (block_floor start) (ucast (block_ceil (start + ucast len) - block_floor start)) hd hp]))"
proof -
  have "st' = st \<or> (\<exists>st1 i isNew hd. request_attach None start (start + ucast len) (block_floor start)
        (block_ceil (start + ucast len)) (request_hops cfg None h) st = Some (st1, i, isNew)
      \<and> (st' = st1 \<or> st' = request_send True \<lparr>req_start = block_floor start, req_end = block_ceil (start + ucast len),
            req_handle = hd\<rparr> None (request_hops cfg None h) ok1 ok2 st1))"
    using assms
    by (auto simp: uplink_requestInternal_def request_enqueue_def request_prefetch_def request_addClient_def Let_def
        split: if_splits option.splits)
  then consider "st' = st"
    | st1 i isNew where "request_attach None start (start + ucast len) (block_floor start)
        (block_ceil (start + ucast len)) (request_hops cfg None h) st = Some (st1, i, isNew)" "st' = st1"
    | st1 i isNew hd where "request_attach None start (start + ucast len) (block_floor start)
        (block_ceil (start + ucast len)) (request_hops cfg None h) st = Some (st1, i, isNew)"
      "st' = request_send True \<lparr>req_start = block_floor start, req_end = block_ceil (start + ucast len),
            req_handle = hd\<rparr> None (request_hops cfg None h) ok1 ok2 st1"
    by blast
  then have "virtualFilesize (img st') = virtualFilesize (img st) \<and> ref_cacheMap (img st') = ref_cacheMap (img st)
    \<and> nextReplicationIndex (ul st') = nextReplicationIndex (ul st)
    \<and> replicatedLastBlock (ul st') = replicatedLastBlock (ul st)
    \<and> queueId (ul st') \<in> {queueId (ul st), queueId (ul st) + 1}
    \<and> (\<exists>new. sends st' = sends st @ new \<and> (new = [] \<or>
       (\<exists>hd hp. new = [block_request (block_floor start) (ucast (block_ceil (start + ucast len) - block_floor start)) hd hp])))"
  proof cases
    case 3
    note a = attach_None [OF 3(1)]
    show ?thesis
      using a send_None_frame [of "\<lparr>req_start = block_floor start, req_end = block_ceil (start + ucast len), req_handle = hd\<rparr>"
          "request_hops cfg None h" ok1 ok2 st1] unfolding 3(2) by auto
  qed (auto dest: attach_None)
  then show "virtualFilesize (img st') = virtualFilesize (img st)" "ref_cacheMap (img st') = ref_cacheMap (img st)"
    "nextReplicationIndex (ul st') = nextReplicationIndex (ul st)"
    "replicatedLastBlock (ul st') = replicatedLastBlock (ul st)"
    "queueId (ul st') \<in> {queueId (ul st), queueId (ul st) + 1}"
    "\<exists>new. sends st' = sends st @ new \<and> (new = [] \<or>
       (\<exists>hd hp. new = [block_request (block_floor start) (ucast (block_ceil (start + ucast len) - block_floor start)) hd hp]))"
    by blast+
qed

text \<open>A request for a run of map bytes, none of which is complete, inside the image.\<close>

definition repl_request :: "u8 list \<Rightarrow> u64 \<Rightarrow> dnbd3_request_t \<Rightarrow> bool" where
  "repl_request m vs rq \<longleftrightarrow>
     (\<exists>k ri offset sz hd hp. rq = block_request offset sz hd hp \<and> covers vs k ri offset sz
        \<and> (\<forall>j. int k \<le> j \<and> j \<le> ri \<longrightarrow> m ! nat j \<noteq> 0xff))"

lemma covers_le: "covers vs a ri offset sz \<Longrightarrow> unat offset + unat sz \<le> unat vs"
  unfolding covers_def by linarith

lemma covers_aligned:
  assumes c: "covers vs a ri offset sz" and vs: "unat vs < 2 ^ 45" "unat vs mod 4096 = 0"
  shows "block_floor offset = offset" "block_ceil (offset + ucast sz) = offset + ucast sz"
    "ucast (block_ceil (offset + ucast sz) - block_floor offset) = sz"
proof -
  have off: "unat offset = 32768 * a" and sum: "unat offset + unat sz = min (unat vs) (32768 * (nat ri + 1))"
    using c by (simp_all add: covers_def)
  have le: "unat offset + unat sz \<le> unat vs" unfolding sum by simp
  then have fin: "unat (offset + ucast sz) = unat offset + unat sz"
    using vs(1) by (subst unat_add_no_wrap) simp_all
  have "32768 * a div 4096 * 4096 = 32768 * a" by simp
  then show 1: "block_floor offset = offset"
    by (intro word_unat_eq_iff [THEN iffD2]) (simp only: unat_block_floor off)
  have "4096 dvd 32768 * (nat ri + 1)" by (rule dvd_mult2) simp
  then have "4096 dvd unat offset + unat sz"
    unfolding sum using vs(2) by (simp add: min_def mod_eq_0_iff_dvd)
  then obtain q where "unat offset + unat sz = 4096 * q" by (rule dvdE)
  then have "(unat offset + unat sz + 4095) div 4096 * 4096 = unat offset + unat sz" by simp
  then show 2: "block_ceil (offset + ucast sz) = offset + ucast sz"
    using le vs(1) by (intro word_unat_eq_iff [THEN iffD2]) (simp add: unat_block_ceil fin)
  show "ucast (block_ceil (offset + ucast sz) - block_floor offset) = sz"
    unfolding 1 2 by (simp add: word_unat_eq_iff unsigned_ucast_eq take_bit_word_eq_self)
qed

text \<open>The map byte that one iteration picks is incomplete; in full mode none is picked only if all are complete.\<close>

definition repl_pick :: "config \<Rightarrow> u8 list \<Rightarrow> uplink_state \<Rightarrow> int" where
  "repl_pick cfg m st =
     (let mb = IMGSIZE_TO_MAPBYTES (virtualFilesize (img st)); e = replication_end cfg mb (nextReplicationIndex (ul st));
          r = replication_find m (replicatedLastBlock (ul st)) mb (nextReplicationIndex (ul st)) e
      in if r = -1 \<and> backgroundReplication cfg = BGR_HASHBLOCK
         then findNextIncompleteHashBlock (img st) (replicatedLastBlock (ul st)) e else r)"

definition all_replicated :: "u8 list \<Rightarrow> bool \<Rightarrow> int \<Rightarrow> bool" where
  "all_replicated m rep mb \<longleftrightarrow> (\<forall>i. 0 \<le> i \<and> i < mb \<longrightarrow> m ! nat i = 0xff \<or> (i = mb - 1 \<and> rep))"

lemma window_covers:
  assumes "0 < mb" "0 \<le> i" "i < mb" "0 \<le> next" "next \<le> (mb :: int)"
  shows "\<exists>j. next \<le> j \<and> j < next + mb \<and> j mod mb = i"
proof (cases "next \<le> i")
  case True
  then show ?thesis using assms by (intro exI [of _ i]) simp
next
  case False
  have "(i + mb) mod mb = i" using assms by simp
  then show ?thesis using False assms by (intro exI [of _ "i + mb"]) simp
qed

lemma repl_pick_cases:
  fixes cfg :: config
  assumes inv: "repl_inv st" "nextReplicationIndex (ul st) \<noteq> -1" "ref_cacheMap (img st) = Some cache"
  defines "mb \<equiv> IMGSIZE_TO_MAPBYTES (virtualFilesize (img st))" and "r \<equiv> repl_pick cfg (cmap cache) st"
  shows "r = -1 \<and> (backgroundReplication cfg = BGR_FULL \<longrightarrow> all_replicated (cmap cache) (replicatedLastBlock (ul st)) mb)
    \<or> 0 \<le> r \<and> r < mb \<and> cmap cache ! nat r \<noteq> 0xff"
proof -
  let ?next = "nextReplicationIndex (ul st)" and ?rep = "replicatedLastBlock (ul st)"
  have b: "0 \<le> ?next" "?next \<le> mb" "0 < mb"
    using inv repl_inv_mapbytes [OF inv(1)] by (auto simp: repl_inv_def mb_def)
  let ?e = "replication_end cfg mb ?next"
  let ?f = "replication_find (cmap cache) ?rep mb ?next ?e"
  note cases = replication_find_cases [OF b(3,1), of "cmap cache" ?rep ?e]
  show ?thesis
  proof (cases "?f = -1")
    case False
    then have "r = ?f" by (simp add: r_def repl_pick_def Let_def mb_def [symmetric])
    then show ?thesis using False cases by (auto simp: Let_def)
  next
    case none: True
    show ?thesis
    proof (cases "backgroundReplication cfg = BGR_HASHBLOCK")
      case True
      then have e: "0 \<le> ?e" "?e \<le> mb" using replication_end_bounds [OF b(1,2), of cfg] by simp_all
      have "r = findNextIncompleteHashBlock (img st) ?rep ?e"
        using True none by (simp add: r_def repl_pick_def Let_def mb_def [symmetric])
      then show ?thesis
        using findNext_cases [of "img st" cache ?e ?rep] inv(3) b(3) e True kind_not_full by (auto simp: mb_def [symmetric])
    next
      case False
      then have "r = -1" using none by (simp add: r_def repl_pick_def Let_def mb_def [symmetric])
      moreover have "all_replicated (cmap cache) ?rep mb" if full: "backgroundReplication cfg = BGR_FULL"
        unfolding all_replicated_def
      proof (intro allI impI)
        fix i assume "0 \<le> i \<and> i < mb"
        then obtain j where "?next \<le> j" "j < ?next + mb" "j mod mb = i"
          using window_covers [of mb i ?next] b by blast
        then show "cmap cache ! nat i = 0xff \<or> (i = mb - 1 \<and> ?rep)"
          using cases none full by (auto simp: replication_end_def Let_def)
      qed
      ultimately show ?thesis by blast
    qed
  qed
qed

text \<open>One iteration, in terms of the picked byte.\<close>

lemma replicate_step_request:
  assumes "replicate_step cfg cache ok st = (res, st')" "\<not> UPLINK_MAX_QUEUE - queueLen (ul st) < 10"
    and "repl_pick cfg (cmap cache) st \<noteq> -1"
    and "replication_range cfg (cmap cache) (virtualFilesize (img st)) (repl_pick cfg (cmap cache) st) = (offset, ri, sz)"
    and "uplink_requestInternal cfg None offset sz 0 ok True (st\<lparr>ul := (ul st)\<lparr>queueId := queueId (ul st) + 1\<rparr>\<rparr>) = (sent, st1)"
  defines "rep \<equiv> replicatedLastBlock (ul st1) \<or> ri = IMGSIZE_TO_MAPBYTES (virtualFilesize (img st)) - 1"
  shows "\<not> sent \<and> res = RFail \<and> st' = st1
    \<or> (\<exists>nxt. st' = st1\<lparr>ul := (ul st1)\<lparr>replicatedLastBlock := rep, nextReplicationIndex := nxt\<rparr>\<rparr>
         \<and> (res = RNext \<and> nxt = ri + 1 \<or> backgroundReplication cfg = BGR_HASHBLOCK
              \<and> nxt = findNextIncompleteHashBlock (img st1) rep (ri + 1) \<and> (res = RNext \<longrightarrow> nxt \<noteq> -1)))"
  using assms(1-3) assms(4,5) [unfolded repl_pick_def Let_def]
  by (simp add: replicate_step_def repl_pick_def Let_def rep_def split: if_splits) auto

lemma replicate_step_advance:
  assumes fin: "\<not> sent \<and> res = RFail \<and> st' = st1
    \<or> (\<exists>nxt. st' = st1\<lparr>ul := (ul st1)\<lparr>replicatedLastBlock := rep, nextReplicationIndex := nxt\<rparr>\<rparr>
         \<and> (res = RNext \<and> nxt = ri + 1 \<or> backgroundReplication cfg = BGR_HASHBLOCK
              \<and> nxt = findNextIncompleteHashBlock (img st1) rep (ri + 1) \<and> (res = RNext \<longrightarrow> nxt \<noteq> -1)))"
    and inv: "repl_inv st1" "nextReplicationIndex (ul st1) \<noteq> -1" "ref_cacheMap (img st1) = Some cache"
    and ri: "0 \<le> ri" "ri < IMGSIZE_TO_MAPBYTES (virtualFilesize (img st1))"
  shows "repl_inv st' \<and> img st' = img st1 \<and> sends st' = sends st1 \<and> queueId (ul st') = queueId (ul st1)
    \<and> (res = RNext \<longrightarrow> nextReplicationIndex (ul st') \<noteq> -1)
    \<and> (backgroundReplication cfg = BGR_FULL \<longrightarrow> nextReplicationIndex (ul st') \<noteq> -1)"
  using fin
proof (elim disjE conjE exE)
  fix nxt
  assume hb: "backgroundReplication cfg = BGR_HASHBLOCK" and nxt: "nxt = findNextIncompleteHashBlock (img st1) rep (ri + 1)"
    and st': "st' = st1\<lparr>ul := (ul st1)\<lparr>replicatedLastBlock := rep, nextReplicationIndex := nxt\<rparr>\<rparr>" and "res = RNext \<longrightarrow> nxt \<noteq> -1"
  moreover have "-1 \<le> nxt \<and> nxt < IMGSIZE_TO_MAPBYTES (virtualFilesize (img st1))"
    using findNext_cases [OF repl_inv_mapbytes [OF inv(1)] inv(3), of "ri + 1" rep] ri nxt by auto
  ultimately show ?thesis using inv(1) by (auto simp: repl_inv_def uplink_inv_def)
qed (use inv ri in \<open>auto simp: repl_inv_def uplink_inv_def\<close>)

lemma replicate_step_cases:
  assumes step: "replicate_step cfg cache ok st = (res, st')"
    and inv: "repl_inv st" "nextReplicationIndex (ul st) \<noteq> -1" "ref_cacheMap (img st) = Some cache"
    and room: "unat (queueId (ul st)) + 4 < 2 ^ 64"
  defines "vs \<equiv> virtualFilesize (img st)" and "m \<equiv> cmap cache"
  shows "repl_inv st' \<and> ref_cacheMap (img st') = Some cache \<and> virtualFilesize (img st') = vs
    \<and> unat (queueId (ul st')) \<le> unat (queueId (ul st)) + 2 \<and> (res = RNext \<longrightarrow> nextReplicationIndex (ul st') \<noteq> -1)
    \<and> (\<exists>new. sends st' = sends st @ new \<and> list_all (repl_request m vs) new)
    \<and> (backgroundReplication cfg = BGR_FULL \<and> nextReplicationIndex (ul st') = -1 \<longrightarrow>
         all_replicated m (replicatedLastBlock (ul st')) (IMGSIZE_TO_MAPBYTES vs))
    \<and> (ustep cfg P)\<^sup>*\<^sup>* (st, acc) (st', acc)"
proof -
  let ?mb = "IMGSIZE_TO_MAPBYTES vs"
  define r where "r = repl_pick cfg m st"
  note pick = repl_pick_cases [OF inv, of cfg, folded vs_def m_def, folded r_def]
  have b: "0 \<le> nextReplicationIndex (ul st)" "nextReplicationIndex (ul st) \<le> ?mb" "0 < ?mb"
    using inv repl_inv_mapbytes [OF inv(1)] by (auto simp: repl_inv_def vs_def)
  have wf: "image_wf (img st)" "uplink_inv st" using inv(1) by (auto simp: repl_inv_def uplink_inv_def)
  show ?thesis
  proof (cases "UPLINK_MAX_QUEUE - queueLen (ul st) < 10 \<or> r = -1")
    case True
    then have "st' = st \<and> res = RBreak \<or> r = -1 \<and> res = RBreak \<and> st' = st\<lparr>ul := (ul st)\<lparr>nextReplicationIndex := -1\<rparr>\<rparr>"
      using step by (auto simp: replicate_step_def Let_def r_def repl_pick_def m_def vs_def split: if_splits)
    moreover from this have "quiet st st'" by (auto simp: quiet_def)
    then have "(ustep cfg P)\<^sup>*\<^sup>* (st, acc) (st', acc)" by (blast intro: ustep.internal)
    ultimately show ?thesis
      using inv pick b by (auto simp: repl_inv_def uplink_inv_def vs_def)
  next
    case False
    then have r: "0 \<le> r" "r < ?mb" "m ! nat r \<noteq> 0xff" using pick by auto
    obtain offset ri sz where rg: "replication_range cfg m vs r = (offset, ri, sz)" by (metis prod_cases3)
    note cov = replication_range_covers [OF wf(1) r(1) _ rg [unfolded vs_def], folded vs_def, OF r(2)]
    define st0 where "st0 = st\<lparr>ul := (ul st)\<lparr>queueId := queueId (ul st) + 1\<rparr>\<rparr>"
    obtain sent st1 where rq: "uplink_requestInternal cfg None offset sz 0 ok True st0 = (sent, st1)" by force
    have id0: "unat (queueId (ul st0)) = unat (queueId (ul st)) + 1"
      using room by (simp add: st0_def unat_add_no_wrap)
    have le: "unat offset + unat sz \<le> unat vs" using cov(1) by (rule covers_le)
    have inv0: "uplink_inv st0"
      using wf(2) id0 by (auto simp: uplink_inv_def st0_def queue_ok_def list_all_iff word_le_nat_alt)
    have pre: "request_pre st0 offset sz"
      using le cov(3) room id0 by (simp add: request_pre_def st0_def vs_def)
    note inv1 = inv_requestInternal [OF inv0 pre rq]
    note fr = requestInternal_None [OF rq]
    have vs45: "unat vs < 2 ^ 45" "unat vs mod 4096 = 0" using wf(1) by (simp_all add: image_wf_def vs_def)
    have req: "repl_request m vs (block_request offset sz hd hp)" for hd hp
      unfolding repl_request_def
    proof (intro exI conjI)
      show "covers vs (nat r) ri offset sz" by (rule cov(1))
      show "\<forall>j. int (nat r) \<le> j \<and> j \<le> ri \<longrightarrow> m ! nat j \<noteq> 0xff"
        using cov(4) r by (metis int_nat_eq nat_int order_le_less)
    qed simp
    have new: "\<exists>new. sends st1 = sends st @ new \<and> list_all (repl_request m vs) new"
      using fr(6) [unfolded covers_aligned(3) [OF cov(1) vs45], unfolded covers_aligned(1) [OF cov(1) vs45]] req
      by (auto simp: st0_def)
    have id1: "unat (queueId (ul st1)) \<le> unat (queueId (ul st)) + 2"
      using fr(5) id0 room by (auto simp: unat_add_no_wrap)
    have ri: "0 \<le> ri" "ri < ?mb" using cov(1) r(1) mapbytes_eq [OF vs45(1)] by (auto simp: covers_def)
    have i1: "repl_inv st1" "ref_cacheMap (img st1) = Some cache" "virtualFilesize (img st1) = vs"
      "nextReplicationIndex (ul st1) \<noteq> -1"
      using inv1 fr inv b by (auto simp: repl_inv_def st0_def vs_def)
    have fin: "\<not> UPLINK_MAX_QUEUE - queueLen (ul st) < 10" "repl_pick cfg (cmap cache) st \<noteq> -1"
      "replication_range cfg (cmap cache) (virtualFilesize (img st)) (repl_pick cfg (cmap cache) st) = (offset, ri, sz)"
      using False rg by (simp_all add: r_def m_def vs_def)
    note last = replicate_step_request [OF step fin rq [unfolded st0_def]]
    have "quiet st st0" using id0 by (simp add: quiet_def st0_def word_le_nat_alt)
    then have "(ustep cfg P)\<^sup>*\<^sup>* (st, acc) (st0, acc)" by (blast intro: ustep.internal)
    also have "(ustep cfg P)\<^sup>*\<^sup>* (st0, acc) (st1, acc)"
      using requestInternal_usteps [OF rq pre, of P acc] by (simp add: accepted_def split: if_splits)
    also have "quiet st1 st'" using last by (auto simp: quiet_def)
    then have "(ustep cfg P)\<^sup>*\<^sup>* (st1, acc) (st', acc)" by (blast intro: ustep.internal)
    finally have steps: "(ustep cfg P)\<^sup>*\<^sup>* (st, acc) (st', acc)" .
    show ?thesis
      using replicate_step_advance [OF last i1(1,4,2) ri(1)] ri(2) i1 new id1 steps by auto
  qed
qed

text \<open>The loop: any number of iterations keeps the invariant and sends only useful requests.\<close>

lemma replicate_loop_sound:
  assumes "replicate_loop cfg cache n oks st = (r, st')" "repl_inv st" "nextReplicationIndex (ul st) \<noteq> -1"
    and "ref_cacheMap (img st) = Some cache" "unat (queueId (ul st)) + 2 * n + 4 < 2 ^ 64"
  shows "repl_inv st' \<and> virtualFilesize (img st') = virtualFilesize (img st)
    \<and> (\<exists>new. sends st' = sends st @ new \<and> list_all (repl_request (cmap cache) (virtualFilesize (img st))) new)
    \<and> (backgroundReplication cfg = BGR_FULL \<and> nextReplicationIndex (ul st') = -1 \<longrightarrow>
         all_replicated (cmap cache) (replicatedLastBlock (ul st')) (IMGSIZE_TO_MAPBYTES (virtualFilesize (img st))))
    \<and> (ustep cfg P)\<^sup>*\<^sup>* (st, acc) (st', acc) \<and> unat (queueId (ul st')) \<le> unat (queueId (ul st)) + 2 * n"
  using assms
proof (induction cfg cache n oks st arbitrary: r st' rule: replicate_loop.induct)
  case (2 cfg cache n oks st)
  obtain res st1 where step: "replicate_step cfg cache (oks \<noteq> [] \<and> hd oks) st = (res, st1)" by force
  have "unat (queueId (ul st)) + 4 < 2 ^ 64" using "2.prems"(5) by simp
  note s = replicate_step_cases [OF step "2.prems"(2-4) this, of P acc]
  show ?case
  proof (cases res)
    case RNext
    then have loop: "replicate_loop cfg cache n (tl oks) st1 = (r, st')" using "2.prems"(1) step by simp
    have id1: "unat (queueId (ul st1)) \<le> unat (queueId (ul st)) + 2" using s by blast
    then have "unat (queueId (ul st1)) + 2 * n + 4 < 2 ^ 64" using "2.prems"(5) by simp
    moreover obtain new1 where n1: "sends st1 = sends st @ new1" "list_all (repl_request (cmap cache) (virtualFilesize (img st))) new1"
      using s by blast
    ultimately have ih: "repl_inv st' \<and> virtualFilesize (img st') = virtualFilesize (img st1)
      \<and> (\<exists>new. sends st' = sends st1 @ new \<and> list_all (repl_request (cmap cache) (virtualFilesize (img st1))) new)
      \<and> (backgroundReplication cfg = BGR_FULL \<and> nextReplicationIndex (ul st') = -1 \<longrightarrow>
         all_replicated (cmap cache) (replicatedLastBlock (ul st')) (IMGSIZE_TO_MAPBYTES (virtualFilesize (img st1))))
      \<and> (ustep cfg P)\<^sup>*\<^sup>* (st1, acc) (st', acc) \<and> unat (queueId (ul st')) \<le> unat (queueId (ul st1)) + 2 * n"
      using "2.IH" [OF step [symmetric] RNext loop] s RNext by blast
    then obtain new2 where n2: "sends st' = sends st1 @ new2" "list_all (repl_request (cmap cache) (virtualFilesize (img st1))) new2"
      by blast
    have "virtualFilesize (img st1) = virtualFilesize (img st)" using s by blast
    then have "sends st' = sends st @ (new1 @ new2)"
      "list_all (repl_request (cmap cache) (virtualFilesize (img st))) (new1 @ new2)"
      using n1 n2 by simp_all
    moreover have "(ustep cfg P)\<^sup>*\<^sup>* (st, acc) (st', acc)" using ih s by (metis rtranclp_trans)
    moreover have "unat (queueId (ul st')) \<le> unat (queueId (ul st)) + 2 * Suc n"
    proof -
      have "unat (queueId (ul st')) \<le> unat (queueId (ul st1)) + 2 * n" using ih by blast
      then show ?thesis using id1 by simp
    qed
    ultimately show ?thesis using ih s by metis
  qed (use "2.prems"(1) step s in auto)
qed auto

lemma numWanted_le: "nat (numWantedReplicationRequests cfg u) \<le> nat (bgrWindowSize cfg)"
proof -
  have "wanted_loop k q \<le> max k 0" for k q by (induction k q rule: wanted_loop.induct) auto
  from this [of "min (bgrWindowSize cfg) (idleTime u + 1)" "queue u"] show ?thesis
    by (simp add: numWantedReplicationRequests_def Let_def) linarith
qed

section \<open>Properties\<close>

text \<open>
  C13: \<^verbatim>\<open>findNextIncompleteHashBlock\<close> gives up (-1) exactly when no hash block is mixed, that is, when every hash block
  is either still empty or already complete; otherwise it returns the index of a map byte inside the map that still
  lacks blocks.
\<close>

theorem findNextIncompleteHashBlock_correct:
  fixes rep :: bool
  assumes "image_wf i" "0 < virtualFilesize i" "ref_cacheMap i = Some cache"
    and "0 \<le> ix" "ix \<le> IMGSIZE_TO_MAPBYTES (virtualFilesize i)"
  defines "mb \<equiv> IMGSIZE_TO_MAPBYTES (virtualFilesize i)" and "r \<equiv> findNextIncompleteHashBlock i rep ix"
  shows "(r = -1 \<longleftrightarrow> (\<forall>h. 0 \<le> h \<and> 512 * h < mb \<longrightarrow> \<not> mixed (cmap cache) rep mb h))
    \<and> (r \<noteq> -1 \<longrightarrow> 0 \<le> r \<and> r < mb \<and> cmap cache ! nat r \<noteq> 0xff)"
proof -
  have "0 < unat (virtualFilesize i)" using assms(2) by (simp add: word_less_nat_alt unat_gt_0)
  then have "0 < IMGSIZE_TO_MAPBYTES (virtualFilesize i)"
    using mapbytes_eq [OF image_wf_size(2) [OF assms(1)]] by simp
  from findNext_cases [OF this assms(3-5), of rep] show ?thesis
    unfolding mb_def [symmetric] r_def [symmetric] using kind_not_full by auto
qed

theorem findNextIncompleteHashBlock_correct_witness:
  "findNextIncompleteHashBlock sample_image False 0 \<noteq> -1"
proof -
  have mb: "IMGSIZE_TO_MAPBYTES (virtualFilesize sample_image) = 2" by (simp add: mapbytes_eq)
  have "mixed [15, 0] False 2 0"
    by (auto simp: mixed_def uniform_def hash_end_def kind_of_def Let_def intro!: bexI [of _ "0 :: int"])
  then show ?thesis
    using findNextIncompleteHashBlock_correct [of sample_image "\<lparr>dirty = False, unchanged = False, cmap = [15, 0]\<rparr>" 0 False] mb
    by force
qed

text \<open>
  C14: The comment above \<^verbatim>\<open>findNextIncompleteHashBlock\<close> promises the beginning of a hash block that is neither completely
  empty nor completely replicated. The state of the previous hash block is only reset after the test for a partly set
  byte, so that an empty hash block is returned when the one behind it begins with a partly set byte.
\<close>

theorem empty_hash_block_returned:
  assumes cache: "ref_cacheMap i = Some cache"
    and mb: "514 \<le> IMGSIZE_TO_MAPBYTES (virtualFilesize i)"
    and empty: "\<forall>j \<in> {0 ..< 512}. cmap cache ! nat j = 0" and part: "cmap cache ! 512 \<notin> {0, 0xff}"
  shows "findNextIncompleteHashBlock i rep 0 = 0
    \<and> uniform (cmap cache) rep (IMGSIZE_TO_MAPBYTES (virtualFilesize i)) 0 Empty"
proof -
  let ?mb = "IMGSIZE_TO_MAPBYTES (virtualFilesize i)" and ?m = "cmap cache"
  have k: "\<forall>j \<in> {0 ..< 512}. kind_of ?m rep ?mb j = Empty"
    using empty mb by (auto simp: kind_of_def Let_def)
  have p: "kind_of ?m rep ?mb 512 = Partial" using part mb by (simp add: kind_of_def Let_def)
  have "map (\<lambda>j. (0 + j) mod ?mb) [0 .. ?mb - 1] = [0 .. ?mb - 1]"
    using rotated_upto [of 0 ?mb] mb by simp
  also have "\<dots> = 0 # [1 .. 511] @ 512 # [513 .. ?mb - 1]"
  proof -
    have "[0 .. ?mb - 1] = 0 # [1 .. ?mb - 1]" using mb by (simp add: upto_rec1)
    also have "[1 .. ?mb - 1] = [1 .. 511] @ [512 .. ?mb - 1]" using upto_split1 [of 1 512 "?mb - 1"] mb by simp
    also have "[512 .. ?mb - 1] = 512 # [513 .. ?mb - 1]" using mb by (simp add: upto_rec1)
    finally show ?thesis .
  qed
  moreover have "hash_scan ?m rep ?mb 0 ([1 .. 511] @ 512 # [513 .. ?mb - 1]) = hash_scan ?m rep ?mb 0 (512 # [513 .. ?mb - 1])"
    using scan_rest_of_block [of 0 1 512 0 Empty ?m rep ?mb "512 # [513 .. ?mb - 1]"] k by auto
  ultimately have "findNextIncompleteHashBlock i rep 0 = 0"
    using k p cache by (simp add: findNextIncompleteHashBlock_def Let_def hash_start_eq hash_scan_Cons)
  moreover have "uniform ?m rep ?mb 0 Empty" using k mb by (simp add: uniform_def hash_end_def)
  ultimately show ?thesis by blast
qed

theorem empty_hash_block_returned_witness:
  "findNextIncompleteHashBlock (sample_image\<lparr>virtualFilesize := 33554432, ref_cacheMap :=
     Some \<lparr>dirty = False, unchanged = False, cmap = replicate 512 0 @ [1] @ replicate 511 0\<rparr>\<rparr>) False 0 = 0"
proof -
  let ?m = "replicate 512 (0 :: u8) @ [1] @ replicate 511 0"
  let ?c = "\<lparr>dirty = False, unchanged = False, cmap = ?m\<rparr>"
  let ?i = "sample_image\<lparr>virtualFilesize := 33554432, ref_cacheMap := Some ?c\<rparr>"
  have "?m ! k = 0" if "k < 512" for k using that by (simp only: nth_append length_replicate nth_replicate if_True)
  then have "\<forall>j \<in> {0 ..< 512}. cmap ?c ! nat j = 0" by (simp add: nat_less_iff)
  moreover have "cmap ?c ! 512 = 1" by (simp only: nth_append_length [of "replicate 512 (0 :: u8)", unfolded length_replicate]
        dnbd3_cache_map_t.simps append_Cons append_Nil)
  ultimately show ?thesis
    using empty_hash_block_returned [of ?i ?c False] by (simp add: mapbytes_eq)
qed

text \<open>
  C25: Background replication asks the upstream server only for ranges inside the image made of map bytes that are not
  complete, keeps the request queue well formed and the replication index inside the map; in full mode it stops looking
  (index -1) only when every map byte is complete, the last one excepted once it has been requested.
\<close>

theorem replication_requests_missing_blocks:
  assumes "repl_inv st" "ref_cacheMap (img st) = Some cache"
    and "unat (queueId (ul st)) + 2 * nat (bgrWindowSize cfg) + 4 < 2 ^ 64"
    and "sendReplicationRequest cfg oks st = (r, st')" "nextReplicationIndex (ul st) \<noteq> -1"
  shows "repl_inv st' \<and> (\<exists>new. sends st' = sends st @ new \<and> list_all (repl_request (cmap cache) (virtualFilesize (img st))) new)
    \<and> (backgroundReplication cfg = BGR_FULL \<and> nextReplicationIndex (ul st') = -1 \<longrightarrow>
         all_replicated (cmap cache) (replicatedLastBlock (ul st')) (IMGSIZE_TO_MAPBYTES (virtualFilesize (img st))))"
proof -
  have "nat (numWantedReplicationRequests cfg (ul st)) \<le> nat (bgrWindowSize cfg)" by (rule numWanted_le)
  then have room: "unat (queueId (ul st)) + 2 * nat (numWantedReplicationRequests cfg (ul st)) + 4 < 2 ^ 64"
    using assms(3) by linarith
  consider "st' = st" | "replicate_loop cfg cache (nat (numWantedReplicationRequests cfg (ul st))) oks st = (r, st')"
    using assms(2,4) by (auto simp: sendReplicationRequest_def Let_def split: if_splits)
  then show ?thesis
  proof cases
    case 2
    then show ?thesis using replicate_loop_sound [OF 2 assms(1,5,2) room] by blast
  qed (use assms in simp)
qed

definition sample_config :: config where
  "sample_config =
     \<lparr>isProxy = True, proxyPrivateOnly = False, backgroundReplication = BGR_FULL, bgrMinClients = 0, bgrWindowSize = 1,
      lookupMissingForProxy = True, sparseFiles = False, maxClients = 2000, maxImages = 5000, maxPayload = 9000000,
      maxReplicationSize = 0, pretendClient = False, autoFreeDiskSpaceDelay = 36000, maxPrefetch = 262144,
      minRequestSize = 0, removeMissingImages = True, vmdkLegacyMode = False, closeUnusedFd = False\<rparr>"

definition idle_uplink :: uplink_state where
  "idle_uplink = sample_uplink\<lparr>ul := (ul sample_uplink)\<lparr>queue := [], queueLen := 0\<rparr>\<rparr>"

theorem replication_requests_missing_blocks_witness:
  "\<exists>new. sends (snd (sendReplicationRequest sample_config [True] idle_uplink)) = new
     \<and> list_all (repl_request [15, 0] 40960) new"
proof -
  have "IMGSIZE_TO_MAPBYTES 40960 = 2" by (simp add: mapbytes_eq)
  then have inv: "repl_inv idle_uplink"
    by (simp add: repl_inv_def idle_uplink_def uplink_inv_def sample_uplink_def queue_ok_def uplink_fresh_def)
  have st: "ref_cacheMap (img idle_uplink) = Some \<lparr>dirty = False, unchanged = False, cmap = [15, 0]\<rparr>"
    "nextReplicationIndex (ul idle_uplink) \<noteq> -1" "virtualFilesize (img idle_uplink) = 40960" "sends idle_uplink = []"
    "unat (queueId (ul idle_uplink)) + 2 * nat (bgrWindowSize sample_config) + 4 < 2 ^ 64"
    by (simp_all add: idle_uplink_def sample_uplink_def uplink_fresh_def sample_config_def)
  show ?thesis
    using replication_requests_missing_blocks [OF inv st(1,5) surjective_pairing st(2), of "[True]"] st by auto
qed

end
