(* ===== verification/AltServers.thy ===== *)
theory AltServers
  imports Uplink "HOL-Library.Stream"
begin

text \<open>
  The list of alternative servers of \<^verbatim>\<open>src/server/altservers.c\<close>: loading and looking up entries, what is told to
  clients, fail counters and blocking, the choice of candidates for an uplink, and the measurement that decides whether
  an uplink switches to another server. Every function that holds \<^verbatim>\<open>altServersLock\<close> is one definition. The values of
  \<^verbatim>\<open>rand\<close> are a stream, the clock and the sockets are arguments.
\<close>

record alt_state =
  altServers :: "dnbd3_alt_server_t list"
  numAltServers :: nat

record dnbd3_server_entry_t =
  se_host :: dnbd3_host_t
  se_failures :: u8

definition COMMENT_LENGTH :: nat where "COMMENT_LENGTH = 120"
definition MIN_SUPPORTED_SERVER :: u16 where "MIN_SUPPORTED_SERVER = 2"
definition RTT_UNREACHABLE :: u64 where "RTT_UNREACHABLE = 0x7FFFFFF"
definition RTT_THRESHOLD_FACTOR :: "u64 \<Rightarrow> u64" where "RTT_THRESHOLD_FACTOR us = us * 2 div 3"

text \<open>The static array before anything is added.\<close>

definition no_host :: dnbd3_host_t where
  "no_host = \<lparr>addr = replicate 16 0, port = 0, htype = HOST_NONE\<rparr>"

definition zero_alt :: dnbd3_alt_server_t where
  "zero_alt = \<lparr>g_fails = 0, g_rttIndex = 0, g_rtt = replicate SERVER_RTT_PROBES 0, isPrivate = False,
     isClientOnly = False, g_blocked = False, lastFail = \<lparr>tv_sec = 0, tv_nsec = 0\<rparr>, g_host = no_host, comment = [],
     nameSpaces = []\<rparr>"

definition altservers_empty :: alt_state where
  "altservers_empty = \<lparr>altServers = replicate (nat SERVER_MAX_ALTS) zero_alt, numAltServers = 0\<rparr>"

definition set_alt :: "nat \<Rightarrow> (dnbd3_alt_server_t \<Rightarrow> dnbd3_alt_server_t) \<Rightarrow> alt_state \<Rightarrow> alt_state" where
  "set_alt i f st = st\<lparr>altServers := (altServers st)[i := f (altServers st ! i)]\<rparr>"

section \<open>Adding servers\<close>

text \<open>The loop over the used slots: \<open>Inl\<close> the slot that has this host already, \<open>Inr\<close> the first empty slot.\<close>

fun add_scan :: "dnbd3_host_t \<Rightarrow> dnbd3_alt_server_t list \<Rightarrow> nat \<Rightarrow> nat option \<Rightarrow> nat + nat option" where
  "add_scan host [] i freeSlot = Inr freeSlot"
| "add_scan host (a # as) i freeSlot =
     (if isSameAddressPort (g_host a) host then Inl i
      else add_scan host as (i + 1) (if freeSlot = None \<and> htype (g_host a) = 0 then Some i else freeSlot))"

definition fill_slot :: "dnbd3_host_t \<Rightarrow> string option \<Rightarrow> bool \<Rightarrow> bool \<Rightarrow> dnbd3_alt_server_t \<Rightarrow> dnbd3_alt_server_t" where
  "fill_slot host cmt private clientOnly a =
     a\<lparr>g_host := host, isPrivate := private, isClientOnly := clientOnly, nameSpaces := [],
       comment := (case cmt of None \<Rightarrow> comment a | Some c \<Rightarrow> take (COMMENT_LENGTH - 1) c)\<rparr>"

text \<open>\<^verbatim>\<open>altservers_add\<close>: the return value and the index.\<close>

definition altservers_add ::
  "dnbd3_host_t \<Rightarrow> string option \<Rightarrow> bool \<Rightarrow> bool \<Rightarrow> alt_state \<Rightarrow> bool \<times> nat option \<times> alt_state" where
  "altservers_add host cmt private clientOnly st =
     (case add_scan host (take (numAltServers st) (altServers st)) 0 None of
        Inl i \<Rightarrow> (False, Some i, st)
      | Inr (Some i) \<Rightarrow> (True, Some i, set_alt i (fill_slot host cmt private clientOnly) st)
      | Inr None \<Rightarrow>
          if int (numAltServers st) \<ge> SERVER_MAX_ALTS then (False, None, st)
          else (True, Some (numAltServers st),
                set_alt (numAltServers st) (fill_slot host cmt private clientOnly)
                  (st\<lparr>numAltServers := numAltServers st + 1\<rparr>)))"

text \<open>The marks before the address in a line of the old file format: \<^verbatim>\<open>-\<close> private, \<^verbatim>\<open>+\<close> for clients only.\<close>

fun legacy_marks :: "string \<Rightarrow> bool \<Rightarrow> bool \<Rightarrow> string \<times> bool \<times> bool" where
  "legacy_marks [] private clientOnly = ([], private, clientOnly)"
| "legacy_marks (c # cs) private clientOnly =
     (if c = CHR ''-'' then legacy_marks cs True clientOnly
      else if c = CHR ''+'' then legacy_marks cs private True
      else if c \<noteq> CHR '' '' \<and> c \<noteq> CHR 0x09 then (c # cs, private, clientOnly)
      else legacy_marks cs private clientOnly)"

definition addAltFromLegacy ::
  "(string \<Rightarrow> u8 list option) \<Rightarrow> (string \<Rightarrow> u8 list option) \<Rightarrow> string list \<Rightarrow> alt_state \<times> nat \<Rightarrow> alt_state \<times> nat" where
  "addAltFromLegacy pton4 pton6 argv sc =
     (case sc of (st, count) \<Rightarrow>
      if argv ! 0 \<noteq> [] \<and> hd (argv ! 0) = CHR ''#'' then sc
      else let (shost, private, clientOnly) = legacy_marks (argv ! 0) False False in
           case parse_address pton4 pton6 shost of
             None \<Rightarrow> sc
           | Some host \<Rightarrow>
               let (added, _, st1) = altservers_add host (Some (if length argv = 1 then [] else argv ! 1)) private clientOnly st
               in (st1, if added then count + 1 else count))"

definition addAltFromIni ::
  "(string \<Rightarrow> u8 list option) \<Rightarrow> (string \<Rightarrow> u8 list option) \<Rightarrow> string \<times> string \<times> string \<Rightarrow> alt_state \<times> nat
     \<Rightarrow> alt_state \<times> nat" where
  "addAltFromIni pton4 pton6 entry sc =
     (case entry of (sect, key, val) \<Rightarrow> case sc of (st, count) \<Rightarrow>
      case parse_address pton4 pton6 sect of
        None \<Rightarrow> sc
      | Some host \<Rightarrow>
          let (added, index, st1) = altservers_add host (Some []) False False st;
              count1 = (if added then count + 1 else count)
          in case index of
               None \<Rightarrow> (st1, count1)
             | Some i \<Rightarrow>
                 (if key = ''for''
                  then if take 6 val = ''client''
                       then set_alt i (\<lambda>a. a\<lparr>isClientOnly := True, isPrivate := False\<rparr>) st1
                       else if val = ''replication''
                       then set_alt i (\<lambda>a. a\<lparr>isClientOnly := False, isPrivate := True\<rparr>) st1
                       else st1
                  else if key = ''comment''
                  then set_alt i (\<lambda>a. a\<lparr>comment := take (COMMENT_LENGTH - 1) val\<rparr>) st1
                  else if key = ''namespace''
                  then set_alt i (\<lambda>a. a\<lparr>nameSpaces := val # nameSpaces a\<rparr>) st1
                  else st1, count1))"

text \<open>
  \<^verbatim>\<open>altservers_load\<close>: \<open>entries\<close> are the triples the parser reports for the file, \<open>lines\<close> its lines split into words.
\<close>

definition altservers_load ::
  "(string \<Rightarrow> u8 list option) \<Rightarrow> (string \<Rightarrow> u8 list option) \<Rightarrow> bool \<Rightarrow> (string \<times> string \<times> string) list \<Rightarrow> string list list
     \<Rightarrow> alt_state \<Rightarrow> alt_state \<times> nat" where
  "altservers_load pton4 pton6 readable entries lines st =
     (if \<not> readable then (st, 0)
      else let (st1, count) = fold (addAltFromIni pton4 pton6) entries (st, 0)
           in if numAltServers st1 = 0 then fold (addAltFromLegacy pton4 pton6) lines (st1, count)
              else (st1, count))"

section \<open>Looking up\<close>

definition isImageAllowed :: "dnbd3_alt_server_t \<Rightarrow> string \<Rightarrow> bool" where
  "isImageAllowed alt nm \<longleftrightarrow>
     nameSpaces alt = [] \<or> list_ex (\<lambda>ns. take (length ns) nm = ns) (nameSpaces alt)"

fun closeness_loop :: "u8 list \<Rightarrow> u8 list \<Rightarrow> int \<Rightarrow> int" where
  "closeness_loop (a # as) (b # bs) retval =
     (if a AND 0xf0 \<noteq> b AND 0xf0 then retval
      else if a AND 0x0f \<noteq> b AND 0x0f then retval + 1
      else closeness_loop as bs (retval + 2))"
| "closeness_loop _ _ retval = retval"

definition altservers_netCloseness :: "dnbd3_host_t \<Rightarrow> dnbd3_host_t \<Rightarrow> int" where
  "altservers_netCloseness host1 host2 =
     (if htype host1 \<noteq> htype host2 then -1
      else let n = (if htype host1 = HOST_IP4 then 4 else 16)
           in closeness_loop (take n (addr host1)) (take n (addr host2)) 0)"

definition altservers_imageHasAltServers :: "config \<Rightarrow> string \<Rightarrow> alt_state \<Rightarrow> bool" where
  "altservers_imageHasAltServers cfg nm st =
     list_ex (\<lambda>a. \<not> (isClientOnly a \<or> \<not> isPrivate a \<and> proxyPrivateOnly cfg) \<and> isImageAllowed a nm)
       (take (numAltServers st) (altServers st))"

definition altservers_hostToIndex :: "dnbd3_host_t \<Rightarrow> alt_state \<Rightarrow> nat option" where
  "altservers_hostToIndex host st =
     queue_find (\<lambda>a. isSameAddressPort host (g_host a)) (take (numAltServers st) (altServers st))"

definition altservers_indexToHost :: "nat \<Rightarrow> alt_state \<Rightarrow> dnbd3_host_t" where
  "altservers_indexToHost server st = g_host (altServers st ! server)"

text \<open>What a client is told. A score of 0 marks a slot that is not eligible or was taken.\<close>

definition client_score :: "dnbd3_host_t \<Rightarrow> string \<Rightarrow> dnbd3_alt_server_t \<Rightarrow> u16" where
  "client_score host nm a =
     (if htype (g_host a) = 0 \<or> isPrivate a then 0
      else if \<not> isImageAllowed a nm then 0
      else word_of_int (10 + altservers_netCloseness host (g_host a)))"

definition best_score :: "u16 list \<Rightarrow> nat option" where
  "best_score scores =
     foldl (\<lambda>i j. if scores ! j = 0 then i
                  else case i of None \<Rightarrow> Some j | Some k \<Rightarrow> if scores ! j > scores ! k then Some j else i)
       None [0 ..< length scores]"

fun select_loop :: "nat \<Rightarrow> u16 list \<Rightarrow> nat list" where
  "select_loop 0 scores = []"
| "select_loop (Suc n) scores =
     (case best_score scores of None \<Rightarrow> [] | Some i \<Rightarrow> i # select_loop n (scores[i := 0]))"

definition altservers_getListForClient ::
  "dnbd3_host_t \<Rightarrow> string \<Rightarrow> int \<Rightarrow> alt_state \<Rightarrow> dnbd3_server_entry_t list" where
  "altservers_getListForClient host nm sz st =
     (if htype host = 0 \<or> numAltServers st = 0 \<or> sz \<le> 0 then []
      else map (\<lambda>i. \<lparr>se_host = g_host (altServers st ! i), se_failures = 0\<rparr>)
             (select_loop (min (nat sz) (numAltServers st))
                (map (client_score host nm) (take (numAltServers st) (altServers st)))))"

section \<open>Failures and round trip times\<close>

definition altservers_serverFailed :: "ticks \<Rightarrow> nat \<Rightarrow> alt_state \<Rightarrow> alt_state" where
  "altservers_serverFailed now server st =
     (if timing_diff (lastFail (altServers st ! server)) now > SERVER_GLOBAL_DUP_TIME
      then set_alt server (\<lambda>a. a\<lparr>lastFail := now, g_fails := g_fails a + 1,
             g_blocked := (if g_fails a \<ge> SERVER_BAD_UPLINK_MAX then True else g_blocked a)\<rparr>) st
      else st)"

definition altservers_imageFailed :: "nat \<Rightarrow> dnbd3_uplink_t \<Rightarrow> dnbd3_uplink_t" where
  "altservers_imageFailed server u =
     u\<lparr>altData := (altData u)[server := (let l = altData u ! server in
         l\<lparr>l_fails := l_fails l + 1, l_blocked := (if l_fails l \<ge> SERVER_BAD_UPLINK_MAX then True else l_blocked l)\<rparr>)]\<rparr>"

definition altservers_updateRtt :: "nat \<Rightarrow> u32 \<Rightarrow> dnbd3_uplink_t \<Rightarrow> alt_state \<Rightarrow> u32 \<times> dnbd3_uplink_t \<times> alt_state" where
  "altservers_updateRtt index rtt u st =
     (let local = altData u ! index;
          (avg, local') =
            (if l_initDone local
             then let rtts = (l_rtt local)[nat ((l_rttIndex local + 1) mod int SERVER_RTT_PROBES) := rtt]
                  in (sum_list rtts div of_nat SERVER_RTT_PROBES,
                      local\<lparr>l_rttIndex := l_rttIndex local + 1, l_rtt := rtts\<rparr>)
             else (rtt, local\<lparr>l_rtt := replicate SERVER_RTT_PROBES rtt, l_initDone := True\<rparr>))
      in (avg, u\<lparr>altData := (altData u)[index := local']\<rparr>,
          set_alt index (\<lambda>a. a\<lparr>g_rttIndex := g_rttIndex a + 1,
            g_rtt := (g_rtt a)[nat ((g_rttIndex a + 1) mod int SERVER_RTT_PROBES) := avg]\<rparr>) st))"

section \<open>Candidates for an uplink\<close>

text \<open>
  \<^verbatim>\<open>isUsableForUplink\<close> on the entry the uplink keeps for the server, if there is an uplink, and the global one. It
  counts down the fail counter of a blocked server and may draw a random number.
\<close>

definition usable_local :: "dnbd3_alt_local_t option \<Rightarrow> bool \<times> dnbd3_alt_local_t option" where
  "usable_local local =
     (case local of
        None \<Rightarrow> (True, None)
      | Some l \<Rightarrow>
          if l_blocked l
          then let l1 = l\<lparr>l_fails := l_fails l - 1\<rparr>
               in if l_fails l1 > 0 then (False, Some l1) else (True, Some (l1\<lparr>l_blocked := False\<rparr>))
          else (True, Some l))"

definition usable_global :: "ticks \<Rightarrow> dnbd3_alt_server_t \<Rightarrow> bool \<times> dnbd3_alt_server_t" where
  "usable_global now g =
     (if g_blocked g
      then if timing_diff (lastFail g) now < SERVER_GLOBAL_DUP_TIME then (False, g)
           else let g1 = g\<lparr>lastFail := now, g_fails := g_fails g - 1\<rparr>
                in if g_fails g1 > 0 then (False, g1) else (True, g1\<lparr>g_blocked := False\<rparr>)
      else (True, g))"

definition isUsableForUplink ::
  "config \<Rightarrow> ticks \<Rightarrow> nat stream \<Rightarrow> dnbd3_alt_local_t option \<Rightarrow> dnbd3_alt_server_t
     \<Rightarrow> bool \<times> dnbd3_alt_local_t option \<times> dnbd3_alt_server_t \<times> nat stream" where
  "isUsableForUplink cfg now rs local g =
     (if isClientOnly g \<or> \<not> isPrivate g \<and> proxyPrivateOnly cfg then (False, local, g, rs)
      else case usable_local local of
        (False, local1) \<Rightarrow> (False, local1, g, rs)
      | (True, local1) \<Rightarrow>
          (case usable_global now g of
             (False, g1) \<Rightarrow> (False, local1, g1, rs)
           | (True, g1) \<Rightarrow>
               let fails = (case local1 of None \<Rightarrow> 0 | Some l \<Rightarrow> l_fails l) + g_fails g1
               in if fails < SERVER_BAD_UPLINK_MIN then (True, local1, g1, rs)
                  else (int (shd rs) mod fails < SERVER_BAD_UPLINK_MIN, local1, g1, stl rs)))"

text \<open>The state the search for candidates works on.\<close>

record pick_state =
  pk_alts :: alt_state
  pk_local :: "dnbd3_alt_local_t list option"
  pk_rand :: "nat stream"

definition pick_usable :: "config \<Rightarrow> ticks \<Rightarrow> nat \<Rightarrow> pick_state \<Rightarrow> bool \<times> pick_state" where
  "pick_usable cfg now i p =
     (let (ok, local, g, rs) = isUsableForUplink cfg now (pk_rand p)
            (map_option (\<lambda>ls. ls ! i) (pk_local p)) (altServers (pk_alts p) ! i)
      in (ok, p\<lparr>pk_alts := set_alt i (\<lambda>_. g) (pk_alts p),
              pk_local := (case local of None \<Rightarrow> pk_local p | Some l \<Rightarrow> map_option (\<lambda>ls. ls[i := l]) (pk_local p)),
              pk_rand := rs\<rparr>))"

fun pick_all :: "config \<Rightarrow> ticks \<Rightarrow> string \<Rightarrow> nat option \<Rightarrow> nat list \<Rightarrow> pick_state \<Rightarrow> nat list \<times> pick_state" where
  "pick_all cfg now nm cur [] p = ([], p)"
| "pick_all cfg now nm cur (i # is) p =
     (let (ok, p1) = (if cur = None \<or> cur = Some i then (True, p) else pick_usable cfg now i p);
          (servers, p2) = pick_all cfg now nm cur is p1
      in (if ok \<and> isImageAllowed (altServers (pk_alts p1) ! i) nm then i # servers else servers, p2))"

text \<open>The two loops that draw servers at random; \<open>state\<close> marks the ones used (2) and the potential ones (1).\<close>

fun pick_random ::
  "config \<Rightarrow> ticks \<Rightarrow> string \<Rightarrow> nat \<Rightarrow> nat \<Rightarrow> nat list \<Rightarrow> u8 list \<Rightarrow> pick_state \<Rightarrow> nat list \<times> u8 list \<times> pick_state" where
  "pick_random cfg now nm sz 0 servers state p = (servers, state, p)"
| "pick_random cfg now nm sz (Suc tr) servers state p =
     (if length servers \<ge> sz then (servers, state, p)
      else let idx = shd (pk_rand p) mod numAltServers (pk_alts p); p1 = p\<lparr>pk_rand := stl (pk_rand p)\<rparr> in
        if state ! idx \<noteq> 0 then pick_random cfg now nm sz tr servers state p1
        else if \<not> isImageAllowed (altServers (pk_alts p1) ! idx) nm
        then pick_random cfg now nm sz tr servers (state[idx := 2]) p1
        else case pick_usable cfg now idx p1 of
               (True, p2) \<Rightarrow> pick_random cfg now nm sz tr (servers @ [idx]) (state[idx := 2]) p2
             | (False, p2) \<Rightarrow> pick_random cfg now nm sz tr servers (state[idx := 1]) p2)"

fun pick_panic :: "nat \<Rightarrow> nat \<Rightarrow> nat list \<Rightarrow> u8 list \<Rightarrow> pick_state \<Rightarrow> nat list \<times> pick_state" where
  "pick_panic sz 0 servers state p = (servers, p)"
| "pick_panic sz (Suc tr) servers state p =
     (if length servers \<ge> sz then (servers, p)
      else let idx = shd (pk_rand p) mod numAltServers (pk_alts p); p1 = p\<lparr>pk_rand := stl (pk_rand p)\<rparr> in
        if state ! idx = 2 then pick_panic sz tr servers state p1
        else pick_panic sz tr (servers @ [idx]) (state[idx := 2]) p1)"

definition altservers_getListForUplink ::
  "config \<Rightarrow> ticks \<Rightarrow> string \<Rightarrow> nat \<Rightarrow> nat option \<Rightarrow> pick_state \<Rightarrow> nat list \<times> pick_state" where
  "altservers_getListForUplink cfg now nm sz cur p =
     (if sz = 0 then ([], p)
      else if numAltServers (pk_alts p) \<le> sz
      then pick_all cfg now nm cur [0 ..< numAltServers (pk_alts p)] p
      else let state0 = replicate (nat SERVER_MAX_ALTS) 0;
               (servers, state) = (case cur of None \<Rightarrow> ([], state0) | Some c \<Rightarrow> ([c], state0[c := 2]));
               (servers1, state1, p1) = pick_random cfg now nm sz (sz * 10) servers state p
           in if cur = None then pick_panic sz (sz * 10) servers1 state1 p1 else (servers1, p1))"

definition altservers_getHostListForReplication ::
  "config \<Rightarrow> ticks \<Rightarrow> nat stream \<Rightarrow> string \<Rightarrow> nat \<Rightarrow> alt_state \<Rightarrow> dnbd3_host_t list \<times> alt_state" where
  "altservers_getHostListForReplication cfg now rs nm sz st =
     (let (idx, p) = altservers_getListForUplink cfg now nm sz None \<lparr>pk_alts = st, pk_local = None, pk_rand = rs\<rparr>
      in (map (\<lambda>i. g_host (altServers (pk_alts p) ! i)) idx, pk_alts p))"

section \<open>Measuring\<close>

text \<open>
  One server is measured over a fresh connection. The environment of a measurement: the socket (-1 when connecting
  failed), what the kernel accepts and delivers on it, the times before and after, and the clock for the fail counter.
\<close>

record probe_env =
  pe_sock :: int
  pe_out :: "send_event list"
  pe_in :: "recv_event list"
  pe_start :: ticks
  pe_end :: ticks
  pe_now :: ticks
  pe_buffer :: serialized_buffer_t
  pe_beyond :: byte

datatype probe_result = Connect_failed | Image_failed | Server_failed | Measured u16 u32

definition cstr_bytes :: "string \<Rightarrow> byte list" where
  "cstr_bytes s = map of_char s"

text \<open>The loop that reads and drops the payload: what is left to read when it ends.\<close>

function flush_payload :: "nat \<Rightarrow> recv_event list \<Rightarrow> nat option" where
  "flush_payload todo s =
     (if todo = 0 then Some 0
      else case recv_waitall (min 4096 todo) s of
             None \<Rightarrow> None
           | Some (Inl _, s') \<Rightarrow> Some todo
           | Some (Inr bs, s') \<Rightarrow> if bs = [] then Some todo else flush_payload (todo - length bs) s')"
  by pat_completeness auto
termination
  by (relation "measure fst") auto

declare flush_payload.simps [simp del]

text \<open>The measured time in microseconds; division of a negative number rounds towards zero.\<close>

definition rtt_of :: "ticks \<Rightarrow> ticks \<Rightarrow> u32" where
  "rtt_of start end =
     (let d = tv_nsec end - tv_nsec start
      in word_of_int ((tv_sec end - tv_sec start) * 1000000 + (if d < 0 then - ((- d) div 1000) else d div 1000)))"

definition check_offer :: "dnbd3_image_t \<Rightarrow> select_reply \<Rightarrow> probe_result option" where
  "check_offer i sr =
     (if sr_version sr < MIN_SUPPORTED_SERVER then Some Server_failed
      else if sr_name sr \<noteq> Some (cstr_bytes (name i)) then Some Image_failed
      else if sr_rid sr \<noteq> rid i then Some Image_failed
      else if sr_size sr \<noteq> virtualFilesize i then Some Image_failed
      else None)"

definition probe_block ::
  "u64 \<Rightarrow> u32 \<Rightarrow> u16 \<Rightarrow> probe_env \<Rightarrow> send_event list \<Rightarrow> recv_event list \<Rightarrow> probe_result option" where
  "probe_block off len version e so si =
     (case dnbd3_get_block off len 0 (COND_HOPCOUNT (uint version) 1) so of
        None \<Rightarrow> None
      | Some (False, _, _) \<Rightarrow> Some Image_failed
      | Some (True, _, _) \<Rightarrow>
          (case dnbd3_get_reply si of
             None \<Rightarrow> None
           | Some (None, _) \<Rightarrow> Some Image_failed
           | Some (Some reply, si1) \<Rightarrow>
               if rp_cmd reply \<noteq> CMD_GET_BLOCK \<or> rp_size reply \<noteq> len then Some Server_failed
               else (case flush_payload (unat len) si1 of
                       None \<Rightarrow> None
                     | Some todo \<Rightarrow> if todo \<noteq> 0 then Some Image_failed
                                    else Some (Measured version (rtt_of (pe_start e) (pe_end e))))))"

definition probe_server :: "config \<Rightarrow> dnbd3_image_t \<Rightarrow> u64 \<Rightarrow> u32 \<Rightarrow> probe_env \<Rightarrow> probe_result option" where
  "probe_server cfg i off len e =
     (if pe_sock e = -1 then Some Connect_failed
      else case dnbd3_select_image (pe_buffer e) (cstr_bytes (name i)) (rid i) (SI_SERVER_FLAGS cfg) (pe_out e) of
        None \<Rightarrow> None
      | Some (False, _, _) \<Rightarrow> Some Image_failed
      | Some (True, _, so) \<Rightarrow>
          (case dnbd3_select_image_reply (pe_beyond e) (pe_buffer e) (pe_in e) of
             None \<Rightarrow> None
           | Some (None, _) \<Rightarrow> Some Image_failed
           | Some (Some sr, si) \<Rightarrow>
               (case check_offer i sr of
                  Some r \<Rightarrow> Some r
                | None \<Rightarrow> probe_block off len (sr_version sr) e so si)))"

text \<open>The variables of the test loop, the uplink and the descriptors closed so far.\<close>

record check_state =
  ck_ul :: dnbd3_uplink_t
  ck_alts :: alt_state
  ck_best :: dnbd3_server_connection_t
  ck_bestRtt :: u64
  ck_currentRtt :: u64
  ck_closed :: "int list"

definition measured :: "bool \<Rightarrow> nat \<Rightarrow> int \<Rightarrow> u16 \<Rightarrow> u32 \<Rightarrow> check_state \<Rightarrow> check_state" where
  "measured panic server sock version rtt c =
     (let isCurrent = (conn_index (current (ck_ul c)) = int server);
          (avg0, u, alts) = altservers_updateRtt server rtt (ck_ul c) (ck_alts c);
          avg = (if (cycleDetected u \<or> panic) \<and> isCurrent then avg0 * 2 + 50000 else avg0);
          c1 = c\<lparr>ck_ul := u, ck_alts := alts\<rparr>
      in if \<not> panic \<and> isCurrent then c1\<lparr>ck_currentRtt := ucast avg, ck_closed := ck_closed c1 @ [sock]\<rparr>
         else if ucast avg < ck_bestRtt c1
         then c1\<lparr>ck_closed := ck_closed c1 @ (if conn_fd (ck_best c1) \<noteq> -1 then [conn_fd (ck_best c1)] else []),
                 ck_best := \<lparr>conn_fd = sock, conn_version = uint version, conn_index = int server\<rparr>,
                 ck_bestRtt := ucast avg\<rparr>
         else c1\<lparr>ck_closed := ck_closed c1 @ [sock]\<rparr>)"

definition check_server ::
  "config \<Rightarrow> dnbd3_image_t \<Rightarrow> bool \<Rightarrow> u64 \<Rightarrow> u32 \<Rightarrow> nat \<Rightarrow> probe_env \<Rightarrow> check_state \<Rightarrow> check_state option" where
  "check_server cfg i panic off len server e c =
     (case probe_server cfg i off len e of
        None \<Rightarrow> None
      | Some Connect_failed \<Rightarrow> Some (c\<lparr>ck_alts := altservers_serverFailed (pe_now e) server (ck_alts c)\<rparr>)
      | Some Image_failed \<Rightarrow>
          Some (c\<lparr>ck_ul := altservers_imageFailed server (ck_ul c), ck_closed := ck_closed c @ [pe_sock e]\<rparr>)
      | Some Server_failed \<Rightarrow>
          Some (c\<lparr>ck_alts := altservers_serverFailed (pe_now e) server (ck_alts c), ck_closed := ck_closed c @ [pe_sock e]\<rparr>)
      | Some (Measured version rtt) \<Rightarrow> Some (measured panic server (pe_sock e) version rtt c))"

fun check_servers ::
  "config \<Rightarrow> dnbd3_image_t \<Rightarrow> bool \<Rightarrow> u64 \<Rightarrow> u32 \<Rightarrow> (nat \<times> probe_env) list \<Rightarrow> check_state \<Rightarrow> check_state option" where
  "check_servers cfg i panic off len [] c = Some c"
| "check_servers cfg i panic off len ((server, e) # ses) c =
     (case check_server cfg i panic off len server e c of
        None \<Rightarrow> None | Some c1 \<Rightarrow> check_servers cfg i panic off len ses c1)"

text \<open>
  The first critical section: a check starts unless a result is waiting or another check is running. \<open>None\<close> is the
  assertion; the flag tells whether the check starts.
\<close>

definition check_begin :: "dnbd3_uplink_t \<Rightarrow> (bool \<times> dnbd3_uplink_t) option" where
  "check_begin u =
     (if conn_fd (better u) \<noteq> -1 \<or> rttTestResult u = RTT_INPROGRESS then Some (False, u)
      else if rttTestResult u = RTT_DOCHANGE then None
      else Some (True, u\<lparr>rttTestResult := RTT_INPROGRESS\<rparr>))"

text \<open>The range measured: that of the first request in the queue, or the first block.\<close>

definition probe_range :: "dnbd3_uplink_t \<Rightarrow> u64 \<times> u32" where
  "probe_range u =
     (case queue u of [] \<Rightarrow> (0, ucast DNBD3_BLOCK_SIZE) | e # _ \<Rightarrow> (qe_from e, ucast (qe_to e - qe_from e)))"

text \<open>The decision; the uplink thread is signalled when a switch is in order.\<close>

definition check_finish :: "bool \<Rightarrow> check_state \<Rightarrow> dnbd3_uplink_t \<times> int list \<times> bool" where
  "check_finish panic c =
     (let best = ck_best c; u = ck_ul c in
      if conn_fd best \<noteq> -1
         \<and> (panic \<or> ck_bestRtt c < 10000000 \<and> RTT_THRESHOLD_FACTOR (ck_currentRtt c) > ck_bestRtt c)
      then (u\<lparr>better := best, rttTestResult := RTT_DOCHANGE\<rparr>, ck_closed c, True)
      else if conn_fd best = -1 \<and> ck_currentRtt c = RTT_UNREACHABLE
      then (u\<lparr>rttTestResult := RTT_NOT_REACHABLE\<rparr>, ck_closed c, False)
      else (u\<lparr>cycleDetected := False, rttTestResult := RTT_DONTCHANGE\<rparr>,
            ck_closed c @ (if conn_fd best \<noteq> -1 then [conn_fd best] else []), False))"

text \<open>
  A check that was started: the uplink, the servers, the descriptors closed and whether the uplink thread was
  signalled. \<open>imageThere\<close> is the result of \<^verbatim>\<open>image_lock\<close>, \<open>envs\<close> gives the environment for each server.
\<close>

definition check_run ::
  "config \<Rightarrow> ticks \<Rightarrow> nat stream \<Rightarrow> bool \<Rightarrow> (nat \<Rightarrow> probe_env) \<Rightarrow> dnbd3_image_t \<Rightarrow> dnbd3_uplink_t \<Rightarrow> alt_state
     \<Rightarrow> (dnbd3_uplink_t \<times> alt_state \<times> int list \<times> bool) option" where
  "check_run cfg now rs imageThere envs i u st =
     (let panic = (conn_fd (current u) = -1);
          (servers, p) = altservers_getListForUplink cfg now (name i) 4
             (if panic then None else Some (nat (conn_index (current u))))
             \<lparr>pk_alts = st, pk_local = Some (altData u), pk_rand = rs\<rparr>;
          u1 = u\<lparr>altData := the (pk_local p)\<rparr>
      in if servers = [] \<or> length servers = 1 \<and> \<not> panic
         then Some (u1\<lparr>rttTestResult := RTT_DONTCHANGE\<rparr>, pk_alts p, [], False)
         else if \<not> imageThere then Some (u1\<lparr>rttTestResult := RTT_NOT_REACHABLE\<rparr>, pk_alts p, [], False)
         else let (off, len) = probe_range u1 in
           (case check_servers cfg i panic off len (map (\<lambda>s. (s, envs s)) servers)
                   \<lparr>ck_ul = u1, ck_alts = pk_alts p, ck_best = \<lparr>conn_fd = -1, conn_version = 0, conn_index = 0\<rparr>,
                    ck_bestRtt = RTT_UNREACHABLE, ck_currentRtt = RTT_UNREACHABLE, ck_closed = []\<rparr> of
              None \<Rightarrow> None
            | Some c \<Rightarrow> (case check_finish panic c of (u2, closed, sig) \<Rightarrow> Some (u2, ck_alts c, closed, sig))))"

definition altservers_findUplinkInternal ::
  "config \<Rightarrow> bool \<Rightarrow> ticks \<Rightarrow> nat stream \<Rightarrow> bool \<Rightarrow> (nat \<Rightarrow> probe_env) \<Rightarrow> dnbd3_image_t \<Rightarrow> dnbd3_uplink_t \<Rightarrow> alt_state
     \<Rightarrow> (dnbd3_uplink_t \<times> alt_state \<times> int list \<times> bool) option" where
  "altservers_findUplinkInternal cfg globalShutdown now rs imageThere envs i u st =
     (if globalShutdown then Some (u, st, [], False)
      else case check_begin u of
        None \<Rightarrow> None
      | Some (False, u1) \<Rightarrow> Some (u1, st, [], False)
      | Some (True, u1) \<Rightarrow> check_run cfg now rs imageThere envs i u1 st)"

text \<open>
  \<^verbatim>\<open>altservers_findUplinkAsync\<close>: whether a check is handed to the thread pool. \<open>self\<close> says that the image still refers to
  this uplink; \<open>None\<close> is the assertion that no switch is waiting.
\<close>

definition altservers_findUplinkAsync :: "nat \<Rightarrow> bool \<Rightarrow> dnbd3_uplink_t \<Rightarrow> bool option" where
  "altservers_findUplinkAsync numAlts self u =
     (if shutdown u then Some False
      else if conn_fd (current u) \<noteq> -1 \<and> numAlts \<le> 1 then Some False
      else if conn_fd (better u) \<noteq> -1 then None
      else Some (rttTestResult u \<noteq> RTT_INPROGRESS \<and> self))"

end
