(* ===== verification/Crc.thy ===== *)
theory Crc
  imports CrcTables Bytes
begin

text \<open>
  CRC-32, after \<^verbatim>\<open>src/shared/crc32.c\<close>: the table-driven routine that takes four bytes at a time, the routine on
  128-bit registers with carry-less multiplication, and the function that picks between them; also the variant for
  big-endian machines. Beside them stands the definition of the checksum, one bit at a time, which all of them are
  shown to compute (in the theory \<open>CrcProof\<close>).

  A buffer is a byte list; \<^verbatim>\<open>NULL\<close> is \<open>None\<close>; the address of the buffer matters only for its alignment and is an
  argument, as is whether the processor has the two instruction set extensions.
\<close>

section \<open>The checksum, bit by bit\<close>

definition crc_bit :: "u32 \<Rightarrow> u32" where
  "crc_bit c = (if bit c 0 then drop_bit 1 c XOR 0xEDB88320 else drop_bit 1 c)"

definition crc_ref :: "u32 \<Rightarrow> byte list \<Rightarrow> u32" where
  "crc_ref c bs = foldl (\<lambda>c b. (crc_bit ^^ 8) (c XOR ucast b)) c bs"

definition crc32_spec :: "u32 \<Rightarrow> byte list \<Rightarrow> u32" where
  "crc32_spec crc bs = NOT (crc_ref (NOT crc) bs)"

section \<open>Tables, four bytes at a time\<close>

definition crc_step :: "u32 \<Rightarrow> byte \<Rightarrow> u32" where
  "crc_step c b = crc_table0 ! unat ((c XOR ucast b) AND 0xff) XOR drop_bit 8 c"

text \<open>The loop up to the first aligned address.\<close>

fun crc_align :: "nat \<Rightarrow> u32 \<Rightarrow> byte list \<Rightarrow> u32 \<times> byte list" where
  "crc_align addr c [] = (c, [])"
| "crc_align addr c (b # bs) =
     (if addr mod 16 \<noteq> 0 then crc_align (addr + 1) (crc_step c b) bs else (c, b # bs))"

definition DOLIT4 :: "u32 \<Rightarrow> u32 \<Rightarrow> u32" where
  "DOLIT4 c0 w =
     (let c = c0 XOR w
      in crc_table3 ! unat (c AND 0xff) XOR crc_table2 ! unat (drop_bit 8 c AND 0xff)
         XOR crc_table1 ! unat (drop_bit 16 c AND 0xff) XOR crc_table0 ! unat (drop_bit 24 c))"

fun DOLIT32 :: "nat \<Rightarrow> u32 \<Rightarrow> byte list \<Rightarrow> u32" where
  "DOLIT32 0 c bs = c"
| "DOLIT32 (Suc n) c bs = DOLIT32 n (DOLIT4 c (of_le (take 4 bs))) (drop 4 bs)"

function crc_loop32 :: "u32 \<Rightarrow> byte list \<Rightarrow> u32 \<times> byte list" where
  "crc_loop32 c bs = (if length bs \<ge> 32 then crc_loop32 (DOLIT32 8 c bs) (drop 32 bs) else (c, bs))"
  by pat_completeness auto
termination
  by (relation "measure (\<lambda>(c, bs). length bs)") auto

function crc_loop4 :: "u32 \<Rightarrow> byte list \<Rightarrow> u32 \<times> byte list" where
  "crc_loop4 c bs = (if length bs \<ge> 4 then crc_loop4 (DOLIT4 c (of_le (take 4 bs))) (drop 4 bs) else (c, bs))"
  by pat_completeness auto
termination
  by (relation "measure (\<lambda>(c, bs). length bs)") auto

declare crc_loop32.simps [simp del] crc_loop4.simps [simp del]

section \<open>Carry-less multiplication\<close>

type_synonym m128 = "128 word"

definition quad :: "bool \<Rightarrow> m128 \<Rightarrow> u64" where
  "quad high x = (if high then ucast (drop_bit 64 x) else ucast x)"

fun clmul :: "nat \<Rightarrow> u64 \<Rightarrow> u64 \<Rightarrow> m128" where
  "clmul 0 a b = 0"
| "clmul (Suc n) a b = clmul n a b XOR (if bit a n then push_bit n (ucast b) else 0)"

text \<open>\<^verbatim>\<open>_mm_clmulepi64_si128\<close>: bits 0 and 4 of the immediate choose the half of each operand.\<close>

definition mm_clmulepi64 :: "m128 \<Rightarrow> m128 \<Rightarrow> nat \<Rightarrow> m128" where
  "mm_clmulepi64 x y imm = clmul 64 (quad (bit imm 0) x) (quad (bit imm 4) y)"

definition mm_load :: "u64 \<Rightarrow> u64 \<Rightarrow> m128" where
  "mm_load lo hi = ucast lo OR push_bit 64 (ucast hi)"

definition mm_loadu :: "byte list \<Rightarrow> nat \<Rightarrow> m128" where
  "mm_loadu buf off = of_le (take 16 (drop off buf))"

definition k1k2 :: m128 where "k1k2 = mm_load 0x0154442bd4 0x01c6e41596"
definition k3k4 :: m128 where "k3k4 = mm_load 0x01751997d0 0x00ccaa009e"
definition k5k0 :: m128 where "k5k0 = mm_load 0x0163cd6124 0"
definition poly :: m128 where "poly = mm_load 0x01db710641 0x01f7011641"

text \<open>One register of the loop over blocks of 64 bytes, and the loop.\<close>

definition fold64 :: "m128 \<Rightarrow> m128 \<Rightarrow> m128 \<Rightarrow> m128" where
  "fold64 x0 x y =
     (let x5 = mm_clmulepi64 x x0 0x00;
          x1 = mm_clmulepi64 x x0 0x11
      in (x1 XOR x5) XOR y)"

function pclmul_loop64 :: "m128 \<times> m128 \<times> m128 \<times> m128 \<Rightarrow> byte list \<Rightarrow> (m128 \<times> m128 \<times> m128 \<times> m128) \<times> byte list" where
  "pclmul_loop64 (x1, x2, x3, x4) buf =
     (if length buf \<ge> 64
      then pclmul_loop64 (fold64 k1k2 x1 (mm_loadu buf 0x00), fold64 k1k2 x2 (mm_loadu buf 0x10),
                          fold64 k1k2 x3 (mm_loadu buf 0x20), fold64 k1k2 x4 (mm_loadu buf 0x30)) (drop 64 buf)
      else ((x1, x2, x3, x4), buf))"
  by pat_completeness auto
termination
  by (relation "measure (\<lambda>(x, buf). length buf)") auto

text \<open>Folding one register into the next, and the loop over single blocks of 16 bytes.\<close>

definition fold16 :: "m128 \<Rightarrow> m128 \<Rightarrow> m128" where
  "fold16 x y =
     (let x5 = mm_clmulepi64 x k3k4 0x00;
          x1 = mm_clmulepi64 x k3k4 0x11
      in (x1 XOR y) XOR x5)"

function pclmul_loop16 :: "m128 \<Rightarrow> byte list \<Rightarrow> m128" where
  "pclmul_loop16 x1 buf =
     (if length buf \<ge> 16 then pclmul_loop16 (fold16 x1 (mm_loadu buf 0)) (drop 16 buf) else x1)"
  by pat_completeness auto
termination
  by (relation "measure (\<lambda>(x, buf). length buf)") auto

declare pclmul_loop64.simps [simp del] pclmul_loop16.simps [simp del]

text \<open>From 128 bits to 64, and the Barrett reduction to 32 bits.\<close>

definition pclmul_reduce :: "m128 \<Rightarrow> u32" where
  "pclmul_reduce y1 =
     (let x0 = k3k4;
          x2 = mm_clmulepi64 y1 x0 0x10;
          x3 = 0x00000000ffffffff00000000ffffffff;
          x1 = drop_bit 64 y1;
          x1 = x1 XOR x2;
          x0 = k5k0;
          x2 = drop_bit 32 x1;
          x1 = x1 AND x3;
          x1 = mm_clmulepi64 x1 x0 0x00;
          x1 = x1 XOR x2;
          x0 = poly;
          x2 = x1 AND x3;
          x2 = mm_clmulepi64 x2 x0 0x10;
          x2 = x2 AND x3;
          x2 = mm_clmulepi64 x2 x0 0x00;
          x1 = x1 XOR x2
      in ucast (drop_bit 32 x1))"

definition crc32pclmul :: "u32 \<Rightarrow> byte list \<Rightarrow> u32" where
  "crc32pclmul crc buf =
     (let x1 = mm_loadu buf 0x00 XOR ucast crc;
          x2 = mm_loadu buf 0x10;
          x3 = mm_loadu buf 0x20;
          x4 = mm_loadu buf 0x30;
          ((x1, x2, x3, x4), buf) = pclmul_loop64 (x1, x2, x3, x4) (drop 64 buf);
          x1 = fold16 x1 x2;
          x1 = fold16 x1 x3;
          x1 = fold16 x1 x4
      in pclmul_reduce (pclmul_loop16 x1 buf))"

section \<open>The entry point\<close>

text \<open>\<open>n\<close> is \<^verbatim>\<open>len & ~PCLMUL_ALIGN_MASK\<close>.\<close>

definition crc32 :: "bool \<Rightarrow> nat \<Rightarrow> u32 \<Rightarrow> byte list option \<Rightarrow> u32" where
  "crc32 pclmul addr crc bufp =
     (case bufp of
        None \<Rightarrow> 0
      | Some buf \<Rightarrow>
          let (c, buf) = crc_align addr (NOT crc) buf;
              (c, buf) = (if pclmul \<and> length buf \<ge> 64
                          then let n = length buf div 16 * 16 in (crc32pclmul c (take n buf), drop n buf)
                          else let (c, buf) = crc_loop32 c buf in crc_loop4 c buf)
          in NOT (foldl crc_step c buf))"

section \<open>Big-endian machines\<close>

definition net_order_32_be :: "u32 \<Rightarrow> u32" where
  "net_order_32_be a =
     push_bit 24 (a AND 0xFF) OR push_bit 8 (a AND 0xFF00) OR drop_bit 8 (a AND 0xFF0000) OR drop_bit 24 (a AND 0xFF000000)"

definition of_be :: "byte list \<Rightarrow> u32" where
  "of_be bs = of_le (rev bs)"

definition crc_step_be :: "u32 \<Rightarrow> byte \<Rightarrow> u32" where
  "crc_step_be c b = crc_table4 ! unat (drop_bit 24 c XOR ucast b) XOR push_bit 8 c"

fun crc_align_be :: "nat \<Rightarrow> u32 \<Rightarrow> byte list \<Rightarrow> u32 \<times> byte list" where
  "crc_align_be addr c [] = (c, [])"
| "crc_align_be addr c (b # bs) =
     (if addr mod 4 \<noteq> 0 then crc_align_be (addr + 1) (crc_step_be c b) bs else (c, b # bs))"

definition DOBIG4 :: "u32 \<Rightarrow> u32 \<Rightarrow> u32" where
  "DOBIG4 c0 w =
     (let c = c0 XOR w
      in crc_table4 ! unat (c AND 0xff) XOR crc_table5 ! unat (drop_bit 8 c AND 0xff)
         XOR crc_table6 ! unat (drop_bit 16 c AND 0xff) XOR crc_table7 ! unat (drop_bit 24 c))"

fun DOBIG32 :: "nat \<Rightarrow> u32 \<Rightarrow> byte list \<Rightarrow> u32" where
  "DOBIG32 0 c bs = c"
| "DOBIG32 (Suc n) c bs = DOBIG32 n (DOBIG4 c (of_be (take 4 bs))) (drop 4 bs)"

function crc_loop32_be :: "u32 \<Rightarrow> byte list \<Rightarrow> u32 \<times> byte list" where
  "crc_loop32_be c bs = (if length bs \<ge> 32 then crc_loop32_be (DOBIG32 8 c bs) (drop 32 bs) else (c, bs))"
  by pat_completeness auto
termination
  by (relation "measure (\<lambda>(c, bs). length bs)") auto

function crc_loop4_be :: "u32 \<Rightarrow> byte list \<Rightarrow> u32 \<times> byte list" where
  "crc_loop4_be c bs = (if length bs \<ge> 4 then crc_loop4_be (DOBIG4 c (of_be (take 4 bs))) (drop 4 bs) else (c, bs))"
  by pat_completeness auto
termination
  by (relation "measure (\<lambda>(c, bs). length bs)") auto

declare crc_loop32_be.simps [simp del] crc_loop4_be.simps [simp del]

definition crc32_be :: "nat \<Rightarrow> u32 \<Rightarrow> byte list option \<Rightarrow> u32" where
  "crc32_be addr crc bufp =
     (case bufp of
        None \<Rightarrow> 0
      | Some buf \<Rightarrow>
          let (c, buf) = crc_align_be addr (NOT (net_order_32_be crc)) buf;
              (c, buf) = (let (c, buf) = crc_loop32_be c buf in crc_loop4_be c buf)
          in net_order_32_be (NOT (foldl crc_step_be c buf)))"

end
