(* ===== verification/UplinkThread.thy ===== *)
theory UplinkThread
  imports Replication AltServers Crc
begin

text \<open>
  The uplink thread of \<^verbatim>\<open>src/server/uplink.c\<close>: sending and resending queued requests, receiving, failing over to
  another server, keep-alives, fetching the list of checksums, and the main loop that ties them together. Beside the
  uplink itself the thread has its local variables and reaches the list of servers; descriptors it closes, checks it
  hands to the thread pool and the checksum file it writes are logged.
\<close>

record uplink_thread =
  us :: uplink_state
  alts :: alt_state
  me :: nat
  altCheckInterval :: int
  discoverFailCount :: u32
  nextAltCheck :: ticks
  lastKeepalive :: ticks
  closed :: "int list"
  checksQueued :: nat
  crcFile :: "byte list option"
  unlinked :: "string list"

definition SERVER_RTT_INTERVAL_INIT :: int where "SERVER_RTT_INTERVAL_INIT = 5"
definition SERVER_RTT_INTERVAL_MAX :: int where "SERVER_RTT_INTERVAL_MAX = 45"
definition SERVER_RTT_MAX_UNREACH :: u32 where "SERVER_RTT_MAX_UNREACH = 10"
definition SERVER_RTT_INTERVAL_FAILED :: int where "SERVER_RTT_INTERVAL_FAILED = 180"
definition SERVER_UPLINK_KEEPALIVE_INTERVAL :: u32 where "SERVER_UPLINK_KEEPALIVE_INTERVAL = 10"
definition MAX_RESEND_BATCH :: nat where "MAX_RESEND_BATCH = 125"

abbreviation set_ul :: "(dnbd3_uplink_t \<Rightarrow> dnbd3_uplink_t) \<Rightarrow> uplink_thread \<Rightarrow> uplink_thread" where
  "set_ul f t \<equiv> t\<lparr>us := (us t)\<lparr>ul := f (ul (us t))\<rparr>\<rparr>"

abbreviation set_img :: "(dnbd3_image_t \<Rightarrow> dnbd3_image_t) \<Rightarrow> uplink_thread \<Rightarrow> uplink_thread" where
  "set_img f t \<equiv> t\<lparr>us := (us t)\<lparr>img := f (img (us t))\<rparr>\<rparr>"

section \<open>Sending what is queued\<close>

text \<open>Results of the blocking sends, one after the other; a list that is used up stands for failures.\<close>

definition next_ok :: "bool list \<Rightarrow> bool" where
  "next_ok oks \<longleftrightarrow> oks \<noteq> [] \<and> hd oks"

definition queued_request :: "int \<Rightarrow> dnbd3_queue_entry_t \<Rightarrow> dnbd3_request_t" where
  "queued_request version it =
     block_request (qe_from it) (ucast (qe_to it - qe_from it)) (qe_handle it) (COND_HOPCOUNT version (qe_hopCount it))"

text \<open>
  The loop over the queue. It returns the queue, the requests of the last, incomplete batch, the requests that went out
  in full batches, whether a batch failed, and the remaining results.
\<close>

fun resend_loop ::
  "bool \<Rightarrow> int \<Rightarrow> bool \<Rightarrow> bool list \<Rightarrow> dnbd3_queue_entry_t list \<Rightarrow> dnbd3_request_t list
     \<Rightarrow> dnbd3_queue_entry_t list \<times> dnbd3_request_t list \<times> dnbd3_request_t list \<times> bool \<times> bool list" where
  "resend_loop newOnly version connected oks [] reqs = ([], reqs, [], False, oks)"
| "resend_loop newOnly version connected oks (it # q) reqs =
     (if newOnly \<and> qe_sent it
      then let (q', rest, out, failed, oks') = resend_loop newOnly version connected oks q reqs
           in (it # q', rest, out, failed, oks')
      else let it' = it\<lparr>qe_sent := True\<rparr>; reqs' = reqs @ [queued_request version it] in
        if length reqs' = MAX_RESEND_BATCH
        then if connected \<and> next_ok oks
             then let (q', rest, out, failed, oks') = resend_loop newOnly version connected (tl oks) q []
                  in (it' # q', rest, reqs' @ out, failed, oks')
             else (it' # q, [], if connected then reqs' else [], True, tl oks)
        else let (q', rest, out, failed, oks') = resend_loop newOnly version connected oks q reqs'
             in (it' # q', rest, out, failed, oks'))"

definition sendQueuedRequests :: "bool \<Rightarrow> bool list \<Rightarrow> uplink_state \<Rightarrow> uplink_state" where
  "sendQueuedRequests newOnly oks st =
     (let connected = (conn_fd (current (ul st)) \<noteq> -1);
          (q, rest, out, failed, oks') =
            resend_loop newOnly (conn_version (current (ul st))) connected oks (queue (ul st)) [];
          st1 = st\<lparr>ul := (ul st)\<lparr>queue := q\<rparr>, sends := sends st @ out,
                   img := (if failed then set_problem_uplink True (img st) else img st)\<rparr>
      in if rest \<noteq> [] \<and> connected
         then st1\<lparr>sends := sends st1 @ rest, img := set_problem_uplink (\<not> next_ok oks') (img st1)\<rparr>
         else st1)"

section \<open>Failures and keep-alives\<close>

text \<open>\<^verbatim>\<open>connectionFailed\<close>; \<open>None\<close> is the assertion in \<^verbatim>\<open>altservers_findUplinkAsync\<close>.\<close>

definition findUplinkAsync :: "uplink_thread \<Rightarrow> uplink_thread option" where
  "findUplinkAsync t =
     (case altservers_findUplinkAsync (numAltServers (alts t)) (uplinkref (img (us t)) = Some (me t)) (ul (us t)) of
        None \<Rightarrow> None
      | Some queued \<Rightarrow> Some (if queued then t\<lparr>checksQueued := checksQueued t + 1\<rparr> else t))"

definition connectionFailed :: "config \<Rightarrow> ticks \<Rightarrow> bool \<Rightarrow> uplink_thread \<Rightarrow> uplink_thread option" where
  "connectionFailed cfg now findNew t =
     (let u = ul (us t) in
      if conn_fd (current u) = -1 then Some t
      else
        let t1 = t\<lparr>alts := altservers_serverFailed now (nat (conn_index (current u))) (alts t),
                   closed := closed t @ [conn_fd (current u)]\<rparr>;
            t2 = set_img (set_problem_uplink True) t1;
            t3 = set_ul (\<lambda>u. u\<lparr>current := (current u)\<lparr>conn_fd := -1\<rparr>,
                   nextReplicationIndex := (if backgroundReplication cfg = BGR_FULL \<and> nextReplicationIndex u = -1
                                            then 0 else nextReplicationIndex u)\<rparr>) t2
        in if \<not> findNew then Some t3
           else if rttTestResult u = RTT_INPROGRESS \<or> conn_fd (better u) \<noteq> -1 then Some t3
           else findUplinkAsync t3)"

definition sendKeepalive :: "bool \<Rightarrow> uplink_state \<Rightarrow> bool \<times> uplink_state" where
  "sendKeepalive ok st = (ok, st\<lparr>sends := sends st @ [mk_request CMD_KEEPALIVE 0 0 0]\<rparr>)"

definition connectionShouldShutdown :: "config \<Rightarrow> uplink_state \<Rightarrow> bool" where
  "connectionShouldShutdown cfg st \<longleftrightarrow>
     idleTime (ul st) > SERVER_UPLINK_IDLE_TIMEOUT
     \<and> (backgroundReplication cfg \<noteq> BGR_FULL \<or> bgrMinClients cfg > users (img st))"

definition uplink_getHostString ::
  "(u8 list \<Rightarrow> string) \<Rightarrow> (u8 list \<Rightarrow> string) \<Rightarrow> alt_state \<Rightarrow> dnbd3_uplink_t \<Rightarrow> string option" where
  "uplink_getHostString ntop4 ntop6 st u =
     (let cur = (if conn_fd (current u) = -1 then -1 else conn_index (current u))
      in if cur = -1 then None else host_to_string ntop4 ntop6 (altservers_indexToHost (nat cur) st))"

section \<open>The list of checksums\<close>

text \<open>
  \<^verbatim>\<open>requestCrc32List\<close>: the list is stored in memory obtained from \<^verbatim>\<open>malloc\<close>, whose content is \<open>junk\<close>; \<open>crcfd\<close> is the
  descriptor of the file, \<open>wr1\<close> and \<open>wr2\<close> what the two writes return. The file is opened without truncating it: what a
  longer one had behind the new list stays.
\<close>

definition overwrite :: "byte list \<Rightarrow> byte list option \<Rightarrow> byte list" where
  "overwrite bs file = bs @ (case file of None \<Rightarrow> [] | Some old \<Rightarrow> drop (length bs) old)"

definition requestCrc32List ::
  "bool \<Rightarrow> nat \<Rightarrow> byte list \<Rightarrow> send_event list \<Rightarrow> recv_event list \<Rightarrow> int \<Rightarrow> int \<Rightarrow> int \<Rightarrow> uplink_thread \<Rightarrow> uplink_thread option" where
  "requestCrc32List pclmul align junk so si crcfd wr1 wr2 t =
     (let i = img (us t); blocks = nat (IMGSIZE_TO_HASHBLOCKS (virtualFilesize i)) in
      if virtualFilesize i = 0 then Some t
      else case dnbd3_get_crc32 (blocks * 4) so si of
        None \<Rightarrow> None
      | Some (None, _, _) \<Rightarrow> Some (set_img (set_problem_uplink True) t)
      | Some (Some (None, _), _, _) \<Rightarrow> Some t
      | Some (Some (Some masterCrc, bs), _, _) \<Rightarrow>
          if bs = [] then Some t
          else if Crc.crc32 pclmul align (Crc.crc32 pclmul 0 0 None) (Some bs) \<noteq> masterCrc then Some t
          else
            let t1 = set_img (\<lambda>i. i\<lparr>masterCrc32 := masterCrc, crc32 := Some (le_words blocks (bs @ drop (length bs) junk))\<rparr>) t
            in Some (if crcfd = -1 then t1
                     else if wr1 + wr2 \<noteq> 4 + int (length bs) then t1\<lparr>crcFile := None\<rparr>
                     else t1\<lparr>crcFile := Some (overwrite (to_le 4 masterCrc @ bs) (crcFile t))\<rparr>))"

section \<open>Receiving\<close>

text \<open>What one block reply meets: the memory \<^verbatim>\<open>realloc\<close> adds, the file opened again, the results of \<^verbatim>\<open>pwrite\<close>.\<close>

record rx_env =
  rx_junk :: "byte list"
  rx_fd :: int
  rx_script :: "pwrite_result list"

text \<open>
  The receive loop: \<open>True\<close> when it ends because no more data is there, \<open>False\<close> for \<^verbatim>\<open>error_cleanup\<close>. \<open>None\<close> is an assertion
  or a script that is too short.
\<close>

definition fill_recv :: "config \<Rightarrow> byte list \<Rightarrow> u32 \<Rightarrow> byte list \<Rightarrow> uplink_state \<Rightarrow> uplink_state" where
  "fill_recv cfg junk sz got st = st\<lparr>ul := fill_buffer got (grow_buffer cfg junk sz (ul st))\<rparr>"

text \<open>Reading uses the script up, which is why the loop ends.\<close>

definition script_size :: "recv_event list \<Rightarrow> nat" where
  "script_size s = length (all_data s) + length s"

lemma recv_waitall_le: "recv_waitall n s = Some (r, s') \<Longrightarrow> script_size s' \<le> script_size s"
proof (induction n s arbitrary: r s' rule: recv_waitall.induct)
  case (3 len bs s)
  show ?case
  proof (cases "bs = [] \<or> len \<le> length bs")
    case True
    then show ?thesis using "3.prems" by (auto simp: script_size_def split: if_splits)
  next
    case False
    then obtain r1 where "recv_waitall (len - length bs) s = Some (r1, s')"
      using "3.prems" by (auto split: option.splits sum.splits)
    then show ?thesis using "3.IH" False by (force simp: script_size_def)
  qed
qed (auto simp: script_size_def)

lemma read_reply_shrinks:
  assumes "dnbd3_read_reply False s = Some (r, s')" "r \<noteq> REPLY_AGAIN"
  shows "script_size s' < script_size s"
proof (cases s)
  case (Cons ev s1)
  show ?thesis
  proof (cases ev)
    case (Rerr e)
    then show ?thesis using assms Cons by (cases e) (auto simp: dnbd3_read_reply_def script_size_def)
  next
    case (Data bs)
    obtain got s2 where o: "recv_once 16 s = Some (Inr got, s2)" "script_size s2 < script_size s"
      using Cons Data by (cases "length bs \<le> 16") (auto simp: script_size_def)
    have "script_size s' \<le> script_size s2"
      using assms(1) Cons o recv_waitall_le [of "16 - length got" s2]
      by (auto simp: dnbd3_read_reply_def split: if_splits option.splits sum.splits)
    then show ?thesis using o(2) by simp
  qed
qed (use assms in \<open>simp add: dnbd3_read_reply_def\<close>)

lemma recv_loop_shrinks:
  "recv_loop len got intrs ret s = Some (r, got', s') \<Longrightarrow> script_size s' \<le> script_size s"
proof (induction len got intrs ret s rule: recv_loop.induct)
  case (2 len got intrs ret e s)
  then show ?case by (fastforce simp: script_size_def split: if_splits)
next
  case (3 len got intrs ret bs s)
  then show ?case by (fastforce simp: script_size_def Let_def split: if_splits)
qed (auto split: if_splits)

lemma sock_recv_shrinks: "sock_recv n s = Some (r, got, s') \<Longrightarrow> script_size s' \<le> script_size s"
  unfolding sock_recv_def by (rule recv_loop_shrinks)

function receive_loop ::
  "config \<Rightarrow> bool \<Rightarrow> rx_env list \<Rightarrow> recv_event list \<Rightarrow> uplink_state \<Rightarrow> (bool \<times> recv_event list \<times> uplink_state) option" where
  "receive_loop cfg globalShutdown envs s st =
     (case dnbd3_read_reply False s of
        None \<Rightarrow> None
      | Some (REPLY_INTR, s1) \<Rightarrow>
          if \<not> globalShutdown \<and> \<not> shutdown (ul st) then receive_loop cfg globalShutdown envs s1 st else Some (False, s1, st)
      | Some (REPLY_AGAIN, s1) \<Rightarrow> Some (True, s1, st)
      | Some (REPLY_OK reply, s1) \<Rightarrow>
          if rp_size reply > maxPayload cfg then Some (False, s1, st)
          else (case envs of
                  [] \<Rightarrow> None
                | e # es \<Rightarrow>
                    (case sock_recv (unat (rp_size reply)) s1 of
                       None \<Rightarrow> None
                     | Some (ret, got, s2) \<Rightarrow>
                         let st1 = fill_recv cfg (rx_junk e) (rp_size reply) got st in
                         if ret \<noteq> int (unat (rp_size reply)) then Some (False, s2, st1)
                         else if rp_cmd reply \<noteq> CMD_GET_BLOCK then receive_loop cfg globalShutdown es s2 st1
                         else (case receive_block globalShutdown (rx_fd e) (rx_script e) (rp_handle reply) got st1 of
                                 None \<Rightarrow> None
                               | Some st2 \<Rightarrow> receive_loop cfg globalShutdown es s2 st2)))
      | Some (_, s1) \<Rightarrow> Some (False, s1, st))"
  by pat_completeness auto
termination
  by (relation "measure (\<lambda>(cfg, gs, envs, s, st). script_size s)")
    (auto dest!: read_reply_shrinks sock_recv_shrinks intro: le_less_trans)

declare receive_loop.simps [simp del]

definition handleReceive ::
  "config \<Rightarrow> bool \<Rightarrow> ticks \<Rightarrow> rx_env list \<Rightarrow> recv_event list \<Rightarrow> bool list \<Rightarrow> uplink_thread \<Rightarrow> uplink_thread option" where
  "handleReceive cfg globalShutdown now envs s oks t =
     (if queueLen (ul (us t)) < 0 then None
      else case receive_loop cfg globalShutdown envs s (us t) of
        None \<Rightarrow> None
      | Some (False, _, st) \<Rightarrow> connectionFailed cfg now True (t\<lparr>us := st\<rparr>)
      | Some (True, _, st) \<Rightarrow>
          (case sendReplicationRequest cfg oks st of
             (True, st1) \<Rightarrow> Some (t\<lparr>us := st1\<rparr>)
           | (False, st1) \<Rightarrow> connectionFailed cfg now True (t\<lparr>us := st1\<rparr>)))"

section \<open>The main loop\<close>

text \<open>What \<^verbatim>\<open>poll\<close> reports for one of the two descriptors: an error or hang-up comes first.\<close>

datatype poll_event = NoEvent | ErrorEvent | InEvent

datatype poll_result = PollFailed | Polled poll_event poll_event

text \<open>
  The environment of one iteration: the global shutdown flag at the points where it is read, the result of \<^verbatim>\<open>poll\<close>, the
  clock, what the sockets do, and the results of sending.
\<close>

record iter_env =
  it_shutdown0 :: bool
  it_shutdown1 :: bool
  it_shutdown2 :: bool
  it_poll :: poll_result
  it_now :: ticks
  it_fail :: ticks
  it_pclmul :: bool
  it_align :: nat
  it_junk :: "byte list"
  it_so :: "send_event list"
  it_si :: "recv_event list"
  it_crcfd :: int
  it_wr1 :: int
  it_wr2 :: int
  it_resend :: "bool list"
  it_repl1 :: "bool list"
  it_send :: "bool list"
  it_rx :: "rx_env list"
  it_data :: "recv_event list"
  it_repl2 :: "bool list"
  it_keepalive :: bool
  it_repl3 :: "bool list"

text \<open>How long \<^verbatim>\<open>poll\<close> waits, in milliseconds.\<close>

definition wait_time :: "ticks \<Rightarrow> uplink_thread \<Rightarrow> int" where
  "wait_time now t =
     (if rttTestResult (ul (us t)) = RTT_DOCHANGE then 0
      else let waitTime = sint (ucast (timing_diffMs now (nextAltCheck t)) :: 32 word)
           in if waitTime < 100 then 100 else if waitTime > 10000 then 10000 else waitTime)"

text \<open>
  \<^verbatim>\<open>altservers_findUplink\<close> measures and waits while another measurement is running (\<open>None\<close>: it never ends, or an
  assertion). The thread starts with it unless it was started with a connection.
\<close>

definition altservers_findUplink ::
  "config \<Rightarrow> bool \<Rightarrow> ticks \<Rightarrow> nat stream \<Rightarrow> bool \<Rightarrow> (nat \<Rightarrow> probe_env) \<Rightarrow> dnbd3_image_t \<Rightarrow> dnbd3_uplink_t \<Rightarrow> alt_state
     \<Rightarrow> (dnbd3_uplink_t \<times> alt_state \<times> int list \<times> bool) option" where
  "altservers_findUplink cfg globalShutdown now rs imageThere envs i u st =
     (case altservers_findUplinkInternal cfg globalShutdown now rs imageThere envs i u st of
        None \<Rightarrow> None
      | Some (u', st', fds, sig) \<Rightarrow> if rttTestResult u' = RTT_INPROGRESS then None else Some (u', st', fds, sig))"

definition mainloop_start ::
  "config \<Rightarrow> bool \<Rightarrow> ticks \<Rightarrow> nat stream \<Rightarrow> bool \<Rightarrow> (nat \<Rightarrow> probe_env) \<Rightarrow> int \<Rightarrow> nat \<Rightarrow> alt_state \<Rightarrow> uplink_state
     \<Rightarrow> uplink_thread option" where
  "mainloop_start cfg globalShutdown now rs imageThere envs fd self st u0 =
     (let u = snd (reopenCacheFd False fd u0);
          t = \<lparr>us = u, alts = st, me = self, altCheckInterval = SERVER_RTT_INTERVAL_INIT, discoverFailCount = 0,
               nextAltCheck = now, lastKeepalive = now, closed = [], checksQueued = 0, crcFile = None, unlinked = []\<rparr>
      in if rttTestResult (ul u) = RTT_DOCHANGE then Some t
         else case altservers_findUplink cfg globalShutdown now rs imageThere envs (img u) (ul u) st of
                None \<Rightarrow> None
              | Some (ul', st', fds, _) \<Rightarrow> Some (set_ul (\<lambda>_. ul') (t\<lparr>alts := st', closed := fds\<rparr>)))"

text \<open>Switching to the server the measurement found.\<close>

definition take_better :: "uplink_thread \<Rightarrow> uplink_thread" where
  "take_better t =
     (let fd = conn_fd (current (ul (us t)));
          t1 = set_ul (\<lambda>u. u\<lparr>rttTestResult := RTT_IDLE, current := better u, better := (better u)\<lparr>conn_fd := -1\<rparr>,
                 cycleDetected := False, replicatedLastBlock := False\<rparr>) t;
          t2 = t1\<lparr>discoverFailCount := 0, closed := closed t @ (if fd \<noteq> -1 then [fd] else [])\<rparr>
      in set_img (set_problem_uplink False) t2)"

definition switch_server :: "config \<Rightarrow> iter_env \<Rightarrow> uplink_thread \<Rightarrow> uplink_thread option" where
  "switch_server cfg e t =
     (if rttTestResult (ul (us t)) \<noteq> RTT_DOCHANGE then Some t
      else
        let t3 = take_better t
        in case (if dnbd3_image_t.crc32 (img (us t3)) = None
                 then requestCrc32List (it_pclmul e) (it_align e) (it_junk e) (it_so e) (it_si e) (it_crcfd e) (it_wr1 e) (it_wr2 e) t3
                 else Some t3) of
             None \<Rightarrow> None
           | Some t4 \<Rightarrow>
               let t5 = t4\<lparr>us := sendQueuedRequests False (it_resend e) (us t4)\<rparr>;
                   t6 = t5\<lparr>us := snd (sendReplicationRequest cfg (it_repl1 e) (us t5))\<rparr>
               in case (if p_uplink (problem (img (us t6))) then connectionFailed cfg (it_fail e) True t6 else Some t6) of
                    None \<Rightarrow> None
                  | Some t7 \<Rightarrow> Some (t7\<lparr>nextAltCheck := timing_set (it_now e) (altCheckInterval t7)\<rparr>))"

text \<open>The steps that follow return whether the loop goes on (\<open>True\<close>) or jumps to \<^verbatim>\<open>cleanup\<close>.\<close>

definition signal_step :: "iter_env \<Rightarrow> poll_event \<Rightarrow> uplink_thread \<Rightarrow> bool \<times> uplink_thread" where
  "signal_step e ev t =
     (case ev of
        ErrorEvent \<Rightarrow> (False, set_img (set_problem_uplink True) t)
      | NoEvent \<Rightarrow> (True, t)
      | InEvent \<Rightarrow>
          (True, if conn_fd (current (ul (us t))) \<noteq> -1 then t\<lparr>us := sendQueuedRequests True (it_send e) (us t)\<rparr>
                 else if queueLen (ul (us t)) \<noteq> 0 then set_ul (\<lambda>u. u\<lparr>idleTime := 0\<rparr>) t
                 else t))"

definition socket_step :: "config \<Rightarrow> iter_env \<Rightarrow> poll_event \<Rightarrow> uplink_thread \<Rightarrow> (bool \<times> uplink_thread) option" where
  "socket_step cfg e ev t =
     (case ev of
        NoEvent \<Rightarrow> Some (True, t)
      | ErrorEvent \<Rightarrow> map_option (Pair True) (connectionFailed cfg (it_fail e) True t)
      | InEvent \<Rightarrow>
          (case handleReceive cfg (it_shutdown1 e) (it_fail e) (it_rx e) (it_data e) (it_repl2 e) t of
             None \<Rightarrow> None
           | Some t1 \<Rightarrow> Some (\<not> (it_shutdown2 e \<or> shutdown (ul (us t1))), t1)))"

definition keepalive_step :: "config \<Rightarrow> iter_env \<Rightarrow> uplink_thread \<Rightarrow> (bool \<times> uplink_thread) option" where
  "keepalive_step cfg e t =
     (let timepassed = timing_diff (lastKeepalive t) (it_now e) in
      if timepassed \<ge> SERVER_UPLINK_KEEPALIVE_INTERVAL
         \<or> timepassed \<ge> 2 \<and> idleTime (ul (us t)) < bgrWindowSize cfg
      then
        let t1 = set_ul (\<lambda>u. u\<lparr>idleTime := idleTime u + int (unat timepassed)\<rparr>) (t\<lparr>lastKeepalive := it_now e\<rparr>)
        in case (if conn_fd (current (ul (us t1))) \<noteq> -1 \<and> queueLen (ul (us t1)) < bgrWindowSize cfg
                 then (case sendKeepalive (it_keepalive e) (us t1) of
                         (False, st) \<Rightarrow> connectionFailed cfg (it_fail e) True (t1\<lparr>us := st\<rparr>)
                       | (True, st) \<Rightarrow>
                           (case sendReplicationRequest cfg (it_repl3 e) st of
                              (False, st1) \<Rightarrow> connectionFailed cfg (it_fail e) True (t1\<lparr>us := st1\<rparr>)
                            | (True, st1) \<Rightarrow> Some (t1\<lparr>us := st1\<rparr>)))
                 else Some t1) of
             None \<Rightarrow> None
           | Some t2 \<Rightarrow> Some (\<not> connectionShouldShutdown cfg (us t2), t2)
      else Some (True, t))"

definition rtt_step :: "config \<Rightarrow> iter_env \<Rightarrow> uplink_thread \<Rightarrow> (bool \<times> uplink_thread) option" where
  "rtt_step cfg e t =
     (let u = ul (us t); r = rttTestResult u in
      if r = RTT_IDLE \<or> r = RTT_DONTCHANGE
      then if timing_reached (nextAltCheck t) (it_now e) \<or> conn_fd (current u) = -1 \<and> discoverFailCount t = 0 \<or> cycleDetected u
           then (case image_isComplete (img (us t)) of
                   (True, i, files) \<Rightarrow>
                     Some (False, set_img (\<lambda>_. set_problem_uplink False i) (t\<lparr>unlinked := unlinked t @ files\<rparr>))
                 | (False, i, files) \<Rightarrow>
                     (case findUplinkAsync (set_img (\<lambda>_. i) t) of
                        None \<Rightarrow> None
                      | Some t1 \<Rightarrow>
                          let t2 = set_ul (\<lambda>u. u\<lparr>nextReplicationIndex :=
                                     (if backgroundReplication cfg = BGR_FULL \<and> nextReplicationIndex u = -1
                                      then 0 else nextReplicationIndex u)\<rparr>) t1;
                              interval = min (altCheckInterval t2 + 1) SERVER_RTT_INTERVAL_MAX
                          in Some (True, t2\<lparr>altCheckInterval := interval, nextAltCheck := timing_set (it_now e) interval\<rparr>)))
           else Some (True, t)
      else if r = RTT_NOT_REACHABLE
      then let t1 = set_ul (\<lambda>u. u\<lparr>rttTestResult := RTT_IDLE,
                      cycleDetected := (if conn_fd (current u) = -1 then False else cycleDetected u)\<rparr>)
                      (t\<lparr>discoverFailCount := discoverFailCount t + 1\<rparr>)
           in Some (True, t1\<lparr>nextAltCheck := timing_set (it_now e)
                     (if discoverFailCount t1 < SERVER_RTT_MAX_UNREACH then altCheckInterval t1
                      else SERVER_RTT_INTERVAL_FAILED)\<rparr>)
      else Some (True, t))"

definition mainloop_body :: "config \<Rightarrow> iter_env \<Rightarrow> uplink_thread \<Rightarrow> (bool \<times> uplink_thread) option" where
  "mainloop_body cfg e t =
     (if it_shutdown0 e \<or> shutdown (ul (us t)) then Some (False, t)
      else if it_shutdown1 e then Some (False, t)
      else case it_poll e of
        PollFailed \<Rightarrow> Some (True, t)
      | Polled sig sock \<Rightarrow>
          (case switch_server cfg e t of
             None \<Rightarrow> None
           | Some t1 \<Rightarrow>
               (case signal_step e sig t1 of
                  (False, t2) \<Rightarrow> Some (False, t2)
                | (True, t2) \<Rightarrow>
                    (case socket_step cfg e sock t2 of
                       None \<Rightarrow> None
                     | Some (False, t3) \<Rightarrow> Some (False, t3)
                     | Some (True, t3) \<Rightarrow>
                         (case keepalive_step cfg e t3 of
                            None \<Rightarrow> None
                          | Some (False, t4) \<Rightarrow> Some (False, t4)
                          | Some (True, t4) \<Rightarrow> rtt_step cfg e t4)))))"

text \<open>The label \<^verbatim>\<open>cleanup\<close>.\<close>

definition uplink_cleanup :: "uplink_thread \<Rightarrow> uplink_thread" where
  "uplink_cleanup t =
     (let t1 = set_img (\<lambda>i. i\<lparr>ref_cacheMap := map_option (\<lambda>c. c\<lparr>dirty := True\<rparr>) (ref_cacheMap i)\<rparr>) t;
          t2 = (if shutdown (ul (us t1)) then t1
                else set_ul (\<lambda>u. u\<lparr>shutdown := True\<rparr>) (set_img (\<lambda>i. i\<lparr>users := users i + 1\<rparr>) t1))
      in if uplinkref (img (us t2)) = Some (me t2)
         then set_img (\<lambda>i. i\<lparr>uplinkref := None\<rparr>) (t2\<lparr>us := cancelAllRequests (us t2)\<rparr>)
         else t2)"

text \<open>The loop along a sequence of environments; \<open>None\<close> when it is still running at the end or an assertion failed.\<close>

fun uplink_mainloop :: "config \<Rightarrow> iter_env list \<Rightarrow> uplink_thread \<Rightarrow> uplink_thread option" where
  "uplink_mainloop cfg [] t = None"
| "uplink_mainloop cfg (e # es) t =
     (case mainloop_body cfg e t of
        None \<Rightarrow> None
      | Some (True, t1) \<Rightarrow> uplink_mainloop cfg es t1
      | Some (False, t1) \<Rightarrow> Some (uplink_cleanup t1))"

end
