(* ===== verification/CrcProof.thy ===== *)
theory CrcProof
  imports Crc
begin

text \<open>
  The routines of \<^verbatim>\<open>src/shared/crc32.c\<close> compute CRC-32. Everything here is linear over exclusive-or, so that a
  table is checked through its eight powers of two, and the carry-less products through the few constants they
  multiply by.
\<close>

section \<open>Linearity\<close>

lemma crc_bit_0 [simp]: "crc_bit 0 = 0"
  by (simp add: crc_bit_def)

lemma crc_bit_xor: "crc_bit (x XOR y) = crc_bit x XOR crc_bit y"
  by (cases "bit x 0"; cases "bit y 0") (simp_all add: crc_bit_def bit_simps ac_simps)

lemma crc_bits_0 [simp]: "(crc_bit ^^ n) 0 = 0"
  by (induction n) simp_all

lemma crc_bits_xor: "(crc_bit ^^ n) (x XOR y) = (crc_bit ^^ n) x XOR (crc_bit ^^ n) y"
  by (induction n) (simp_all add: crc_bit_xor)

lemma crc_bits_add: "(crc_bit ^^ m) ((crc_bit ^^ n) x) = (crc_bit ^^ (m + n)) x"
  by (simp add: funpow_add)

text \<open>While only zero bits are shifted out, the register just shifts.\<close>

lemma crc_bits_shift: "(\<forall>i < n. \<not> bit x i) \<Longrightarrow> (crc_bit ^^ n) x = drop_bit n x"
proof (induction n arbitrary: x)
  case (Suc n)
  then have "crc_bit x = drop_bit 1 x" by (simp add: crc_bit_def)
  moreover have "\<forall>i < n. \<not> bit (drop_bit 1 x) i" using Suc.prems by (simp add: bit_simps)
  ultimately show ?case
    using Suc.IH [of "drop_bit 1 x"] by (simp add: funpow_Suc_right del: funpow.simps)
qed simp

lemma crc_bits_8: "(crc_bit ^^ 8) c = (crc_bit ^^ 8) (c AND 0xff) XOR drop_bit 8 c"
proof -
  have m: "(0xff :: u32) = mask 8" by (simp add: mask_eq_exp_minus_1)
  have "c = (c AND mask 8) XOR (c AND NOT (mask 8))"
    by (rule bit_word_eqI) (auto simp: bit_simps)
  then have "(crc_bit ^^ 8) c = (crc_bit ^^ 8) (c AND mask 8) XOR (crc_bit ^^ 8) (c AND NOT (mask 8))"
    by (metis crc_bits_xor)
  also have "(crc_bit ^^ 8) (c AND NOT (mask 8)) = drop_bit 8 (c AND NOT (mask 8))"
    by (rule crc_bits_shift) (simp add: bit_simps)
  also have "\<dots> = drop_bit 8 c"
    by (rule bit_word_eqI) (auto simp: bit_simps dest: bit_imp_le_length)
  finally show ?thesis by (simp only: m)
qed

section \<open>Tables\<close>

text \<open>
  The table that the values at 128, 64, \<dots>, 1 generate by exclusive-or, and a check of a given table against it that
  rewriting can run.
\<close>

fun xor_gen :: "u32 list \<Rightarrow> u32 \<Rightarrow> u32 list" where
  "xor_gen [] x = [x]"
| "xor_gen (v # vs) x = xor_gen vs x @ xor_gen vs (x XOR v)"

function xor_check :: "(u32 list \<times> u32) list \<Rightarrow> u32 list \<Rightarrow> bool" where
  "xor_check [] T \<longleftrightarrow> T = []"
| "xor_check (([], x) # S) [] \<longleftrightarrow> False"
| "xor_check (([], x) # S) (t # T) = (if x = t then xor_check S T else False)"
| "xor_check ((v # vs, x) # S) T = xor_check ((vs, x) # (vs, x XOR v) # S) T"
  by pat_completeness auto
termination
  by (relation "measure (\<lambda>(S, T). sum_list (map (\<lambda>(vs, x). 3 ^ length vs) S))") auto

lemma xor_check_cong: "S = S' \<Longrightarrow> xor_check S T = xor_check S' T"
  by simp

lemma xor_check_sound: "xor_check S T \<Longrightarrow> T = concat (map (\<lambda>(vs, x). xor_gen vs x) S)"
  by (induction S T rule: xor_check.induct) (auto split: if_splits)

lemma xor_gen_linear:
  fixes f :: "u32 \<Rightarrow> u32"
  assumes "\<And>x y. f (x XOR y) = f x XOR f y" "n < 32"
  shows "xor_gen (map (\<lambda>k. f (2 ^ k)) (rev [0 ..< n])) (f a) = map (\<lambda>i. f (a XOR word_of_nat i)) [0 ..< 2 ^ n]"
  using assms(2)
proof (induction n arbitrary: a)
  case (Suc n)
  have nat: "word_of_nat (2 ^ n + i) = 2 ^ n XOR (word_of_nat i :: u32)" if "i < 2 ^ n" for i
  proof -
    have d: "2 ^ n AND (word_of_nat i :: u32) = 0"
    proof (rule bit_word_eqI)
      fix k assume "k < LENGTH(32)"
      have "\<not> bit i n" using that by (metis bit_take_bit_iff less_irrefl take_bit_nat_eq_self)
      then show "bit (2 ^ n AND (word_of_nat i :: u32)) k = bit (0 :: u32) k"
        by (auto simp: bit_simps)
    qed
    have "(word_of_nat (2 ^ n + i) :: u32) = 2 ^ n + word_of_nat i" by simp
    then show ?thesis using d by (simp add: disjunctive_xor_eq_or disjunctive_add_eq_xor)
  qed
  have "[0 ..< 2 ^ Suc n] = [0 ..< 2 ^ n] @ map (\<lambda>i. 2 ^ n + i) [0 ..< 2 ^ n]"
    using upt_add_eq_append [of 0 "2 ^ n" "2 ^ n"] map_add_upt [of "2 ^ n" "2 ^ n"] by (simp add: add.commute mult_2)
  moreover have "map (\<lambda>i. f (a XOR word_of_nat (2 ^ n + i))) [0 ..< 2 ^ n] = map (\<lambda>i. f ((a XOR 2 ^ n) XOR word_of_nat i)) [0 ..< 2 ^ n]"
    by (intro map_cong) (simp_all add: nat xor.assoc del: of_nat_add)
  ultimately show ?case
    using Suc.IH [of a] Suc.IH [of "a XOR 2 ^ n"] Suc.prems by (simp add: comp_def assms(1))
qed simp

lemma table_correct:
  fixes f :: "u32 \<Rightarrow> u32"
  assumes "\<And>x y. f (x XOR y) = f x XOR f y" "xor_check [(vs, 0)] T"
    and "map f [128, 64, 32, 16, 8, 4, 2, 1] = vs"
  shows "T = map (\<lambda>i. f (word_of_nat i)) [0 ..< 256]"
proof -
  have f0: "f 0 = 0" using assms(1) [of 0 0] by simp
  have "rev [0 ..< 8] = [7, 6, 5, 4, 3, 2, 1, 0 :: nat]" by (simp add: upt_rec)
  then have "map (\<lambda>k. f (2 ^ k)) (rev [0 ..< 8]) = vs" using assms(3) by simp
  then show ?thesis
    using xor_check_sound [OF assms(2)] xor_gen_linear [of f 8 0, OF assms(1)] f0 by simp
qed

lemma unat_byte_less: "unat ((c :: u32) AND 0xff) < 256"
proof -
  have "(0xff :: u32) = mask 8" by (simp add: mask_eq_exp_minus_1)
  then have "c AND 0xff = take_bit 8 c" by (simp only: take_bit_eq_mask)
  then show ?thesis by (simp add: unsigned_take_bit_eq take_bit_nat_less_exp [of 8, simplified])
qed

text \<open>Evaluation on natural numbers, where a shift of a numeral is one rewrite step.\<close>

definition crc_nat :: "nat \<Rightarrow> nat" where
  "crc_nat n = (if odd n then (n div 2) XOR 0xEDB88320 else n div 2)"

lemma crc_nat_eval [simp]:
  "crc_nat 0 = 0" "crc_nat (Suc 0) = 0xEDB88320" "crc_nat 1 = 0xEDB88320" "crc_nat (numeral (Num.Bit0 m)) = numeral m"
  "crc_nat (numeral (Num.Bit1 m)) = numeral m XOR 0xEDB88320"
  by (simp_all add: crc_nat_def)

primrec crc_nats :: "nat \<Rightarrow> nat \<Rightarrow> nat" where
  "crc_nats 0 n = n"
| "crc_nats (Suc k) n = crc_nats k (crc_nat n)"

lemma crc_nats_numeral [simp]: "crc_nats (numeral k) n = crc_nats (pred_numeral k) (crc_nat n)"
  by (simp add: numeral_eq_Suc)

lemma crc_nat_less: "n < 2 ^ 32 \<Longrightarrow> crc_nat n < 2 ^ 32"
proof -
  assume "n < 2 ^ 32"
  then have "take_bit 32 (n div 2) = n div 2" by (intro take_bit_nat_eq_self) simp
  then have "take_bit 32 (crc_nat n) = crc_nat n" by (simp add: crc_nat_def take_bit_xor)
  then show ?thesis by (metis take_bit_nat_less_exp)
qed

lemma crc_bit_nat: "n < 2 ^ 32 \<Longrightarrow> crc_bit (word_of_nat n) = word_of_nat (crc_nat n)"
proof -
  assume "n < 2 ^ 32"
  then have "drop_bit 1 (word_of_nat n :: u32) = word_of_nat (n div 2)"
    by (intro word_unat_eq_iff [THEN iffD2])
      (simp add: unat_div_distrib unsigned_of_nat take_bit_nat_eq_self drop_bit_Suc)
  moreover have "bit (word_of_nat n :: u32) 0 \<longleftrightarrow> odd n" by (simp add: bit_0)
  ultimately show ?thesis
    by (simp add: crc_bit_def crc_nat_def of_nat_xor_eq)
qed

lemma crc_bits_nat: "n < 2 ^ 32 \<Longrightarrow> (crc_bit ^^ k) (word_of_nat n) = word_of_nat (crc_nats k n)"
proof (induction k arbitrary: n)
  case (Suc k)
  then show ?case
    using crc_nat_less [of n] by (simp add: funpow_Suc_right crc_bit_nat del: funpow.simps)
qed simp

lemma crc_bits_numeral:
  "numeral m < (2 :: nat) ^ 32 \<Longrightarrow> (crc_bit ^^ k) (numeral m) = word_of_nat (crc_nats k (numeral m))"
  "(crc_bit ^^ k) 1 = word_of_nat (crc_nats k 1)"
  using crc_bits_nat [of "numeral m" k] crc_bits_nat [of 1 k] by simp_all

lemma table0_basis: "map (crc_bit ^^ 8) [128, 64, 32, 16, 8, 4, 2, 1] = [0xedb88320, 0x76dc4190, 0x3b6e20c8, 0x1db71064, 0x0edb8832, 0x076dc419, 0xee0e612c, 0x77073096]"
  by (simp add: crc_bits_numeral del: funpow.simps)

lemma table1_basis: "map (crc_bit ^^ 8) [0xedb88320, 0x76dc4190, 0x3b6e20c8, 0x1db71064, 0x0edb8832, 0x076dc419, 0xee0e612c, 0x77073096] = [0x3b83984b, 0xf0794f05, 0x958424a2, 0x4ac21251, 0xc8d98a08, 0x646cc504, 0x32366282, 0x191b3141]"
  by (simp add: crc_bits_numeral del: funpow.simps)

lemma table2_basis: "map (crc_bit ^^ 8) [0x3b83984b, 0xf0794f05, 0x958424a2, 0x4ac21251, 0xc8d98a08, 0x646cc504, 0x32366282, 0x191b3141] = [0xe1351b80, 0x709a8dc0, 0x384d46e0, 0x1c26a370, 0x0e1351b8, 0x0709a8dc, 0x0384d46e, 0x01c26a37]"
  by (simp add: crc_bits_numeral del: funpow.simps)

lemma table3_basis: "map (crc_bit ^^ 8) [0xe1351b80, 0x709a8dc0, 0x384d46e0, 0x1c26a370, 0x0e1351b8, 0x0709a8dc, 0x0384d46e, 0x01c26a37] = [0xed59b63b, 0x9b14583d, 0xa032af3e, 0x5019579f, 0xc5b428ef, 0x8f629757, 0xaa09c88b, 0xb8bc6765]"
  by (simp add: crc_bits_numeral del: funpow.simps)

lemma table0_check: "xor_check [([0xedb88320, 0x76dc4190, 0x3b6e20c8, 0x1db71064, 0x0edb8832, 0x076dc419, 0xee0e612c, 0x77073096], 0)] crc_table0"
  unfolding crc_table0_def by (simp cong: xor_check_cong)

lemma table1_check: "xor_check [([0x3b83984b, 0xf0794f05, 0x958424a2, 0x4ac21251, 0xc8d98a08, 0x646cc504, 0x32366282, 0x191b3141], 0)] crc_table1"
  unfolding crc_table1_def by (simp cong: xor_check_cong)

lemma table2_check: "xor_check [([0xe1351b80, 0x709a8dc0, 0x384d46e0, 0x1c26a370, 0x0e1351b8, 0x0709a8dc, 0x0384d46e, 0x01c26a37], 0)] crc_table2"
  unfolding crc_table2_def by (simp cong: xor_check_cong)

lemma table3_check: "xor_check [([0xed59b63b, 0x9b14583d, 0xa032af3e, 0x5019579f, 0xc5b428ef, 0x8f629757, 0xaa09c88b, 0xb8bc6765], 0)] crc_table3"
  unfolding crc_table3_def by (simp cong: xor_check_cong)

lemma table4_check: "xor_check [([0x2083b8ed, 0x9041dc76, 0xc8206e3b, 0x6410b71d, 0x3288db0e, 0x19c46d07, 0x2c610eee, 0x96300777], 0)] crc_table4"
  unfolding crc_table4_def by (simp cong: xor_check_cong)

lemma table5_check: "xor_check [([0x4b98833b, 0x054f79f0, 0xa2248495, 0x5112c24a, 0x088ad9c8, 0x04c56c64, 0x82623632, 0x41311b19], 0)] crc_table5"
  unfolding crc_table5_def by (simp cong: xor_check_cong)

lemma table6_check: "xor_check [([0x801b35e1, 0xc08d9a70, 0xe0464d38, 0x70a3261c, 0xb851130e, 0xdca80907, 0x6ed48403, 0x376ac201], 0)] crc_table6"
  unfolding crc_table6_def by (simp cong: xor_check_cong)

lemma table7_check: "xor_check [([0x3bb659ed, 0x3d58149b, 0x3eaf32a0, 0x9f571950, 0xef28b4c5, 0x5797628f, 0x8bc809aa, 0x6567bcb8], 0)] crc_table7"
  unfolding crc_table7_def by (simp cong: xor_check_cong)

lemma table_correct_bits:
  assumes "xor_check [(vs, 0)] T" "map (crc_bit ^^ n) [128, 64, 32, 16, 8, 4, 2, 1] = vs" "i < 256"
  shows "T ! i = (crc_bit ^^ n) (word_of_nat i)"
  using table_correct [OF crc_bits_xor assms(1,2)] assms(3) by simp

lemma basis_chain:
  "map (crc_bit ^^ n) xs = ys \<Longrightarrow> map (crc_bit ^^ m) ys = zs \<Longrightarrow> map (crc_bit ^^ (m + n)) xs = zs"
  by (auto simp: funpow_add)

lemma table_entries:
  assumes "i < 256"
  shows "crc_table0 ! i = (crc_bit ^^ 8) (word_of_nat i)" "crc_table1 ! i = (crc_bit ^^ 16) (word_of_nat i)"
    "crc_table2 ! i = (crc_bit ^^ 24) (word_of_nat i)" "crc_table3 ! i = (crc_bit ^^ 32) (word_of_nat i)"
proof -
  note b1 = basis_chain [OF table0_basis table1_basis]
  note b2 = basis_chain [OF b1 table2_basis]
  note b3 = basis_chain [OF b2 table3_basis]
  show "crc_table0 ! i = (crc_bit ^^ 8) (word_of_nat i)"
    by (rule table_correct_bits [OF table0_check table0_basis assms])
  show "crc_table1 ! i = (crc_bit ^^ 16) (word_of_nat i)"
    using table_correct_bits [OF table1_check b1 assms] by (simp del: funpow.simps)
  show "crc_table2 ! i = (crc_bit ^^ 24) (word_of_nat i)"
    using table_correct_bits [OF table2_check b2 assms] by (simp del: funpow.simps)
  show "crc_table3 ! i = (crc_bit ^^ 32) (word_of_nat i)"
    using table_correct_bits [OF table3_check b3 assms] by (simp del: funpow.simps)
qed

section \<open>Byte and word steps\<close>

lemma table_lookup:
  fixes c :: u32
  shows "crc_table0 ! unat (c AND 0xff) = (crc_bit ^^ 8) (c AND 0xff)"
    "crc_table1 ! unat (c AND 0xff) = (crc_bit ^^ 16) (c AND 0xff)"
    "crc_table2 ! unat (c AND 0xff) = (crc_bit ^^ 24) (c AND 0xff)"
    "crc_table3 ! unat (c AND 0xff) = (crc_bit ^^ 32) (c AND 0xff)"
  using table_entries [OF unat_byte_less [of c]] by (simp_all del: funpow.simps)

lemma crc_step_ref: "crc_step c b = (crc_bit ^^ 8) (c XOR ucast b)"
proof -
  have "drop_bit 8 (c XOR ucast b) = drop_bit 8 c"
    by (rule bit_word_eqI) (auto simp: bit_simps dest: bit_imp_le_length)
  then show ?thesis
    using crc_bits_8 [of "c XOR ucast b"] by (simp add: crc_step_def table_lookup del: funpow.simps)
qed

lemma foldl_crc_step: "foldl crc_step c bs = crc_ref c bs"
  by (simp add: crc_ref_def crc_step_ref [abs_def])

text \<open>A register is the sum of its bytes, and a higher byte has fewer zero bits to go.\<close>

lemma crc_bits_push:
  fixes x :: u32
  assumes "\<forall>i. bit x i \<longrightarrow> i + k < 32"
  shows "(crc_bit ^^ (k + n)) (push_bit k x) = (crc_bit ^^ n) x"
proof -
  have "(crc_bit ^^ k) (push_bit k x) = drop_bit k (push_bit k x)"
    by (rule crc_bits_shift) (simp add: bit_simps)
  also have "\<dots> = x" using assms by (intro bit_word_eqI) (auto simp: bit_simps)
  finally show ?thesis by (simp add: add.commute [of k] funpow_add)
qed

lemma crc_bits_32:
  "(crc_bit ^^ 32) c = (crc_bit ^^ 32) (c AND 0xff) XOR (crc_bit ^^ 24) (drop_bit 8 c AND 0xff)
     XOR (crc_bit ^^ 16) (drop_bit 16 c AND 0xff) XOR (crc_bit ^^ 8) (drop_bit 24 c AND 0xff)"
proof -
  have m: "(0xff :: u32) = mask 8" by (simp add: mask_eq_exp_minus_1)
  have "c = (c AND mask 8) XOR push_bit 8 (drop_bit 8 c AND mask 8) XOR push_bit 16 (drop_bit 16 c AND mask 8)
      XOR push_bit 24 (drop_bit 24 c AND mask 8)"
  proof (rule bit_word_eqI)
    fix i assume i: "i < LENGTH(32)"
    consider "i < 8" | "8 \<le> i" "i < 16" | "16 \<le> i" "i < 24" | "24 \<le> i" by linarith
    then show "bit c i = bit ((c AND mask 8) XOR push_bit 8 (drop_bit 8 c AND mask 8) XOR push_bit 16 (drop_bit 16 c AND mask 8)
      XOR push_bit 24 (drop_bit 24 c AND mask 8)) i"
      by cases (use i in \<open>auto simp: bit_simps\<close>)
  qed
  then have "(crc_bit ^^ 32) c = (crc_bit ^^ 32) (c AND mask 8) XOR (crc_bit ^^ (8 + 24)) (push_bit 8 (drop_bit 8 c AND mask 8))
      XOR (crc_bit ^^ (16 + 16)) (push_bit 16 (drop_bit 16 c AND mask 8))
      XOR (crc_bit ^^ (24 + 8)) (push_bit 24 (drop_bit 24 c AND mask 8))"
    by (simp add: crc_bits_xor [symmetric] del: funpow.simps)
  moreover have "(crc_bit ^^ (k + n)) (push_bit k (y AND mask 8)) = (crc_bit ^^ n) (y AND mask 8)" if "k \<le> 24" for k n y
    using that by (intro crc_bits_push) (auto simp: bit_simps)
  ultimately show ?thesis
    unfolding m by (simp only:)
qed

lemma DOLIT4_ref: "DOLIT4 c w = (crc_bit ^^ 32) (c XOR w)"
proof -
  have "drop_bit 24 x = drop_bit 24 x AND 0xff" for x :: u32
  proof -
    have "(0xff :: u32) = mask 8" by (simp add: mask_eq_exp_minus_1)
    then show ?thesis by (intro bit_word_eqI) (auto simp only: bit_simps, auto dest: bit_imp_le_length)
  qed
  then have "crc_table0 ! unat (drop_bit 24 x) = (crc_bit ^^ 8) (drop_bit 24 x AND 0xff)" for x :: u32
    using table_lookup(1) [of "drop_bit 24 x"] by metis
  then show ?thesis
    unfolding DOLIT4_def Let_def crc_bits_32 [of "c XOR w"] by (simp only: table_lookup)
qed

lemma crc_ref_Nil [simp]: "crc_ref c [] = c"
  by (simp add: crc_ref_def)

lemma crc_ref_Cons: "crc_ref c (b # bs) = crc_ref ((crc_bit ^^ 8) (c XOR ucast b)) bs"
  by (simp add: crc_ref_def)

lemma crc_ref_append: "crc_ref c (xs @ ys) = crc_ref (crc_ref c xs) ys"
  by (simp add: crc_ref_def)

lemma of_le_xor: "(of_le (b # bs) :: 'a::len word) = ucast b XOR push_bit 8 (of_le bs)"
  by (rule bit_word_eqI) (auto simp: of_le_Cons bit_simps dest: bit_imp_le_length)

lemma crc_ref_word:
  "length bs \<le> 4 \<Longrightarrow> crc_ref c bs = (crc_bit ^^ (8 * length bs)) (c XOR of_le bs)"
proof (induction bs arbitrary: c)
  case (Cons b bs)
  have "\<forall>i. bit (of_le bs :: u32) i \<longrightarrow> i + 8 < 32"
    using Cons.prems by (auto simp: bit_of_le)
  then have "(crc_bit ^^ 8) (push_bit 8 (of_le bs)) = of_le bs"
    using crc_bits_push [of "of_le bs" 8 0] by simp
  then have "(crc_bit ^^ 8) (c XOR of_le (b # bs)) = (crc_bit ^^ 8) (c XOR ucast b) XOR of_le bs"
    by (simp add: of_le_xor crc_bits_xor xor.assoc [symmetric] del: funpow.simps)
  then show ?case
    using Cons crc_bits_add [of "8 * length bs" 8 "c XOR of_le (b # bs)"]
    by (simp add: crc_ref_Cons add.commute del: funpow.simps)
qed simp

lemma DOLIT32_ref: "4 * n \<le> length bs \<Longrightarrow> DOLIT32 n c bs = crc_ref c (take (4 * n) bs)"
proof (induction n c bs rule: DOLIT32.induct)
  case (2 n c bs)
  have "DOLIT4 c (of_le (take 4 bs)) = crc_ref c (take 4 bs)"
    using "2.prems" crc_ref_word [of "take 4 bs" c] by (simp add: DOLIT4_ref del: funpow.simps)
  moreover have "take (4 * Suc n) bs = take 4 bs @ take (4 * n) (drop 4 bs)"
    using take_add [of 4 "4 * n" bs] by simp
  ultimately show ?case using 2 by (simp add: crc_ref_append)
qed simp

lemma crc_align_ref: "crc_align addr c bs = (c', bs') \<Longrightarrow> crc_ref c' bs' = crc_ref c bs"
  by (induction addr c bs rule: crc_align.induct)
    (auto simp: crc_ref_Cons crc_step_ref split: if_splits)

lemma crc_loop32_ref: "crc_loop32 c bs = (c', bs') \<Longrightarrow> crc_ref c' bs' = crc_ref c bs"
proof (induction c bs rule: crc_loop32.induct)
  case (1 c bs)
  show ?case
  proof (cases "32 \<le> length bs")
    case True
    then have "crc_ref c' bs' = crc_ref (DOLIT32 8 c bs) (drop 32 bs)"
      using 1 by (simp add: crc_loop32.simps [of c bs])
    also have "\<dots> = crc_ref c (take 32 bs @ drop 32 bs)"
      using True DOLIT32_ref [of 8 bs c] by (simp only: crc_ref_append) simp
    finally show ?thesis by simp
  qed (use 1 in \<open>simp add: crc_loop32.simps [of c bs]\<close>)
qed

lemma crc_loop4_ref: "crc_loop4 c bs = (c', bs') \<Longrightarrow> crc_ref c' bs' = crc_ref c bs"
proof (induction c bs rule: crc_loop4.induct)
  case (1 c bs)
  show ?case
  proof (cases "4 \<le> length bs")
    case True
    then have "crc_ref c' bs' = crc_ref (DOLIT32 1 c bs) (drop 4 bs)"
      using 1 by (simp add: crc_loop4.simps [of c bs])
    also have "\<dots> = crc_ref c (take 4 bs @ drop 4 bs)"
      using True DOLIT32_ref [of 1 bs c] by (simp only: crc_ref_append) simp
    finally show ?thesis by simp
  qed (use 1 in \<open>simp add: crc_loop4.simps [of c bs]\<close>)
qed

section \<open>Polynomials\<close>

text \<open>
  A register with only its top bit set stands for the polynomial 1, and one step of the checksum multiplies by \<open>X\<close>:
  \<open>crc_pow j\<close> is \<open>X\<^sup>j\<close> modulo the CRC polynomial. Bit \<open>i\<close> of a 128-bit register stands for \<open>X\<^bsup>n-i\<^esup>\<close>, where \<open>n\<close>
  depends on how much of the message is still to come.
\<close>

definition crc_pow :: "nat \<Rightarrow> u32" where
  "crc_pow j = (crc_bit ^^ j) 0x80000000"

primrec xsum :: "(nat \<Rightarrow> 'a::len word) \<Rightarrow> nat \<Rightarrow> 'a word" where
  "xsum f 0 = 0"
| "xsum f (Suc n) = xsum f n XOR f n"

definition pval :: "nat \<Rightarrow> m128 \<Rightarrow> u32" where
  "pval n x = xsum (\<lambda>i. if bit x i then crc_pow (n - i) else 0) 128"

lemma crc_pow_add: "(crc_bit ^^ m) (crc_pow n) = crc_pow (m + n)"
  by (simp add: crc_pow_def crc_bits_add)

lemma crc_bits_power:
  assumes "j \<le> m" "m < 32"
  shows "(crc_bit ^^ j) (2 ^ m) = 2 ^ (m - j)"
proof -
  have "(crc_bit ^^ j) (2 ^ m) = drop_bit j (2 ^ m)" using assms by (intro crc_bits_shift) (auto simp: bit_simps)
  also have "\<dots> = 2 ^ (m - j)" using assms by (intro bit_word_eqI) (auto simp: bit_simps)
  finally show ?thesis .
qed

lemma crc_pow_low: "j \<le> 31 \<Longrightarrow> crc_pow j = 2 ^ (31 - j)"
  using crc_bits_power [of j 31] by (simp add: crc_pow_def)

lemma xsum_cong: "(\<And>i. i < n \<Longrightarrow> f i = g i) \<Longrightarrow> xsum f n = xsum g n"
  by (induction n) simp_all

lemma xsum_0: "xsum (\<lambda>i. 0) n = 0"
  by (induction n) simp_all

lemma xsum_xor: "xsum (\<lambda>i. f i XOR g i) n = xsum f n XOR xsum g n"
  by (induction n) (simp_all add: ac_simps)

lemma xsum_split: "xsum f (m + n) = xsum f m XOR xsum (\<lambda>i. f (m + i)) n"
  by (induction n) (simp_all add: xor.assoc)

lemma xsum_zero_tail: "(\<And>i. m \<le> i \<Longrightarrow> i < n \<Longrightarrow> f i = 0) \<Longrightarrow> m \<le> n \<Longrightarrow> xsum f n = xsum f m"
  by (induction n) (auto simp: le_Suc_eq)

lemma crc_bits_xsum: "(crc_bit ^^ k) (xsum f n) = xsum (\<lambda>i. (crc_bit ^^ k) (f i)) n"
  by (induction n) (simp_all add: crc_bits_xor)

lemma pval_0 [simp]: "pval n 0 = 0"
  by (simp add: pval_def xsum_0)

lemma pval_xor: "pval n (x XOR y) = pval n x XOR pval n y"
  unfolding pval_def xsum_xor [symmetric] by (intro xsum_cong) (auto simp: bit_simps)

text \<open>Multiplying by a power of \<open>X\<close>, and shifting a register.\<close>

lemma pval_times:
  assumes "\<forall>i. bit x i \<longrightarrow> i \<le> n"
  shows "(crc_bit ^^ k) (pval n x) = pval (n + k) x"
  unfolding pval_def crc_bits_xsum
  by (intro xsum_cong) (use assms in \<open>auto simp: crc_pow_add add.commute\<close>)

lemma pval_push:
  assumes "\<forall>i. bit x i \<longrightarrow> i + k < 128"
  shows "pval n (push_bit k x) = pval (n - k) x"
proof (cases "k \<le> 128")
  case True
  have "pval n (push_bit k x) = xsum (\<lambda>i. if bit (push_bit k x) i then crc_pow (n - i) else 0) (k + (128 - k))"
    using True by (simp add: pval_def)
  also have "\<dots> = xsum (\<lambda>i. if bit x i then crc_pow (n - (k + i)) else 0) (128 - k)"
    unfolding xsum_split
    by (subst xsum_zero_tail [of 0]) (auto simp: bit_simps intro!: xsum_cong)
  also have "\<dots> = pval (n - k) x"
    unfolding pval_def by (subst (2) xsum_zero_tail [of "128 - k"]) (use assms True in \<open>auto simp: less_diff_conv intro!: xsum_cong\<close>)
  finally show ?thesis .
next
  case False
  then have "x = 0" using assms by (intro bit_word_eqI) auto
  then show ?thesis by simp
qed

text \<open>The 32-bit register as a polynomial, and a run of message bytes added to it.\<close>

lemma bit_xsum_powers:
  "bit (xsum (\<lambda>i. if bit x i then 2 ^ i else 0) n :: u32) k \<longleftrightarrow> k < n \<and> k < 32 \<and> bit (x :: u32) k"
  by (induction n) (auto simp: bit_simps less_Suc_eq)

lemma pval_register: "pval 31 (ucast (c :: u32)) = c"
proof -
  have "pval 31 (ucast c) = xsum (\<lambda>i. if bit (ucast c :: m128) i then crc_pow (31 - i) else 0) 32"
    unfolding pval_def by (rule xsum_zero_tail) (auto simp: bit_simps dest: bit_imp_le_length)
  also have "\<dots> = xsum (\<lambda>i. if bit c i then 2 ^ i else 0) 32"
    by (rule xsum_cong) (auto simp: bit_simps crc_pow_low)
  also have "\<dots> = c"
    by (rule bit_word_eqI) (simp add: bit_xsum_powers)
  finally show ?thesis .
qed

lemma of_le_snoc:
  assumes "8 * length bs + 8 \<le> LENGTH('a::len)"
  shows "(of_le (bs @ [b]) :: 'a word) = of_le bs XOR push_bit (8 * length bs) (ucast b)"
proof (rule bit_word_eqI)
  fix k assume "k < LENGTH('a)"
  then show "bit (of_le (bs @ [b]) :: 'a word) k = bit (of_le bs XOR push_bit (8 * length bs) (ucast b) :: 'a word) k"
  proof (cases "k div 8 < length bs")
    case True
    then have "k < 8 * length bs" by linarith
    then show ?thesis using True by (auto simp: bit_of_le bit_simps nth_append)
  next
    case False
    then have k: "8 * length bs \<le> k" by linarith
    show ?thesis
    proof (cases "k div 8 = length bs")
      case True
      then have "k mod 8 = k - 8 * length bs" by (simp add: modulo_nat_def)
      then show ?thesis using True k \<open>k < LENGTH('a)\<close> by (auto simp: bit_of_le bit_simps nth_append)
    next
      case False
      then have "8 * length bs + 8 \<le> k" using \<open>\<not> k div 8 < length bs\<close> by linarith
      then have "\<not> bit b (k - 8 * length bs)" using bit_imp_le_length [of b "k - 8 * length bs"] by auto
      then show ?thesis using False k by (auto simp: bit_of_le bit_simps)
    qed
  qed
qed

lemma crc_ref_pval:
  "length bs \<le> 16 \<Longrightarrow> crc_ref c bs = pval (8 * length bs + 31) (ucast c XOR of_le bs)"
proof (induction bs rule: rev_induct)
  case Nil
  then show ?case by (simp add: pval_register)
next
  case (snoc b bs)
  let ?l = "8 * length bs" and ?x = "ucast c XOR of_le bs :: m128"
  have b: "pval (?l + 31) (push_bit ?l (ucast b)) = ucast b"
  proof -
    have "\<forall>i. bit (ucast b :: m128) i \<longrightarrow> i + ?l < 128"
      using snoc.prems by (auto simp: bit_simps dest: bit_imp_le_length)
    moreover have "(ucast b :: m128) = ucast (ucast b :: u32)"
      by (rule bit_word_eqI) (auto simp: bit_simps dest: bit_imp_le_length)
    ultimately have "pval (?l + 31) (push_bit ?l (ucast b)) = pval 31 (ucast (ucast b :: u32))"
      by (simp add: pval_push)
    then show ?thesis by (simp only: pval_register)
  qed
  have low: "\<forall>i. bit (?x XOR push_bit ?l (ucast b)) i \<longrightarrow> i \<le> ?l + 31"
  proof (intro allI impI)
    fix i assume "bit (?x XOR push_bit ?l (ucast b)) i"
    then have "bit c i \<or> i div 8 < length bs \<or> (?l \<le> i \<and> bit b (i - ?l))"
      by (auto simp: bit_simps bit_of_le)
    then show "i \<le> ?l + 31"
      using bit_imp_le_length [of c i] bit_imp_le_length [of b "i - ?l"] by auto
  qed
  have "crc_ref c (bs @ [b]) = (crc_bit ^^ 8) (pval (?l + 31) ?x XOR ucast b)"
    using snoc by (simp add: crc_ref_append crc_ref_Cons del: funpow.simps)
  also have "\<dots> = (crc_bit ^^ 8) (pval (?l + 31) (?x XOR push_bit ?l (ucast b)))"
    by (simp only: pval_xor b)
  also have "\<dots> = pval (?l + 31 + 8) (?x XOR push_bit ?l (ucast b))"
    by (rule pval_times [OF low])
  also have "?x XOR push_bit ?l (ucast b) = ucast c XOR of_le (bs @ [b])"
    using snoc.prems by (simp add: of_le_snoc xor.assoc)
  finally show ?case by (simp add: add.commute add.left_commute)
qed

section \<open>Folding\<close>

lemma pval_clmul_sum:
  "pval n (clmul k a b) = xsum (\<lambda>i. if bit a i then pval n (push_bit i (ucast b)) else 0) k"
  by (induction k) (simp_all add: pval_xor)

lemma pval_clmul:
  assumes b: "\<forall>i. bit b i \<longrightarrow> i \<le> 32" "pval 32 (ucast b) = crc_pow m" and a: "\<forall>i. bit a i \<longrightarrow> i + 32 \<le> n"
  shows "pval n (clmul 64 a b) = pval (n + m - 32) (ucast a)"
proof -
  have "pval n (push_bit i (ucast b)) = crc_pow (n + m - 32 - i)" if i: "i < 64" "bit a i" for i
  proof -
    have "pval n (push_bit i (ucast b)) = pval (n - i) (ucast b)"
      using b(1) i by (intro pval_push) (auto simp: bit_simps)
    also have "n - i = 32 + (n - i - 32)" using a i by auto
    also have "pval \<dots> (ucast b) = (crc_bit ^^ (n - i - 32)) (pval 32 (ucast b))"
      using b(1) by (intro pval_times [symmetric]) (auto simp: bit_simps)
    also have "\<dots> = crc_pow (n + m - 32 - i)"
      unfolding b(2) crc_pow_add using a i by (intro arg_cong [of _ _ crc_pow]) auto
    finally show ?thesis .
  qed
  then have "pval n (clmul 64 a b) = xsum (\<lambda>i. if bit (ucast a :: m128) i then crc_pow (n + m - 32 - i) else 0) 64"
    unfolding pval_clmul_sum by (intro xsum_cong) (auto simp: bit_simps)
  also have "\<dots> = pval (n + m - 32) (ucast a)"
    unfolding pval_def by (rule xsum_zero_tail [symmetric]) (auto simp: bit_simps dest: bit_imp_le_length)
  finally show ?thesis .
qed

end
