(* ===== verification/CrcFold.thy ===== *)
theory CrcFold
  imports CrcProof
begin

text \<open>
  The routine on 128-bit registers (\<^verbatim>\<open>crc32pclmul\<close>) and the entry points. A register \<open>x\<close> with \<open>n\<close> stands for
  \<^const>\<open>pval\<close> \<open>n x\<close>; every fold keeps that value while it consumes message bytes, and the final reduction reads
  it off.
\<close>

section \<open>The constants\<close>

lemma pval_1: "pval n 1 = crc_pow n"
proof -
  have "pval n 1 = xsum (\<lambda>i. if bit (1 :: m128) i then crc_pow (n - i) else 0) 1"
    unfolding pval_def by (rule xsum_zero_tail) (auto simp: bit_simps)
  then show ?thesis by (simp add: bit_simps)
qed

lemma bits_split:
  fixes k :: u64
  assumes "\<forall>i. bit k i \<longrightarrow> i \<le> p" "p < 128"
  shows "(ucast k :: m128) = take_bit p (ucast k) XOR (if bit k p then push_bit p 1 else 0)"
proof (rule bit_word_eqI)
  fix i assume "i < LENGTH(128)"
  then show "bit (ucast k :: m128) i = bit (take_bit p (ucast k) XOR (if bit k p then push_bit p 1 else 0) :: m128) i"
    using assms(1) [rule_format, of i] by (cases "i = p") (auto simp: bit_simps)
qed

lemma bits_below:
  fixes k :: u64
  assumes "unat k < 2 ^ Suc p" "bit k i"
  shows "i \<le> p"
proof -
  have "take_bit (Suc p) k = k"
    using assms(1) by (simp add: word_unat_eq_iff unsigned_take_bit_eq take_bit_nat_eq_self)
  then have "bit (take_bit (Suc p) k) i" using assms(2) by simp
  then show ?thesis by (simp add: bit_take_bit_iff)
qed

lemma pval_constant:
  fixes k :: u64 and lo :: u32
  assumes "unat k < 2 ^ 33" "ucast k = lo" "bit k 32 = hb"
  shows "pval 32 (ucast k) = crc_bit lo XOR (if hb then 0x80000000 else 0)"
proof -
  have b: "\<forall>i. bit k i \<longrightarrow> i \<le> 32" using bits_below [of k 32] assms(1) by simp
  have "take_bit 32 (ucast k :: m128) = ucast (ucast k :: u32)"
    by (rule bit_word_eqI) (auto simp: bit_simps)
  then have split: "(ucast k :: m128) = ucast lo XOR (if hb then push_bit 32 1 else 0)"
    using bits_split [OF b] assms(2,3) by (simp del: push_bit_of_1)
  have "\<forall>i. bit (ucast lo :: m128) i \<longrightarrow> i \<le> 31"
    by (auto simp: bit_simps dest: bit_imp_le_length)
  from pval_times [OF this, of 1] have lo: "pval 32 (ucast lo) = crc_bit lo" by (simp add: pval_register)
  have "pval 32 (push_bit 32 1) = pval (32 - 32) 1" by (rule pval_push) (simp add: bit_simps)
  then have hi: "pval 32 (push_bit 32 1) = 0x80000000"
    by (simp add: pval_1 crc_pow_low del: push_bit_of_1 push_bit_numeral)
  show ?thesis unfolding split pval_xor lo if_distrib [of "pval 32"] hi by simp
qed

lemma crc_pow_numeral: "crc_pow n = word_of_nat (crc_nats n 0x80000000)"
  using crc_bits_numeral(1) [of "num.Bit0 (num.Bit0 (num.Bit0 (num.Bit0 (num.Bit0 (num.Bit0 (num.Bit0 (num.Bit0
    (num.Bit0 (num.Bit0 (num.Bit0 (num.Bit0 (num.Bit0 (num.Bit0 (num.Bit0 (num.Bit0 (num.Bit0 (num.Bit0 (num.Bit0
    (num.Bit0 (num.Bit0 (num.Bit0 (num.Bit0 (num.Bit0 (num.Bit0 (num.Bit0 (num.Bit0 (num.Bit0 (num.Bit0 (num.Bit0
    (num.Bit0 num.One))))))))))))))))))))))))))))))" n]
  by (simp add: crc_pow_def)

lemma crc_bit_numeral: "numeral m < (2 :: nat) ^ 32 \<Longrightarrow> crc_bit (numeral m) = word_of_nat (crc_nat (numeral m))"
  using crc_bits_numeral(1) [of m 1] by simp

lemma constants:
  "pval 32 (ucast (0x0154442bd4 :: u64)) = crc_pow 544" "pval 32 (ucast (0x01c6e41596 :: u64)) = crc_pow 480"
  "pval 32 (ucast (0x01751997d0 :: u64)) = crc_pow 160" "pval 32 (ucast (0x00ccaa009e :: u64)) = crc_pow 96"
  "pval 32 (ucast (0x0163cd6124 :: u64)) = crc_pow 64" "pval 32 (ucast (0x01db710641 :: u64)) = 0"
  using pval_constant [of "0x0154442bd4" "0x54442bd4" True] pval_constant [of "0x01c6e41596" "0xc6e41596" True]
    pval_constant [of "0x01751997d0" "0x751997d0" True] pval_constant [of "0xccaa009e" "0xccaa009e" False]
    pval_constant [of "0x0163cd6124" "0x63cd6124" True] pval_constant [of "0x01db710641" "0xdb710641" True]
  by (simp_all add: crc_pow_numeral crc_bit_numeral)

section \<open>Folding registers\<close>

lemma bit_u64: "bit (x :: u64) i \<Longrightarrow> i < 64"
  using bit_imp_le_length [of x i] by simp

lemma quad_load [simp]: "quad False (mm_load lo hi) = lo" "quad True (mm_load lo hi) = hi"
  unfolding quad_def mm_load_def by (auto intro!: bit_word_eqI simp: bit_simps dest: bit_u64)

lemma quads: "x = ucast (quad False x) XOR push_bit 64 (ucast (quad True x))"
proof (rule bit_word_eqI)
  fix i assume "i < LENGTH(128)"
  then show "bit x i = bit (ucast (quad False x) XOR push_bit 64 (ucast (quad True x)) :: m128) i"
    by (cases "i < 64") (auto simp: quad_def bit_simps)
qed

lemma pval_quads: "64 \<le> n \<Longrightarrow> pval n x = pval n (ucast (quad False x)) XOR pval (n - 64) (ucast (quad True x))"
proof -
  have "\<forall>i. bit (ucast (quad True x) :: m128) i \<longrightarrow> i + 64 < 128"
    by (auto simp: bit_simps dest: bit_u64)
  then show ?thesis by (subst quads [of x]) (simp only: pval_xor pval_push)
qed

lemma pval_fold:
  assumes k: "unat lo < 2 ^ 33" "unat hi < 2 ^ 33" "pval 32 (ucast lo) = crc_pow (m + 64)" "pval 32 (ucast hi) = crc_pow m"
    and n: "95 \<le> n"
  shows "pval n (mm_clmulepi64 x (mm_load lo hi) 0x00) XOR pval n (mm_clmulepi64 x (mm_load lo hi) 0x11) = pval (n + m + 32) x"
proof -
  have b: "\<forall>i. bit lo i \<longrightarrow> i \<le> 32" "\<forall>i. bit hi i \<longrightarrow> i \<le> 32"
    using bits_below [of lo 32] bits_below [of hi 32] k by auto
  have a: "\<forall>i. bit (y :: u64) i \<longrightarrow> i + 32 \<le> n" for y using bit_u64 [of y] n by fastforce
  have "pval n (mm_clmulepi64 x (mm_load lo hi) 0x00) = pval (n + (m + 64) - 32) (ucast (quad False x))"
    using pval_clmul [OF b(1) k(3) a] by (simp add: mm_clmulepi64_def bit_0)
  moreover have "pval n (mm_clmulepi64 x (mm_load lo hi) 0x11) = pval (n + m - 32) (ucast (quad True x))"
    using pval_clmul [OF b(2) k(4) a] by (simp add: mm_clmulepi64_def bit_0)
  moreover have "n + (m + 64) - 32 = n + m + 32" "n + m - 32 = n + m + 32 - 64" "64 \<le> n + m + 32" using n by simp_all
  ultimately show ?thesis by (simp only: pval_quads [of "n + m + 32" x])
qed

lemma xor_rearrange:
  fixes a b q y :: u32
  assumes "a XOR b = q"
  shows "(b XOR a) XOR y = q XOR y" "(b XOR y) XOR a = q XOR y"
  unfolding assms [symmetric] by (simp_all add: ac_simps)

lemma pval_fold64: "95 \<le> n \<Longrightarrow> pval n (fold64 k1k2 x y) = pval (n + 512) x XOR pval n y"
proof -
  assume "95 \<le> n"
  then have "pval n (mm_clmulepi64 x k1k2 0x00) XOR pval n (mm_clmulepi64 x k1k2 0x11) = pval (n + 480 + 32) x"
    unfolding k1k2_def by (intro pval_fold) (simp_all only: constants, simp_all)
  moreover have "n + 480 + 32 = n + 512" by simp
  ultimately show ?thesis unfolding fold64_def Let_def pval_xor by (intro xor_rearrange(1)) (simp only:)
qed

lemma pval_fold16: "95 \<le> n \<Longrightarrow> pval n (fold16 x y) = pval (n + 128) x XOR pval n y"
proof -
  assume "95 \<le> n"
  then have "pval n (mm_clmulepi64 x k3k4 0x00) XOR pval n (mm_clmulepi64 x k3k4 0x11) = pval (n + 96 + 32) x"
    unfolding k3k4_def by (intro pval_fold) (simp_all only: constants, simp_all)
  moreover have "n + 96 + 32 = n + 128" by simp
  ultimately show ?thesis unfolding fold16_def Let_def pval_xor by (intro xor_rearrange(2)) (simp only:)
qed

text \<open>Sixteen message bytes, and sixty-four.\<close>

lemma bit_m128: "bit (x :: m128) i \<Longrightarrow> i < 128"
  using bit_imp_le_length [of x i] by simp

lemma pval_more: "127 \<le> n \<Longrightarrow> (crc_bit ^^ k) (pval n x) = pval (n + k) x"
  using bit_m128 [of x] by (intro pval_times) fastforce

lemma crc_ref_16:
  assumes "length bs = 16"
  shows "crc_ref c bs = (crc_bit ^^ 128) c XOR pval 159 (of_le bs)"
proof -
  have "\<forall>i. bit (ucast c :: m128) i \<longrightarrow> i \<le> 31" by (auto simp: bit_simps dest: bit_imp_le_length)
  then have "(crc_bit ^^ 128) (pval 31 (ucast c)) = pval (31 + 128) (ucast c)" by (rule pval_times)
  then show ?thesis using crc_ref_pval [of bs c] assms by (simp add: pval_xor pval_register del: funpow.simps)
qed

text \<open>What the four registers of the main loop stand for.\<close>

fun reg4 :: "m128 \<times> m128 \<times> m128 \<times> m128 \<Rightarrow> u32" where
  "reg4 (x1, x2, x3, x4) = pval 543 x1 XOR pval 415 x2 XOR pval 287 x3 XOR pval 159 x4"

lemma crc_ref_64:
  assumes "64 \<le> length bs"
  shows "crc_ref c (take 64 bs) = (crc_bit ^^ 512) c
    XOR reg4 (mm_loadu bs 0x00, mm_loadu bs 0x10, mm_loadu bs 0x20, mm_loadu bs 0x30)"
proof -
  have "take 64 bs = take 16 bs @ take 16 (drop 16 bs) @ take 16 (drop 32 bs) @ take 16 (drop 48 bs)"
    using take_add [of 16 48 bs] take_add [of 16 32 "drop 16 bs"] take_add [of 16 16 "drop 32 bs"] by simp
  moreover have "length (take 16 (drop k bs)) = 16" if "k \<le> 48" for k using that assms by simp
  ultimately show ?thesis
    using crc_ref_16 [of "take 16 bs"] crc_ref_16 [of "take 16 (drop 16 bs)"] crc_ref_16 [of "take 16 (drop 32 bs)"]
      crc_ref_16 [of "take 16 (drop 48 bs)"] assms
    by (simp add: crc_ref_append mm_loadu_def crc_bits_xor crc_bits_add pval_more xor.assoc del: funpow.simps)
qed

lemma reg4_step:
  "reg4 (fold64 k1k2 x1 y1, fold64 k1k2 x2 y2, fold64 k1k2 x3 y3, fold64 k1k2 x4 y4)
     = (crc_bit ^^ 512) (reg4 (x1, x2, x3, x4)) XOR reg4 (y1, y2, y3, y4)"
  by (simp add: pval_fold64 crc_bits_xor pval_more ac_simps del: funpow.simps)

lemma pclmul_loop64_ref:
  "pclmul_loop64 xs bs = (xs', bs') \<Longrightarrow> crc_ref (reg4 xs') bs' = crc_ref (reg4 xs) bs \<and> length bs' mod 16 = length bs mod 16"
proof (induction xs bs rule: pclmul_loop64.induct)
  case (1 x1 x2 x3 x4 bs)
  show ?case
  proof (cases "64 \<le> length bs")
    case True
    let ?y = "(mm_loadu bs 0x00, mm_loadu bs 0x10, mm_loadu bs 0x20, mm_loadu bs 0x30)"
    let ?x = "(fold64 k1k2 x1 (mm_loadu bs 0x00), fold64 k1k2 x2 (mm_loadu bs 0x10),
      fold64 k1k2 x3 (mm_loadu bs 0x20), fold64 k1k2 x4 (mm_loadu bs 0x30))"
    have "pclmul_loop64 ?x (drop 64 bs) = (xs', bs')"
      using "1.prems" True by (simp add: pclmul_loop64.simps [of x1 x2 x3 x4 bs])
    note ih = "1.IH" [OF True this]
    then have len: "length bs' mod 16 = (length bs - 64) mod 16" by simp
    have "crc_ref (reg4 xs') bs' = crc_ref (reg4 ?x) (drop 64 bs)" using ih by simp
    also have "reg4 ?x = crc_ref (reg4 (x1, x2, x3, x4)) (take 64 bs)"
      by (simp only: reg4_step crc_ref_64 [OF True])
    also have "crc_ref \<dots> (drop 64 bs) = crc_ref (reg4 (x1, x2, x3, x4)) bs"
      by (simp only: crc_ref_append [symmetric] append_take_drop_id)
    finally show ?thesis using len True by (simp add: mod_if [of "length bs"] le_mod_geq)
  qed (use "1.prems" in \<open>simp add: pclmul_loop64.simps [of x1 x2 x3 x4 bs]\<close>)
qed

lemma pclmul_loop16_ref:
  "length bs mod 16 = 0 \<Longrightarrow> pval 159 (pclmul_loop16 x bs) = crc_ref (pval 159 x) bs"
proof (induction x bs rule: pclmul_loop16.induct)
  case (1 x bs)
  show ?case
  proof (cases "16 \<le> length bs")
    case True
    have "crc_ref (pval 159 x) bs = crc_ref (crc_ref (pval 159 x) (take 16 bs)) (drop 16 bs)"
      by (simp only: crc_ref_append [symmetric] append_take_drop_id)
    also have "crc_ref (pval 159 x) (take 16 bs) = pval 159 (fold16 x (mm_loadu bs 0))"
      using True by (simp add: crc_ref_16 pval_fold16 pval_more mm_loadu_def del: funpow.simps)
    finally show ?thesis
      using True 1 by (simp add: pclmul_loop16.simps [of x bs] le_mod_geq)
  next
    case False
    then have "bs = []" using "1.prems" by simp
    then show ?thesis by (simp add: pclmul_loop16.simps [of x "[]"])
  qed
qed

section \<open>Reduction to 32 bits\<close>

lemma bit_clmul: "bit (clmul n a b) i \<Longrightarrow> \<exists>j < n. j \<le> i \<and> bit a j \<and> bit b (i - j)"
proof (induction n)
  case (Suc n)
  then show ?case
    by (cases "bit (clmul n a b) i") (auto simp: bit_simps split: if_splits intro: less_SucI)
qed simp

text \<open>Truncated to 32 bits, the product is associative enough for Barrett's method.\<close>

definition mul32 :: "u32 \<Rightarrow> u32 \<Rightarrow> u32" where
  "mul32 a b = xsum (\<lambda>i. if bit a i then push_bit i b else 0) 32"

lemma ucast_clmul:
  fixes a :: u32
  shows "n \<le> 64 \<Longrightarrow> (ucast (clmul n (ucast a) b) :: u32) = xsum (\<lambda>i. if bit a i then push_bit i (ucast b) else 0) n"
proof (induction n)
  case (Suc n)
  have "(ucast (x XOR y :: m128) :: u32) = ucast x XOR ucast y" for x y
    by (rule bit_word_eqI) (auto simp: bit_simps)
  moreover have "(ucast (push_bit n (ucast b) :: m128) :: u32) = push_bit n (ucast b)"
    by (rule bit_word_eqI) (auto simp: bit_simps)
  ultimately show ?case using Suc by (auto simp: bit_simps)
qed simp

lemma clmul_mul32:
  fixes a :: u32
  shows "(ucast (clmul 64 (ucast a) b) :: u32) = mul32 a (ucast b)"
  unfolding ucast_clmul [OF order.refl] mul32_def
  by (rule xsum_zero_tail) (auto dest: bit_imp_le_length)

lemma mul32_xor: "mul32 (a XOR a') b = mul32 a b XOR mul32 a' b"
  unfolding mul32_def xsum_xor [symmetric] by (intro xsum_cong) (auto simp: bit_simps)

lemma push_bit_xsum: "push_bit k (xsum f n) = xsum (\<lambda>i. push_bit k (f i)) n"
  by (induction n) simp_all

lemma push_bit_out: "32 \<le> k \<Longrightarrow> push_bit k (x :: u32) = 0"
  by (rule bit_word_eqI) (simp add: bit_simps)

lemma mul32_push: "mul32 (push_bit k a) b = push_bit k (mul32 a b)"
proof (cases "k \<le> 32")
  case True
  have "mul32 (push_bit k a) b = xsum (\<lambda>i. if bit (push_bit k a) i then push_bit i b else 0) (k + (32 - k))"
    using True by (simp add: mul32_def)
  also have "\<dots> = xsum (\<lambda>i. if bit a i then push_bit (k + i) b else 0) (32 - k)"
    unfolding xsum_split by (subst xsum_zero_tail [of 0]) (auto simp: bit_simps intro!: xsum_cong)
  also have "\<dots> = xsum (\<lambda>i. if bit a i then push_bit (k + i) b else 0) 32"
    by (rule xsum_zero_tail [symmetric]) (auto intro!: push_bit_out)
  also have "\<dots> = push_bit k (mul32 a b)"
    unfolding mul32_def push_bit_xsum by (auto intro!: xsum_cong)
  finally show ?thesis .
next
  case False
  then show ?thesis by (simp add: push_bit_out mul32_def xsum_0)
qed

lemma mul32_xsum: "mul32 (xsum f n) b = xsum (\<lambda>i. mul32 (f i) b) n"
proof (induction n)
  case 0
  then show ?case by (simp add: mul32_def xsum_0)
qed (simp add: mul32_xor)

lemma xsum_numeral: "xsum f (numeral k) = xsum f (pred_numeral k) XOR f (pred_numeral k)"
  by (simp add: numeral_eq_Suc)

lemma mul32_inverse: "mul32 0xf7011641 0xdb710641 = 1"
  by (simp add: mul32_def xsum_numeral)

lemma barrett_quotient: "mul32 (mul32 d 0xf7011641) 0xdb710641 = d"
proof -
  have "mul32 (if bit d i then push_bit i 0xf7011641 else 0) 0xdb710641 = (if bit d i then 2 ^ i else 0)" for i
    using mul32_push [of i "0xf7011641" "0xdb710641"] mul32_inverse by (simp add: mul32_def xsum_0)
  then have "mul32 (mul32 d 0xf7011641) 0xdb710641 = xsum (\<lambda>i. if bit d i then 2 ^ i else 0) 32"
    unfolding mul32_def [of d] by (simp only: mul32_xsum)
  also have "\<dots> = d" by (rule bit_word_eqI) (simp add: bit_xsum_powers)
  finally show ?thesis .
qed

text \<open>The mask keeps the first 32 bits of the lower half.\<close>

lemma quad_masked: "quad False (x AND 0x00000000ffffffff00000000ffffffff) = ucast (ucast x :: u32)"
proof -
  have "(0x00000000ffffffff00000000ffffffff :: m128) = mask 32 OR push_bit 64 (mask 32)"
    by (simp add: mask_eq_exp_minus_1)
  then show ?thesis
    unfolding quad_def by (intro bit_word_eqI) (auto simp only: bit_simps if_False, auto)
qed

lemma pval_low_dword:
  assumes "\<forall>i. bit x i \<longrightarrow> i \<le> n" "32 \<le> n"
  shows "pval n x = pval n (ucast (ucast x :: u32)) XOR pval (n - 32) (drop_bit 32 x)"
proof -
  have "x = ucast (ucast x :: u32) XOR push_bit 32 (drop_bit 32 x)"
    by (rule bit_word_eqI) (auto simp: bit_simps)
  moreover have "\<forall>i. bit (drop_bit 32 x) i \<longrightarrow> i + 32 < 128" by (auto simp: bit_simps dest: bit_m128)
  ultimately show ?thesis by (metis pval_push pval_xor)
qed

lemma clmul_bits:
  assumes "\<forall>i. bit a i \<longrightarrow> i \<le> m" "\<forall>i. bit b i \<longrightarrow> i \<le> n" "bit (clmul k a b) i"
  shows "i \<le> m + n"
  using bit_clmul [OF assms(3)] assms(1,2) by force

lemma pval_clmul_zero:
  assumes "\<forall>i. bit b i \<longrightarrow> i \<le> 32" "pval 32 (ucast b) = 0" "\<forall>i. bit a i \<longrightarrow> i + 32 \<le> n"
  shows "pval n (clmul 64 a b) = 0"
proof -
  have "pval n (push_bit i (ucast b)) = 0" if i: "i < 64" "bit a i" for i
  proof -
    have "pval n (push_bit i (ucast b)) = pval (n - i) (ucast b)"
      using assms(1) i by (intro pval_push) (auto simp: bit_simps)
    also have "n - i = 32 + (n - i - 32)" using assms(3) i by auto
    also have "pval \<dots> (ucast b) = (crc_bit ^^ (n - i - 32)) (pval 32 (ucast b))"
      using assms(1) by (intro pval_times [symmetric]) (auto simp: bit_simps)
    finally show ?thesis by (simp add: assms(2))
  qed
  then have "pval n (clmul 64 a b) = xsum (\<lambda>i. 0) 64"
    unfolding pval_clmul_sum by (intro xsum_cong) auto
  then show ?thesis by (simp add: xsum_0)
qed

lemma dword_bits: "\<forall>i. bit (ucast (d :: u32) :: u64) i \<longrightarrow> i \<le> 31"
  by (auto simp: bit_simps dest: bit_imp_le_length)

lemma const_bits:
  "\<forall>i. bit (0xccaa009e :: u64) i \<longrightarrow> i \<le> 31" "\<forall>i. bit (0x0163cd6124 :: u64) i \<longrightarrow> i \<le> 32"
  "\<forall>i. bit (0x01db710641 :: u64) i \<longrightarrow> i \<le> 32"
  using bits_below [of "0xccaa009e" 31] bits_below [of "0x0163cd6124" 32] bits_below [of "0x01db710641" 32] by simp_all

text \<open>From 128 to 96 bits, from 96 to 64 bits, and the division.\<close>

lemma reduce_96:
  fixes y :: m128
  defines "z \<equiv> drop_bit 64 y XOR clmul 64 (quad False y) 0xccaa009e"
  shows "pval 95 z = pval 159 y" "\<forall>i. bit z i \<longrightarrow> i \<le> 95"
proof -
  have hi: "drop_bit 64 y = ucast (quad True y)"
    by (rule bit_word_eqI) (auto simp: quad_def bit_simps dest: bit_m128)
  have a: "\<forall>i. bit (quad False y) i \<longrightarrow> i + 32 \<le> 95" by (auto dest: bit_u64)
  have "pval 95 (clmul 64 (quad False y) 0xccaa009e) = pval (95 + 96 - 32) (ucast (quad False y))"
    using const_bits(1) constants(4) a by (intro pval_clmul) (auto intro: le_trans)
  then show "pval 95 z = pval 159 y"
    unfolding z_def pval_xor hi using pval_quads [of 159 y] by (simp add: xor.commute)
  have "\<forall>i. bit (quad False y) i \<longrightarrow> i \<le> 63" by (auto dest!: bit_u64)
  then show "\<forall>i. bit z i \<longrightarrow> i \<le> 95"
    using clmul_bits [OF _ const_bits(1), of "quad False y" 63 64]
    by (fastforce simp: z_def bit_simps dest: bit_m128)
qed

lemma reduce_64:
  assumes "\<forall>i. bit z i \<longrightarrow> i \<le> 95"
  defines "w \<equiv> clmul 64 (ucast (ucast z :: u32)) 0x0163cd6124 XOR drop_bit 32 z"
  shows "pval 63 w = pval 95 z" "\<forall>i. bit w i \<longrightarrow> i \<le> 63"
proof -
  have up: "(ucast (ucast (ucast z :: u32) :: u64) :: m128) = ucast (ucast z :: u32)"
    by (rule bit_word_eqI) (auto simp: bit_simps)
  have "pval 63 (clmul 64 (ucast (ucast z :: u32)) 0x0163cd6124) = pval (63 + 64 - 32) (ucast (ucast (ucast z :: u32) :: u64))"
    using const_bits(2) constants(5) dword_bits [of "ucast z"] by (intro pval_clmul) auto
  then show "pval 63 w = pval 95 z"
    unfolding w_def pval_xor up using pval_low_dword [OF assms(1)] by simp
  show "\<forall>i. bit w i \<longrightarrow> i \<le> 63"
    using clmul_bits [OF dword_bits const_bits(2), of 64 "ucast z"] assms(1)
    by (auto simp: w_def bit_simps)
qed

lemma second_dword:
  fixes v :: m128
  assumes "\<And>i. i < 32 \<Longrightarrow> \<not> bit v i" "\<And>i. bit v i \<Longrightarrow> i \<le> 63"
  shows "v = push_bit 32 (ucast (ucast (drop_bit 32 v) :: u32))"
proof (rule bit_word_eqI)
  fix i assume "i < LENGTH(128)"
  then show "bit v i = bit (push_bit 32 (ucast (ucast (drop_bit 32 v) :: u32)) :: m128) i"
    using assms(1) [of i] assms(2) [of i] by (cases "i < 32") (auto simp: bit_simps)
qed

lemma reduce_32:
  assumes w: "\<forall>i. bit w i \<longrightarrow> i \<le> 63"
  defines "q \<equiv> ucast (clmul 64 (ucast (ucast w :: u32)) 0x01f7011641) :: u32"
  shows "ucast (drop_bit 32 (w XOR clmul 64 (ucast q) 0x01db710641)) = pval 63 w"
proof -
  let ?p = "clmul 64 (ucast q) 0x01db710641 :: m128" and ?v = "w XOR clmul 64 (ucast q) 0x01db710641"
  have k: "(ucast (0x01f7011641 :: u64) :: u32) = 0xf7011641" "(ucast (0x01db710641 :: u64) :: u32) = 0xdb710641"
    by simp_all
  have "q = mul32 (ucast w) 0xf7011641" unfolding q_def clmul_mul32 k ..
  then have eq: "(ucast ?p :: u32) = ucast w"
    unfolding clmul_mul32 k by (simp only: barrett_quotient)
  have low: "\<not> bit ?v i" if "i < 32" for i
    using that arg_cong [OF eq, of "\<lambda>u. bit u i"] by (simp add: bit_simps)
  have "\<forall>i. bit ?p i \<longrightarrow> i \<le> 63" using clmul_bits [OF dword_bits const_bits(3)] by fastforce
  then have high: "i \<le> 63" if "bit ?v i" for i using w that by (auto simp: bit_simps)
  let ?r = "ucast (drop_bit 32 ?v) :: u32"
  have v: "?v = push_bit 32 (ucast ?r)" using low high by (intro second_dword) auto
  have "pval 63 ?p = 0"
    using const_bits(3) constants(6) dword_bits [of q] by (intro pval_clmul_zero) auto
  then have "pval 63 w = pval 63 ?v" by (simp add: pval_xor)
  also have "\<dots> = pval (63 - 32) (ucast ?r)"
    by (subst v, rule pval_push) (auto simp: bit_unsigned_iff dest: bit_imp_le_length)
  also have "\<dots> = ?r" using pval_register [of ?r] by simp
  finally show ?thesis by simp
qed

lemma pclmul_reduce_correct: "pclmul_reduce y = pval 159 y"
proof -
  define z where "z = drop_bit 64 y XOR clmul 64 (quad False y) 0xccaa009e"
  define w where "w = clmul 64 (ucast (ucast z :: u32)) 0x0163cd6124 XOR drop_bit 32 z"
  define q :: u32 where "q = ucast (clmul 64 (ucast (ucast w :: u32)) 0x01f7011641)"
  have imm: "\<not> bit (0x10 :: nat) 0" "bit (0x10 :: nat) 4" "\<not> bit (0x00 :: nat) 0" "\<not> bit (0x00 :: nat) 4"
    by (simp_all add: bit_0)
  have "pclmul_reduce y = ucast (drop_bit 32 (w XOR clmul 64 (ucast q) 0x01db710641))"
    unfolding pclmul_reduce_def Let_def mm_clmulepi64_def k3k4_def k5k0_def poly_def z_def w_def q_def
    by (simp only: imm if_True if_False quad_masked quad_load not_False_eq_True simp_thms)
  also have "\<dots> = pval 63 w"
    unfolding q_def by (rule reduce_32) (unfold w_def z_def, rule reduce_64(2) [OF reduce_96(2)])
  also have "\<dots> = pval 159 y"
    using reduce_64(1) [OF reduce_96(2)] reduce_96(1) by (simp only: z_def w_def)
  finally show ?thesis .
qed

lemma crc32pclmul_correct:
  assumes "64 \<le> length buf" "length buf mod 16 = 0"
  shows "crc32pclmul c buf = crc_ref c buf"
proof -
  let ?y = "(mm_loadu buf 0x00 XOR ucast c, mm_loadu buf 0x10, mm_loadu buf 0x20, mm_loadu buf 0x30)"
  obtain x1 x2 x3 x4 rest where loop: "pclmul_loop64 ?y (drop 64 buf) = ((x1, x2, x3, x4), rest)"
    by (metis surj_pair)
  note l = pclmul_loop64_ref [OF loop]
  have m: "length rest mod 16 = 0" using l assms by (simp add: le_mod_geq)
  have c: "pval 543 (ucast c) = (crc_bit ^^ 512) c"
  proof -
    have "\<forall>i. bit (ucast c :: m128) i \<longrightarrow> i \<le> 31" by (auto simp: bit_simps dest: bit_imp_le_length)
    from pval_times [OF this, of 512] show ?thesis by (simp add: pval_register del: funpow.simps)
  qed
  have "pval 159 (fold16 (fold16 (fold16 x1 x2) x3) x4) = reg4 (x1, x2, x3, x4)"
    by (simp add: pval_fold16 xor.assoc)
  then have "crc32pclmul c buf = crc_ref (reg4 (x1, x2, x3, x4)) rest"
    using pclmul_loop16_ref [OF m, of "fold16 (fold16 (fold16 x1 x2) x3) x4"] loop
    by (simp add: crc32pclmul_def pclmul_reduce_correct)
  also have "\<dots> = crc_ref (reg4 ?y) (drop 64 buf)" using l by simp
  also have "reg4 ?y = crc_ref c (take 64 buf)"
    unfolding crc_ref_64 [OF assms(1)] by (simp add: pval_xor c ac_simps del: funpow.simps)
  finally show ?thesis by (simp only: crc_ref_append [symmetric] append_take_drop_id)
qed

lemma crc32_eq_spec: "crc32 pclmul addr crc (Some buf) = crc32_spec crc buf"
proof -
  obtain c1 b1 where a: "crc_align addr (NOT crc) buf = (c1, b1)" by force
  note r1 = crc_align_ref [OF a]
  show ?thesis
  proof (cases "pclmul \<and> 64 \<le> length b1")
    case True
    let ?n = "length b1 div 16 * 16"
    have "64 \<le> length b1" using True by simp
    then have "4 \<le> length b1 div 16" by simp
    then have "64 \<le> ?n" by simp
    then have "crc32pclmul c1 (take ?n b1) = crc_ref c1 (take ?n b1)"
      by (intro crc32pclmul_correct) simp_all
    then have "crc_ref (crc32pclmul c1 (take ?n b1)) (drop ?n b1) = crc_ref c1 b1"
      by (metis append_take_drop_id crc_ref_append)
    then show ?thesis using True a r1 by (simp add: crc32_def crc32_spec_def foldl_crc_step Let_def)
  next
    case False
    obtain c2 b2 where l: "crc_loop32 c1 b1 = (c2, b2)" by force
    obtain c3 b3 where k: "crc_loop4 c2 b2 = (c3, b3)" by force
    show ?thesis
      using False a r1 l k crc_loop32_ref [OF l] crc_loop4_ref [OF k]
      by (auto simp: crc32_def crc32_spec_def foldl_crc_step)
  qed
qed

section \<open>Properties\<close>

text \<open>
  C11: \<^verbatim>\<open>crc32\<close> computes CRC-32, whatever the alignment of the buffer and whichever of its two routines the processor
  selects: the table lookups, four bytes at a time, and the folding with carry-less multiplication both agree with the
  definition of the checksum, bit by bit.
\<close>

theorem crc32_correct: "crc32 pclmul addr crc (Some buf) = crc32_spec crc buf"
  by (rule crc32_eq_spec)

end
