(* ===== verification/UplinkThreadProof.thy ===== *)
theory UplinkThreadProof
  imports UplinkThread CrcFold
begin

text \<open>
  The uplink thread as a client of the request machine: every iteration of its main loop is a sequence of machine steps,
  so that what was shown about the machine holds for the thread. Beside that: descriptors are closed exactly once, a
  batch of requests goes out completely and in order, and only a list of checksums that matches its own checksum is
  accepted.
\<close>

section \<open>What the connection part of an uplink is\<close>

definition link_frame :: "uplink_state \<Rightarrow> uplink_state \<Rightarrow> bool" where
  "link_frame st st' \<longleftrightarrow> current (ul st') = current (ul st) \<and> better (ul st') = better (ul st)
     \<and> rttTestResult (ul st') = rttTestResult (ul st) \<and> shutdown (ul st') = shutdown (ul st)
     \<and> uplinkref (img st') = uplinkref (img st)"

lemma link_frame_refl [simp]: "link_frame st st"
  by (simp add: link_frame_def)

lemma link_frame_trans [trans]: "link_frame a b \<Longrightarrow> link_frame b c \<Longrightarrow> link_frame a c"
  by (simp add: link_frame_def)

text \<open>A request changes neither that nor the image's size or the position of replication.\<close>

definition req_frame :: "uplink_state \<Rightarrow> uplink_state \<Rightarrow> bool" where
  "req_frame st st' \<longleftrightarrow> link_frame st st' \<and> virtualFilesize (img st') = virtualFilesize (img st)
     \<and> nextReplicationIndex (ul st') = nextReplicationIndex (ul st)"

lemma req_frame_refl [simp]: "req_frame st st"
  by (simp add: req_frame_def)

lemma req_frame_trans [trans]: "req_frame a b \<Longrightarrow> req_frame b c \<Longrightarrow> req_frame a c"
  by (auto simp: req_frame_def link_frame_def)

lemma markRequestUnsent_req [simp]: "req_frame st (markRequestUnsent h st)"
  by (simp add: req_frame_def link_frame_def markRequestUnsent_def split: option.split)

lemma requestBlock_req: "requestBlock req h ok st = (r, st') \<Longrightarrow> req_frame st st'"
  by (auto simp: req_frame_def link_frame_def requestBlock_def split: if_splits)

lemma request_send_req: "req_frame st (request_send isNew req pre h ok1 ok2 st)"
proof -
  obtain r1 st1 where 1: "(if isNew then requestBlock req h ok1 st else (True, st)) = (r1, st1)" by (metis surj_pair)
  obtain r2 st2 where 2: "(case pre of None \<Rightarrow> (True, st1) | Some p \<Rightarrow> requestBlock p (h OR HOP_FLAG_PREFETCH) ok2 st1) = (r2, st2)"
    by (metis surj_pair)
  let ?st3 = "if \<not> r1 \<or> \<not> r2 then st2\<lparr>img := set_problem_uplink True (img st2)\<rparr> else st2"
  let ?st4 = "if \<not> r1 then markRequestUnsent (req_handle req) ?st3 else ?st3"
  have "req_frame st st1" using 1 requestBlock_req by (auto split: if_splits)
  also have "req_frame st1 st2" using 2 requestBlock_req by (auto split: option.splits)
  also have "req_frame st2 ?st3" by (simp add: req_frame_def link_frame_def set_problem_uplink_def)
  also have "req_frame ?st3 ?st4" by simp
  also have "req_frame ?st4 (request_send isNew req pre h ok1 ok2 st)"
    unfolding request_send_def 1 Let_def prod.case 2 by (auto split: option.split)
  finally show ?thesis .
qed

lemma request_enqueue_req:
  assumes "request_enqueue cfg client start len h st = Some (st', isNew, req, pre)"
  shows "req_frame st st'"
proof -
  obtain e r st1 i st2 where at: "request_attach client start e (block_floor start) r h st = Some (st1, i, isNew)"
    and pf: "request_prefetch cfg client e len h i isNew st1 = (st2, pre)" and st': "st' = request_addClient client start e i st2"
    using assms by (auto simp: request_enqueue_def Let_def split: option.splits prod.splits)
  have "req_frame st st1"
    using at by (auto simp: request_attach_def Let_def req_frame_def link_frame_def set_problem_queue_def split: option.splits if_splits)
  also have "req_frame st1 st2"
    using pf by (cases rule: request_prefetch_cases [of cfg client e len h i isNew st1]) (auto simp: req_frame_def link_frame_def)
  also have "req_frame st2 st'" by (auto simp: st' request_addClient_def Let_def req_frame_def link_frame_def split: option.splits)
  finally show ?thesis .
qed

lemma requestInternal_req:
  assumes "uplink_requestInternal cfg client start len h ok1 ok2 st = (r, st')"
  shows "req_frame st st'"
proof (cases "request_enqueue cfg client start len (request_hops cfg client h) st")
  case None
  then show ?thesis using assms by (auto simp: uplink_requestInternal_def split: if_splits)
next
  case (Some x)
  then obtain st1 isNew req pre where e: "request_enqueue cfg client start len (request_hops cfg client h) st = Some (st1, isNew, req, pre)"
    by (cases x) auto
  have "st' \<in> {st, st1, request_send isNew req pre (request_hops cfg client h) ok1 ok2 st1}"
    using assms e by (auto simp: uplink_requestInternal_def Let_def split: if_splits)
  then show ?thesis using request_enqueue_req [OF e] req_frame_trans [OF request_enqueue_req [OF e] request_send_req] by auto
qed

lemma requestInternal_link:
  "uplink_requestInternal cfg client start len h ok1 ok2 st = (r, st') \<Longrightarrow> link_frame st st'"
  using requestInternal_req by (auto simp: req_frame_def)

lemma replicate_step_link: "replicate_step cfg cache ok st = (res, st') \<Longrightarrow> link_frame st st'"
  by (auto simp: replicate_step_def Let_def link_frame_def dest!: requestInternal_link split: if_splits prod.splits)

lemma replicate_loop_link: "replicate_loop cfg cache n oks st = (r, st') \<Longrightarrow> link_frame st st'"
proof (induction cfg cache n oks st rule: replicate_loop.induct)
  case (2 cfg cache n oks st)
  obtain res st1 where "replicate_step cfg cache (oks \<noteq> [] \<and> hd oks) st = (res, st1)" by force
  then show ?case
    using 2 replicate_step_link link_frame_trans by (cases res) (auto, blast)
qed simp

lemma sendReplicationRequest_link: "sendReplicationRequest cfg oks st = (r, st') \<Longrightarrow> link_frame st st'"
  by (auto simp: sendReplicationRequest_def Let_def dest: replicate_loop_link split: if_splits option.splits)

lemma receive_store_link:
  assumes "receive_store gs fd script start payload st = Some st'"
  shows "link_frame st st'"
  using assms
proof (cases rule: receive_store_cases)
  case (1 st1 n blocks)
  have "ul st' = ul st1" using arg_cong [OF 1(5), of ul] by simp
  moreover have "uplinkref (img st') = uplinkref (img st1)" using arg_cong [OF update_frame [OF 1(4)], of uplinkref] by simp
  ultimately show ?thesis using 1(1) by (auto simp: link_frame_def store_frame_def)
qed (auto simp: link_frame_def store_frame_def)

lemma receive_finish_link: "receive_finish handle start end st = Some st' \<Longrightarrow> link_frame st st'"
  by (auto simp: receive_finish_def Let_def link_frame_def set_problem_queue_def split: option.splits if_splits)

section \<open>Steps that leave the queue alone\<close>

lemma resend_loop_unsent:
  "resend_loop newOnly v connected oks q reqs = (q', rest, out, failed, oks') \<Longrightarrow> map unsent q' = map unsent q"
proof (induction newOnly v connected oks q reqs arbitrary: q' rest out failed oks' rule: resend_loop.induct)
  case (2 newOnly v connected oks it q reqs)
  have "unsent (it\<lparr>qe_sent := True\<rparr>) = unsent it" by (simp add: unsent_def)
  then show ?case using 2 by (auto simp: Let_def split: if_splits prod.splits)
qed simp

lemma sendQueuedRequests_quiet:
  "quiet st (sendQueuedRequests newOnly oks st)" "link_frame st (sendQueuedRequests newOnly oks st)"
  "nextReplicationIndex (ul (sendQueuedRequests newOnly oks st)) = nextReplicationIndex (ul st)"
  "queueId (ul (sendQueuedRequests newOnly oks st)) = queueId (ul st)"
proof -
  obtain q rest out failed oks' where r: "resend_loop newOnly (conn_version (current (ul st)))
      (conn_fd (current (ul st)) \<noteq> -1) oks (queue (ul st)) [] = (q, rest, out, failed, oks')" by (metis prod_cases5)
  note u = resend_loop_unsent [OF r]
  show "quiet st (sendQueuedRequests newOnly oks st)"
    using u by (simp add: sendQueuedRequests_def r Let_def quiet_def)
  show "link_frame st (sendQueuedRequests newOnly oks st)"
    by (simp add: sendQueuedRequests_def r Let_def link_frame_def set_problem_uplink_def)
  show "nextReplicationIndex (ul (sendQueuedRequests newOnly oks st)) = nextReplicationIndex (ul st)"
    "queueId (ul (sendQueuedRequests newOnly oks st)) = queueId (ul st)"
    by (simp_all add: sendQueuedRequests_def r Let_def)
qed

text \<open>Descriptors of the two connections, and all descriptors the thread is responsible for.\<close>

definition owned :: "uplink_state \<Rightarrow> int list" where
  "owned st = filter (\<lambda>fd. fd \<noteq> -1) [conn_fd (current (ul st)), conn_fd (better (ul st))]"

definition descriptors :: "uplink_thread \<Rightarrow> int multiset" where
  "descriptors t = mset (closed t) + mset (owned (us t))"

text \<open>A switch is waiting exactly when there is a better connection.\<close>

definition rtt_inv :: "dnbd3_uplink_t \<Rightarrow> bool" where
  "rtt_inv u \<longleftrightarrow> (rttTestResult u = RTT_DOCHANGE \<longleftrightarrow> conn_fd (better u) \<noteq> -1)"

text \<open>
  What every part of the loop does: machine steps that accept no client, at most \<open>k\<close> handles used, the invariants of
  replication and of measurements kept, and descriptors accounted for.
\<close>

definition advances ::
  "config \<Rightarrow> (u64 \<Rightarrow> byte list \<Rightarrow> bool) \<Rightarrow> dnbd3_queue_client_t list \<Rightarrow> nat \<Rightarrow> uplink_thread \<Rightarrow> uplink_thread \<Rightarrow> bool" where
  "advances cfg P acc k t t' \<longleftrightarrow> (ustep cfg P)\<^sup>*\<^sup>* (us t, acc) (us t', acc) \<and> repl_inv (us t')
     \<and> unat (queueId (ul (us t'))) \<le> unat (queueId (ul (us t))) + k \<and> descriptors t' = descriptors t
     \<and> me t' = me t \<and> uplinkref (img (us t')) = uplinkref (img (us t))
     \<and> (rtt_inv (ul (us t)) \<longrightarrow> rtt_inv (ul (us t')))"

lemma advances_trans:
  assumes "advances cfg P acc k t t1" "advances cfg P acc k' t1 t2" "k + k' \<le> n"
  shows "advances cfg P acc n t t2"
  using assms by (auto simp: advances_def intro: rtranclp_trans)

lemma advances_refl [simp]: "repl_inv (us t) \<Longrightarrow> advances cfg P acc k t t"
  by (simp add: advances_def)

lemma advances_mono: "advances cfg P acc k t t' \<Longrightarrow> k \<le> n \<Longrightarrow> advances cfg P acc n t t'"
  by (auto simp: advances_def)

lemma repl_inv_quiet:
  assumes "repl_inv st" "quiet st st'" "nextReplicationIndex (ul st') \<in> {nextReplicationIndex (ul st), 0}"
  shows "repl_inv st'"
proof -
  have "0 < IMGSIZE_TO_MAPBYTES (virtualFilesize (img st))" by (rule repl_inv_mapbytes [OF assms(1)])
  then show ?thesis using assms inv_quiet [OF _ assms(2)] by (auto simp: repl_inv_def quiet_def)
qed

lemma advances_quiet:
  assumes "repl_inv (us t)" "quiet (us t) (us t')" "nextReplicationIndex (ul (us t')) \<in> {nextReplicationIndex (ul (us t)), 0}"
    and "queueId (ul (us t')) = queueId (ul (us t))" "descriptors t' = descriptors t" "me t' = me t"
    "uplinkref (img (us t')) = uplinkref (img (us t))" "rtt_inv (ul (us t)) \<Longrightarrow> rtt_inv (ul (us t'))"
  shows "advances cfg P acc k t t'"
  using repl_inv_quiet [OF assms(1-3)] assms by (auto simp: advances_def intro: ustep.internal)

lemma descriptors_link: "link_frame (us t) (us t') \<Longrightarrow> closed t' = closed t \<Longrightarrow> descriptors t' = descriptors t"
  by (simp add: link_frame_def descriptors_def owned_def)

lemma findUplinkAsync_frame: "findUplinkAsync t = Some t' \<Longrightarrow> us t' = us t \<and> closed t' = closed t \<and> me t' = me t"
  by (auto simp: findUplinkAsync_def split: option.splits)

lemma connectionFailed_advances:
  assumes "connectionFailed cfg now findNew t = Some t'" "repl_inv (us t)"
  shows "advances cfg P acc 0 t t'"
proof (cases "conn_fd (current (ul (us t))) = -1")
  case True
  then show ?thesis using assms by (simp add: connectionFailed_def)
next
  case False
  define t3 where "t3 = t\<lparr>alts := altservers_serverFailed now (nat (conn_index (current (ul (us t))))) (alts t),
      closed := closed t @ [conn_fd (current (ul (us t)))],
      us := (us t)\<lparr>img := set_problem_uplink True (img (us t)),
        ul := (ul (us t))\<lparr>current := (current (ul (us t)))\<lparr>conn_fd := -1\<rparr>,
          nextReplicationIndex := (if backgroundReplication cfg = BGR_FULL \<and> nextReplicationIndex (ul (us t)) = -1
                                   then 0 else nextReplicationIndex (ul (us t)))\<rparr>\<rparr>\<rparr>"
  have "t' = t3 \<or> findUplinkAsync t3 = Some t'"
    using assms(1) False by (auto simp: connectionFailed_def Let_def t3_def split: if_splits)
  then have eq: "us t' = us t3" "closed t' = closed t3" "me t' = me t3" using findUplinkAsync_frame by auto
  show ?thesis
  proof (rule advances_quiet [OF assms(2)])
    show "quiet (us t) (us t')" by (simp add: eq t3_def quiet_def)
    show "descriptors t' = descriptors t" using False by (simp add: eq descriptors_def owned_def rtt_inv_def t3_def)
  qed (simp_all add: eq t3_def set_problem_uplink_def rtt_inv_def)
qed

section \<open>Replication and checksums\<close>

text \<open>Handles left for one round of replication requests.\<close>

definition window :: "config \<Rightarrow> nat" where
  "window cfg = 2 * nat (bgrWindowSize cfg)"

lemma sendReplicationRequest_advances:
  assumes "sendReplicationRequest cfg oks (us t) = (r, st')" "repl_inv (us t)"
    "unat (queueId (ul (us t))) + window cfg + 4 < 2 ^ 64"
  shows "advances cfg P acc (window cfg) t (t\<lparr>us := st'\<rparr>)"
proof -
  have link: "link_frame (us t) st'" using assms(1) by (rule sendReplicationRequest_link)
  consider "st' = us t" | cache where "nextReplicationIndex (ul (us t)) \<noteq> -1" "ref_cacheMap (img (us t)) = Some cache"
    "replicate_loop cfg cache (nat (numWantedReplicationRequests cfg (ul (us t)))) oks (us t) = (r, st')"
    using assms(1) by (auto simp: sendReplicationRequest_def Let_def split: if_splits option.splits)
  then have "(ustep cfg P)\<^sup>*\<^sup>* (us t, acc) (st', acc) \<and> repl_inv st'
      \<and> unat (queueId (ul st')) \<le> unat (queueId (ul (us t))) + window cfg"
  proof cases
    case 2
    have le: "2 * nat (numWantedReplicationRequests cfg (ul (us t))) \<le> window cfg"
      using numWanted_le [of cfg] by (simp add: window_def)
    then have "unat (queueId (ul (us t))) + 2 * nat (numWantedReplicationRequests cfg (ul (us t))) + 4 < 2 ^ 64"
      using assms(3) by linarith
    from replicate_loop_sound [OF 2(3) assms(2) 2(1,2) this, of P acc] le show ?thesis by (auto intro: order_trans)
  qed (use assms in simp)
  then show ?thesis using link by (simp add: advances_def descriptors_link link_frame_def descriptors_def owned_def rtt_inv_def)
qed

lemma image_crc_frame [simp]:
  "image_wf (i\<lparr>masterCrc32 := m, crc32 := c\<rparr>) = image_wf i" "cached (i\<lparr>masterCrc32 := m, crc32 := c\<rparr>) = cached i"
  by (simp_all add: image_wf_def cached_def image_blocks_def split: option.split)

lemma requestCrc32List_cases:
  assumes "requestCrc32List pclmul align junk so si crcfd wr1 wr2 t = Some t'"
  obtains p where "us t' = (us t)\<lparr>img := (img (us t))\<lparr>problem := p\<rparr>\<rparr>" "closed t' = closed t" "me t' = me t" "crcFile t' = crcFile t"
  | master bs so' si' where "dnbd3_get_crc32 (nat (IMGSIZE_TO_HASHBLOCKS (virtualFilesize (img (us t)))) * 4) so si
        = Some (Some (Some master, bs), so', si')" "bs \<noteq> []" "Crc.crc32 pclmul align (Crc.crc32 pclmul 0 0 None) (Some bs) = master"
      "us t' = (us t)\<lparr>img := (img (us t))\<lparr>masterCrc32 := master, crc32 :=
         Some (le_words (nat (IMGSIZE_TO_HASHBLOCKS (virtualFilesize (img (us t))))) (bs @ drop (length bs) junk))\<rparr>\<rparr>"
      "closed t' = closed t" "me t' = me t" "crcFile t' \<in> {crcFile t, None, Some (overwrite (to_le 4 master @ bs) (crcFile t))}"
proof -
  let ?i = "img (us t)"
  note def = assms [unfolded requestCrc32List_def Let_def]
  have same: "t' = t \<Longrightarrow> thesis" using that(1) [of "problem ?i"] by simp
  show thesis
  proof (cases "virtualFilesize ?i = 0")
    case True
    then show thesis using def same by simp
  next
    case False
    then obtain r so' si' where r: "dnbd3_get_crc32 (nat (IMGSIZE_TO_HASHBLOCKS (virtualFilesize ?i)) * 4) so si = Some (r, so', si')"
      using def by (cases "dnbd3_get_crc32 (nat (IMGSIZE_TO_HASHBLOCKS (virtualFilesize ?i)) * 4) so si") auto
    note def1 = def [unfolded r option.case prod.case]
    show thesis
    proof (cases r)
      case None
      then show thesis
        using def1 False that(1) [of "(problem ?i)\<lparr>p_uplink := True\<rparr>"] by (simp add: set_problem_uplink_def) force
    next
      case (Some mb)
      obtain m bs where mb: "mb = (m, bs)" by (cases mb)
      show thesis
      proof (cases "m = None \<or> bs = [] \<or> Crc.crc32 pclmul align (Crc.crc32 pclmul 0 0 None) (Some bs) \<noteq> the m")
        case True
        then show thesis using def1 False Some mb same by (cases m) (auto split: if_splits)
      next
        case ok: False
        then obtain master where m: "m = Some master" by auto
        show thesis
          by (rule that(2) [OF r [unfolded Some mb m]]) (use def1 False Some mb m ok in \<open>auto split: if_splits\<close>)
      qed
    qed
  qed
qed

lemma requestCrc32List_advances:
  assumes "requestCrc32List pclmul align junk so si crcfd wr1 wr2 t = Some t'" "repl_inv (us t)"
  shows "advances cfg P acc 0 t t'"
  using assms(1)
proof (cases rule: requestCrc32List_cases)
  case (1 p)
  show ?thesis by (rule advances_quiet [OF assms(2)]) (simp_all add: 1 quiet_def descriptors_def owned_def rtt_inv_def)
next
  case (2 master bs so' si')
  show ?thesis by (rule advances_quiet [OF assms(2)]) (simp_all add: 2 quiet_def descriptors_def owned_def rtt_inv_def)
qed

section \<open>Receiving\<close>

text \<open>
  The replies a script delivers, with their payloads: what the upstream server sends, whatever the state of the uplink.
\<close>

function replies :: "recv_event list \<Rightarrow> (dnbd3_reply_t \<times> byte list) list" where
  "replies s =
     (case dnbd3_read_reply False s of
        Some (REPLY_INTR, s1) \<Rightarrow> replies s1
      | Some (REPLY_OK reply, s1) \<Rightarrow>
          (case sock_recv (unat (rp_size reply)) s1 of
             None \<Rightarrow> []
           | Some (ret, got, s2) \<Rightarrow> (reply, got) # replies s2)
      | _ \<Rightarrow> [])"
  by pat_completeness auto
termination
  by (relation "measure script_size") (auto dest!: read_reply_shrinks sock_recv_shrinks intro: le_less_trans)

declare replies.simps [simp del]

text \<open>Every block reply for a pending request carries data that \<open>P\<close> admits for its range.\<close>

definition honest :: "(u64 \<Rightarrow> byte list \<Rightarrow> bool) \<Rightarrow> recv_event list \<Rightarrow> dnbd3_queue_entry_t list \<Rightarrow> bool" where
  "honest P s q \<longleftrightarrow> (\<forall>(reply, payload) \<in> set (replies s). \<forall>e \<in> set q.
     rp_cmd reply = CMD_GET_BLOCK \<and> qe_handle e = rp_handle reply \<longrightarrow> P (qe_from e) payload)"

lemma honest_subset: "honest P s q \<Longrightarrow> set q' \<subseteq> set q \<Longrightarrow> honest P s q'"
  unfolding honest_def by blast

lemma fill_recv_quiet:
  "quiet st (fill_recv cfg junk sz got st)" "link_frame st (fill_recv cfg junk sz got st)"
  "queue (ul (fill_recv cfg junk sz got st)) = queue (ul st)"
  "nextReplicationIndex (ul (fill_recv cfg junk sz got st)) = nextReplicationIndex (ul st)"
  "queueId (ul (fill_recv cfg junk sz got st)) = queueId (ul st)" "img (fill_recv cfg junk sz got st) = img st"
  by (simp_all add: fill_recv_def fill_buffer_def grow_buffer_def Let_def quiet_def link_frame_def)

lemma receive_index_bound:
  assumes "repl_inv st" "e \<in> set (queue (ul st))"
  shows "0 \<le> MAP_INDEX_HASH_START (c_int (qe_from e div 32768))"
    "MAP_INDEX_HASH_START (c_int (qe_from e div 32768)) \<le> IMGSIZE_TO_MAPBYTES (virtualFilesize (img st))"
proof -
  let ?vs = "virtualFilesize (img st)"
  have inv: "uplink_inv st" using assms(1) by (simp add: repl_inv_def)
  have wf: "image_wf (img st)" and "entry_ok ?vs e" using inv assms(2) by (auto simp: uplink_inv_def queue_ok_def list_all_iff)
  then have "unat (qe_from e) \<le> unat ?vs" and vs: "unat ?vs < 2 ^ 45"
    by (auto simp: entry_ok_def image_wf_def word_le_nat_alt)
  define n where "n = unat (qe_from e div 32768)"
  have d: "n \<le> unat ?vs div 32768" using \<open>unat (qe_from e) \<le> unat ?vs\<close> by (simp add: n_def unat_div div_le_mono)
  then have "unat (qe_from e div 32768) < 2 ^ 31" using vs by (simp add: n_def)
  then have c: "c_int (qe_from e div 32768) = int n" unfolding n_def by (rule c_int_small)
  have "int n div 512 * 512 \<le> int n" "n \<le> (unat ?vs + 32767) div 32768" using d by linarith+
  then show "0 \<le> MAP_INDEX_HASH_START (c_int (qe_from e div 32768))"
    "MAP_INDEX_HASH_START (c_int (qe_from e div 32768)) \<le> IMGSIZE_TO_MAPBYTES ?vs"
    using mapbytes_eq [OF vs] unfolding hash_start_eq c by auto
qed

lemma receive_store_ul:
  assumes "receive_store gs fd script start payload st = Some st'"
  shows "\<exists>fd'. ul st' = (ul st)\<lparr>cacheFd := fd'\<rparr>"
  using assms
proof (cases rule: receive_store_cases)
  case (1 st1 n blocks)
  have "ul st' = ul st1" using arg_cong [OF 1(5), of ul] by simp
  then show ?thesis using 1(1) by (auto simp: store_frame_def)
qed (auto simp: store_frame_def)

lemma receive_finish_index:
  assumes "receive_finish handle start end st = Some st'"
  shows "nextReplicationIndex (ul st') = nextReplicationIndex (ul st)
    \<or> nextReplicationIndex (ul st') = MAP_INDEX_HASH_START (c_int (start div 32768))" "virtualFilesize (img st') = virtualFilesize (img st)"
  using assms by (auto simp: receive_finish_def Let_def split: option.splits if_splits)

lemma receive_block_usteps:
  assumes rb: "receive_block gs fd script handle payload st = Some st'" and inv: "repl_inv st"
    and data: "\<forall>e \<in> set (queue (ul st)). qe_handle e = handle \<longrightarrow> P (qe_from e) payload"
  shows "(ustep cfg P)\<^sup>*\<^sup>* (st, acc) (st', acc) \<and> repl_inv st' \<and> set (queue (ul st')) \<subseteq> set (queue (ul st))
    \<and> link_frame st st' \<and> queueId (ul st') = queueId (ul st)"
proof -
  define st0 where "st0 = st\<lparr>totalBytesReceived := totalBytesReceived st + word_of_nat (length payload),
      ul := (ul st)\<lparr>bytesReceived := bytesReceived (ul st) + word_of_nat (length payload)\<rparr>\<rparr>"
  have q0: "quiet st st0" "link_frame st st0" "queue (ul st0) = queue (ul st)" "queueId (ul st0) = queueId (ul st)"
    "nextReplicationIndex (ul st0) = nextReplicationIndex (ul st)"
    by (simp_all add: st0_def quiet_def link_frame_def)
  have inv0: "repl_inv st0" using repl_inv_quiet [OF inv q0(1)] q0(5) by simp
  have step0: "(ustep cfg P)\<^sup>*\<^sup>* (st, acc) (st0, acc)" using q0(1) by (blast intro: ustep.internal)
  show ?thesis
  proof (cases "queue_find (\<lambda>e. qe_handle e = handle) (queue (ul st0))")
    case None
    then show ?thesis using rb inv0 step0 q0 by (simp add: receive_block_def Let_def st0_def)
  next
    case (Some i)
    let ?e = "queue (ul st0) ! i"
    have e: "?e \<in> set (queue (ul st0))" "qe_handle ?e = handle" using queue_find_Some [OF Some] by auto
    obtain st1 where store: "receive_store gs fd script (qe_from ?e) payload st0 = Some st1"
      and fin: "receive_finish handle (qe_from ?e) (qe_to ?e) st1 = Some st'"
      using rb Some by (auto simp: receive_block_def Let_def st0_def split: option.splits)
    have inv_u: "uplink_inv st0" using inv0 by (simp add: repl_inv_def)
    note s1 = inv_receive_store [OF inv_u store]
    have "P (qe_from ?e) payload" using data e q0(3) by simp
    then have "ustep cfg P (st0, acc) (st1, acc)" using store by (rule ustep.store)
    moreover have "ustep cfg P (st1, acc) (st', acc)" using fin by (rule ustep.finish)
    ultimately have steps: "(ustep cfg P)\<^sup>*\<^sup>* (st, acc) (st', acc)" using step0 by (meson rtranclp.rtrancl_into_rtrancl)
    obtain fd' where "ul st1 = (ul st0)\<lparr>cacheFd := fd'\<rparr>" using receive_store_ul [OF store] by blast
    then have "repl_inv st'"
      using receive_finish_index [OF fin] receive_index_bound [OF inv0 e(1)] inv0 s1 inv_receive_finish [OF s1(1) fin]
      by (auto simp: repl_inv_def)
    moreover have "link_frame st st'"
      using q0(2) receive_store_link [OF store] receive_finish_link [OF fin] link_frame_trans by blast
    moreover have "set (queue (ul st')) \<subseteq> set (queue (ul st))" "queueId (ul st') = queueId (ul st)"
      using receive_finish_queue [OF fin] s1(3,5) q0(3,4) by auto
    ultimately show ?thesis using steps by blast
  qed
qed

lemma replies_intr: "dnbd3_read_reply False s = Some (REPLY_INTR, s1) \<Longrightarrow> replies s = replies s1"
  by (simp add: replies.simps [of s])

lemma replies_ok:
  "dnbd3_read_reply False s = Some (REPLY_OK reply, s1) \<Longrightarrow> sock_recv (unat (rp_size reply)) s1 = Some (ret, got, s2)
    \<Longrightarrow> replies s = (reply, got) # replies s2"
  by (simp add: replies.simps [of s])

text \<open>The receive loop stays inside the machine.\<close>

definition received ::
  "config \<Rightarrow> (u64 \<Rightarrow> byte list \<Rightarrow> bool) \<Rightarrow> dnbd3_queue_client_t list \<Rightarrow> uplink_state \<Rightarrow> uplink_state \<Rightarrow> bool" where
  "received cfg P acc st st' \<longleftrightarrow> (ustep cfg P)\<^sup>*\<^sup>* (st, acc) (st', acc) \<and> repl_inv st' \<and> link_frame st st'
     \<and> queueId (ul st') = queueId (ul st)"

lemma received_trans: "received cfg P acc a b \<Longrightarrow> received cfg P acc b c \<Longrightarrow> received cfg P acc a c"
  by (auto simp: received_def intro: rtranclp_trans link_frame_trans)

lemma received_fill:
  assumes "repl_inv st"
  shows "received cfg P acc st (fill_recv cfg' junk sz got st)"
proof -
  let ?st = "fill_recv cfg' junk sz got st"
  have q: "quiet st ?st" by (rule fill_recv_quiet)
  then have "ustep cfg P (st, acc) (?st, acc)" by (rule ustep.internal)
  then show ?thesis
    using repl_inv_quiet [OF assms q] fill_recv_quiet(2) [of st cfg' junk sz got] by (simp add: received_def fill_recv_quiet(4,5))
qed

lemma receive_loop_received:
  assumes "receive_loop cfg gs envs s st = Some (r, s', st')" "repl_inv st" "honest P s (queue (ul st))"
  shows "received cfg P acc st st'"
  using assms
proof (induction cfg gs envs s st arbitrary: r s' st' rule: receive_loop.induct)
  case (1 cfg gs envs s st)
  note loop = "1.prems"(1) [unfolded receive_loop.simps [of cfg gs envs s st]]
  have rcv: "received cfg P acc st st" using "1.prems"(2) by (simp add: received_def)
  obtain rep s1 where rr: "dnbd3_read_reply False s = Some (rep, s1)" using loop by (cases "dnbd3_read_reply False s") auto
  show ?case
  proof (cases rep)
    case (REPLY_OK reply)
    show ?thesis
    proof (cases "rp_size reply > maxPayload cfg")
      case True
      then show ?thesis using loop rr REPLY_OK rcv by simp
    next
      case small: False
      then obtain e es ret got s2 where envs: "envs = e # es" and rc: "sock_recv (unat (rp_size reply)) s1 = Some (ret, got, s2)"
        using loop rr REPLY_OK by (auto split: list.splits option.splits)
      let ?st1 = "fill_recv cfg (rx_junk e) (rp_size reply) got st"
      note reps = replies_ok [OF rr [unfolded REPLY_OK] rc]
      have f: "received cfg P acc st ?st1" by (rule received_fill [OF "1.prems"(2)])
      then have inv1: "repl_inv ?st1" by (simp add: received_def)
      have q1: "queue (ul ?st1) = queue (ul st)" by (rule fill_recv_quiet)
      have h2: "honest P s2 (queue (ul st))" using "1.prems"(3) reps by (simp add: honest_def)
      consider "ret \<noteq> int (unat (rp_size reply))" | "ret = int (unat (rp_size reply))" "rp_cmd reply \<noteq> CMD_GET_BLOCK"
        | "ret = int (unat (rp_size reply))" "rp_cmd reply = CMD_GET_BLOCK" by blast
      then show ?thesis
      proof cases
        case 1
        then show ?thesis using loop rr REPLY_OK small envs rc f by (auto simp: Let_def)
      next
        case 2
        then have "receive_loop cfg gs es s2 ?st1 = Some (r, s', st')"
          using loop rr REPLY_OK small envs rc by (simp add: Let_def)
        then have "received cfg P acc ?st1 st'"
          using "1.IH"(1) [OF rr refl REPLY_OK small envs rc refl refl refl _ _ _ inv1] 2 h2 q1 by simp
        with f show ?thesis by (rule received_trans)
      next
        case 3
        then obtain st2 where rb: "receive_block gs (rx_fd e) (rx_script e) (rp_handle reply) got ?st1 = Some st2"
          and go: "receive_loop cfg gs es s2 st2 = Some (r, s', st')"
          using loop rr REPLY_OK small envs rc by (auto simp: Let_def split: option.splits)
        have "\<forall>q \<in> set (queue (ul ?st1)). qe_handle q = rp_handle reply \<longrightarrow> P (qe_from q) got"
          using "1.prems"(3) reps q1 3 by (auto simp: honest_def)
        note b = receive_block_usteps [OF rb inv1, of P cfg acc, OF this]
        then have "received cfg P acc ?st1 st2" by (simp add: received_def)
        moreover have "received cfg P acc st2 st'"
          using "1.IH"(2) [OF rr refl REPLY_OK small envs rc refl refl refl _ _ rb go] 3 b honest_subset [OF h2] q1 by simp
        ultimately show ?thesis using f received_trans by blast
      qed
    qed
  next
    case REPLY_INTR
    then show ?thesis using loop rr rcv "1.IH"(3) [OF rr] "1.prems"(2,3) replies_intr
      by (auto simp: honest_def split: if_splits)
  qed (use loop rr rcv in auto)
qed

lemma received_advances: "received cfg P acc (us t) st' \<Longrightarrow> advances cfg P acc k t (t\<lparr>us := st'\<rparr>)"
  by (auto simp: received_def advances_def link_frame_def descriptors_def owned_def rtt_inv_def)

lemma handleReceive_advances:
  assumes "handleReceive cfg gs now envs s oks t = Some t'" "repl_inv (us t)" "honest P s (queue (ul (us t)))"
    and room: "unat (queueId (ul (us t))) + window cfg + 4 < 2 ^ 64"
  shows "advances cfg P acc (window cfg) t t'"
proof -
  obtain r s' st where loop: "receive_loop cfg gs envs s (us t) = Some (r, s', st)"
    using assms(1) by (auto simp: handleReceive_def split: if_splits option.splits)
  let ?t1 = "t\<lparr>us := st\<rparr>"
  have rcv: "received cfg P acc (us t) st" by (rule receive_loop_received [OF loop assms(2,3)])
  have a1: "advances cfg P acc 0 t ?t1" using rcv by (rule received_advances)
  have inv1: "repl_inv (us ?t1)" and id1: "queueId (ul (us ?t1)) = queueId (ul (us t))" using rcv by (simp_all add: received_def)
  show ?thesis
  proof (cases r)
    case False
    then have "connectionFailed cfg now True ?t1 = Some t'"
      using assms(1) loop by (simp add: handleReceive_def split: if_splits)
    from connectionFailed_advances [OF this inv1] have "advances cfg P acc 0 ?t1 t'" .
    from advances_trans [OF a1 this] show ?thesis by simp
  next
    case True
    obtain ok st1 where rep: "sendReplicationRequest cfg oks (us ?t1) = (ok, st1)" by force
    have a2: "advances cfg P acc (window cfg) ?t1 (t\<lparr>us := st1\<rparr>)"
      using sendReplicationRequest_advances [OF rep inv1] room id1 by simp
    then have inv2: "repl_inv (us (t\<lparr>us := st1\<rparr>))" by (simp add: advances_def)
    have "t' = t\<lparr>us := st1\<rparr> \<or> connectionFailed cfg now True (t\<lparr>us := st1\<rparr>) = Some t'"
      using assms(1) loop True rep by (auto simp: handleReceive_def split: if_splits bool.splits)
    then have "advances cfg P acc 0 (t\<lparr>us := st1\<rparr>) t'" using connectionFailed_advances inv2 by auto
    then show ?thesis using advances_trans [OF advances_trans [OF a1 a2 order_refl]] by simp
  qed
qed

section \<open>The main loop\<close>

lemma advances_room:
  "advances cfg P acc k t t' \<Longrightarrow> unat (queueId (ul (us t))) + k + n < m \<Longrightarrow> unat (queueId (ul (us t'))) + n < m"
  by (simp add: advances_def)

lemma advances_inv: "advances cfg P acc k t t' \<Longrightarrow> repl_inv (us t')"
  by (simp add: advances_def)

text \<open>Dropping a connection when something went wrong.\<close>

lemma failed_unless_advances:
  assumes "(if p then connectionFailed cfg now findNew t else Some t) = Some t'" "repl_inv (us t)"
  shows "advances cfg P acc 0 t t'"
  using assms connectionFailed_advances by (auto split: if_splits)

lemma switch_server_advances:
  assumes sw: "switch_server cfg e t = Some t'" and inv: "repl_inv (us t)"
    and room: "unat (queueId (ul (us t))) + window cfg + 4 < 2 ^ 64"
  shows "advances cfg P acc (window cfg) t t'"
proof (cases "rttTestResult (ul (us t)) = RTT_DOCHANGE")
  case True
  define t3 where "t3 = take_better t"
  have a3: "advances cfg P acc 0 t t3"
    by (rule advances_quiet [OF inv])
      (simp_all add: t3_def take_better_def Let_def quiet_def descriptors_def owned_def rtt_inv_def set_problem_uplink_def)
  note sw3 = sw [unfolded switch_server_def Let_def t3_def [symmetric]]
  obtain t4 where t4: "(if dnbd3_image_t.crc32 (img (us t3)) = None
      then requestCrc32List (it_pclmul e) (it_align e) (it_junk e) (it_so e) (it_si e) (it_crcfd e) (it_wr1 e) (it_wr2 e) t3
      else Some t3) = Some t4"
    using sw3 True by (fastforce split: option.splits)
  have a4: "advances cfg P acc 0 t3 t4"
    using t4 requestCrc32List_advances advances_inv [OF a3] by (auto split: if_splits)
  define t5 where "t5 = t4\<lparr>us := sendQueuedRequests False (it_resend e) (us t4)\<rparr>"
  have a5: "advances cfg P acc 0 t4 t5"
    using sendQueuedRequests_quiet [where st = "us t4" and newOnly = False and oks = "it_resend e"]
    by (intro advances_quiet [OF advances_inv [OF a4]]) (simp_all add: t5_def link_frame_def descriptors_def owned_def rtt_inv_def)
  have a35: "advances cfg P acc 0 t t5" using advances_trans [OF advances_trans [OF a3 a4] a5] by simp
  obtain ok st6 where rep: "sendReplicationRequest cfg (it_repl1 e) (us t5) = (ok, st6)" by force
  let ?t6 = "t5\<lparr>us := st6\<rparr>"
  have a6: "advances cfg P acc (window cfg) t5 ?t6"
    using sendReplicationRequest_advances [OF rep advances_inv [OF a35]] advances_room [OF a35, of "window cfg + 4" "2 ^ 64"] room by simp
  obtain t7 where t7: "(if p_uplink (problem (img (us ?t6))) then connectionFailed cfg (it_fail e) True ?t6 else Some ?t6) = Some t7"
    and t': "t' = t7\<lparr>nextAltCheck := timing_set (it_now e) (altCheckInterval t7)\<rparr>"
    using sw3 [unfolded t4 option.case t5_def [symmetric] rep snd_conv] True by (auto split: option.splits)
  have a7: "advances cfg P acc 0 ?t6 t7" by (rule failed_unless_advances [OF t7 advances_inv [OF a6]])
  have "advances cfg P acc (window cfg) t t7" using advances_trans [OF advances_trans [OF a35 a6 order_refl] a7] by simp
  then show ?thesis by (simp add: t' advances_def descriptors_def)
qed (use sw inv in \<open>simp add: switch_server_def\<close>)

lemma signal_step_advances:
  assumes "signal_step e ev t = (go, t')" "repl_inv (us t)"
  shows "advances cfg P acc 0 t t'"
proof (cases ev)
  case InEvent
  note sq = sendQueuedRequests_quiet [where st = "us t" and newOnly = True and oks = "it_send e"]
  let ?u = "ul (us t)"
  have sent: "advances cfg P acc 0 t (t\<lparr>us := sendQueuedRequests True (it_send e) (us t)\<rparr>)"
    using sq by (intro advances_quiet [OF assms(2)]) (simp_all add: descriptors_def owned_def rtt_inv_def link_frame_def)
  have idle: "advances cfg P acc 0 t (set_ul (\<lambda>u. u\<lparr>idleTime := 0\<rparr>) t)"
    by (intro advances_quiet [OF assms(2)]) (simp_all add: descriptors_def owned_def rtt_inv_def quiet_def)
  have "t' = (if conn_fd (current ?u) \<noteq> -1 then t\<lparr>us := sendQueuedRequests True (it_send e) (us t)\<rparr>
      else if queueLen ?u \<noteq> 0 then set_ul (\<lambda>u. u\<lparr>idleTime := 0\<rparr>) t else t)"
    using assms(1) InEvent by (simp add: signal_step_def)
  then show ?thesis using sent idle assms(2) by simp
next
  case ErrorEvent
  then show ?thesis
    using assms(1) by (intro advances_quiet [OF assms(2)])
      (auto simp: signal_step_def descriptors_def owned_def rtt_inv_def quiet_def set_problem_uplink_def)
qed (use assms in \<open>simp add: signal_step_def\<close>)

lemma socket_step_advances:
  assumes "socket_step cfg e ev t = Some (go, t')" "repl_inv (us t)"
    and "ev = InEvent \<Longrightarrow> honest P (it_data e) (queue (ul (us t)))"
    and "unat (queueId (ul (us t))) + window cfg + 4 < 2 ^ 64"
  shows "advances cfg P acc (window cfg) t t'"
proof (cases ev)
  case InEvent
  then show ?thesis
    using assms handleReceive_advances by (auto simp: socket_step_def split: option.splits)
next
  case ErrorEvent
  then show ?thesis
    using assms(1) connectionFailed_advances [OF _ assms(2)] advances_mono [of cfg P acc 0 t t' "window cfg"]
    by (auto simp: socket_step_def)
qed (use assms in \<open>simp add: socket_step_def\<close>)

lemma keepalive_step_advances:
  assumes ks: "keepalive_step cfg e t = Some (go, t')" and inv: "repl_inv (us t)"
    and room: "unat (queueId (ul (us t))) + window cfg + 4 < 2 ^ 64"
  shows "advances cfg P acc (window cfg) t t'"
proof -
  let ?passed = "timing_diff (lastKeepalive t) (it_now e)"
  define t1 where "t1 = set_ul (\<lambda>u. u\<lparr>idleTime := idleTime u + int (unat ?passed)\<rparr>) (t\<lparr>lastKeepalive := it_now e\<rparr>)"
  obtain kok st2 where ka: "sendKeepalive (it_keepalive e) (us t1) = (kok, st2)" by force
  obtain ok st3 where rep: "sendReplicationRequest cfg (it_repl3 e) st2 = (ok, st3)" by force
  have "quiet (us t1) st2" "link_frame (us t1) st2" "nextReplicationIndex (ul st2) = nextReplicationIndex (ul (us t1))"
      "queueId (ul st2) = queueId (ul (us t1))"
    using ka by (auto simp: sendKeepalive_def quiet_def link_frame_def split: if_splits)
  moreover have a1: "advances cfg P acc 0 t t1"
    by (rule advances_quiet [OF inv]) (simp_all add: t1_def quiet_def descriptors_def owned_def rtt_inv_def)
  ultimately have a2: "advances cfg P acc 0 t1 (t1\<lparr>us := st2\<rparr>)"
    by (intro advances_quiet [OF advances_inv [OF a1]]) (simp_all add: link_frame_def descriptors_def owned_def rtt_inv_def)
  have a12: "advances cfg P acc 0 t (t1\<lparr>us := st2\<rparr>)" using advances_trans [OF a1 a2] by simp
  have a3: "advances cfg P acc (window cfg) (t1\<lparr>us := st2\<rparr>) (t1\<lparr>us := st3\<rparr>)"
    using sendReplicationRequest_advances [of cfg "it_repl3 e" "t1\<lparr>us := st2\<rparr>" ok st3] rep advances_inv [OF a12]
      advances_room [OF a12, of "window cfg + 4" "2 ^ 64"] room by simp
  have a13: "advances cfg P acc (window cfg) t (t1\<lparr>us := st3\<rparr>)" using advances_trans [OF a12 a3] by simp
  have "t' = t \<or> t' = t1 \<or> connectionFailed cfg (it_fail e) True (t1\<lparr>us := st2\<rparr>) = Some t'
      \<or> connectionFailed cfg (it_fail e) True (t1\<lparr>us := st3\<rparr>) = Some t' \<or> t' = t1\<lparr>us := st3\<rparr>"
    using ks [unfolded keepalive_step_def Let_def t1_def [symmetric] ka] rep by (auto split: if_splits option.splits bool.splits)
  then consider "t' = t" | "t' = t1" | "t' = t1\<lparr>us := st3\<rparr>" | "advances cfg P acc 0 (t1\<lparr>us := st2\<rparr>) t'"
    | "advances cfg P acc 0 (t1\<lparr>us := st3\<rparr>) t'"
    using connectionFailed_advances advances_inv [OF a12] advances_inv [OF a13] by blast
  then show ?thesis
  proof cases
    case 2
    then show ?thesis using advances_mono [OF a1] by simp
  next
    case 4
    then show ?thesis using advances_trans [OF a12 4] by simp
  next
    case 5
    then show ?thesis using advances_trans [OF a13 5] by simp
  qed (use inv a13 in auto)
qed

lemma isComplete_quiet:
  assumes "image_isComplete i = (complete, i', files)"
  shows "virtualFilesize i' = virtualFilesize i" "uplinkref i' = uplinkref i"
    "image_wf i \<Longrightarrow> image_wf i' \<and> cached i' = cached i"
proof -
  show "virtualFilesize i' = virtualFilesize i" "uplinkref i' = uplinkref i"
    using assms by (auto simp: image_isComplete_def split: if_splits option.splits)
  assume wf: "image_wf i"
  have "i' = i \<or> cached i = {..< image_blocks i} \<and> i' = i\<lparr>ref_cacheMap := None\<rparr>"
    using assms [unfolded isComplete_split [OF wf]] by (simp split: if_splits)
  then show "image_wf i' \<and> cached i' = cached i"
  proof (elim disjE conjE)
    assume all: "cached i = {..< image_blocks i}" and i': "i' = i\<lparr>ref_cacheMap := None\<rparr>"
    have "cached i' = {..< image_blocks i}" by (simp add: i' cached_def image_blocks_def)
    moreover have "image_wf i'" using wf by (simp add: i' image_wf_def)
    ultimately show ?thesis using all by simp
  qed (use wf in simp)
qed

lemma rtt_step_advances:
  assumes rs: "rtt_step cfg e t = Some (go, t')" and inv: "repl_inv (us t)"
  shows "advances cfg P acc 0 t t'"
proof -
  let ?u = "ul (us t)"
  obtain complete i files where ic: "image_isComplete (img (us t)) = (complete, i, files)" by (metis prod_cases3)
  note iq = isComplete_quiet [OF ic]
  consider "t' = t" | "us t' = (us t)\<lparr>img := set_problem_uplink False i\<rparr>" "closed t' = closed t" "me t' = me t"
    | "us t' = (us t)\<lparr>img := i, ul := ?u\<lparr>nextReplicationIndex :=
         (if backgroundReplication cfg = BGR_FULL \<and> nextReplicationIndex ?u = -1 then 0 else nextReplicationIndex ?u)\<rparr>\<rparr>"
      "closed t' = closed t" "me t' = me t"
    | "us t' = (us t)\<lparr>ul := ?u\<lparr>rttTestResult := RTT_IDLE,
         cycleDetected := (if conn_fd (current ?u) = -1 then False else cycleDetected ?u)\<rparr>\<rparr>" "closed t' = closed t" "me t' = me t"
      "rttTestResult ?u = RTT_NOT_REACHABLE"
  proof -
    let ?due = "timing_reached (nextAltCheck t) (it_now e) \<or> conn_fd (current ?u) = -1 \<and> discoverFailCount t = 0 \<or> cycleDetected ?u"
    consider (check) "rttTestResult ?u = RTT_IDLE \<or> rttTestResult ?u = RTT_DONTCHANGE" ?due
      | (lost) "rttTestResult ?u = RTT_NOT_REACHABLE"
      | (none) "rttTestResult ?u \<noteq> RTT_NOT_REACHABLE" "\<not> ((rttTestResult ?u = RTT_IDLE \<or> rttTestResult ?u = RTT_DONTCHANGE) \<and> ?due)"
      by blast
    then show thesis
    proof cases
      case check
      note rs1 = rs [unfolded rtt_step_def Let_def if_P [OF check(1)] if_P [OF check(2)] ic prod.case]
      show thesis
      proof (cases complete)
        case True
        then show thesis using rs1 that(2) by auto
      next
        case False
        then obtain t1 where "findUplinkAsync (set_img (\<lambda>_. i) t) = Some t1"
          using rs1 by (cases "findUplinkAsync (set_img (\<lambda>_. i) t)") auto
        then show thesis using rs1 False findUplinkAsync_frame that(3) by auto
      qed
    next
      case lost
      then show thesis using rs that(4) lost by (auto simp: rtt_step_def Let_def)
    next
      case none
      then show thesis using rs that(1) by (auto simp: rtt_step_def Let_def split: if_splits)
    qed
  qed
  then show ?thesis
  proof cases
    case 1
    then show ?thesis using inv by simp
  next
    case 2
    show ?thesis by (rule advances_quiet [OF inv])
      (use iq in \<open>simp_all add: 2 quiet_def descriptors_def owned_def rtt_inv_def set_problem_uplink_def\<close>)
  next
    case 3
    show ?thesis by (rule advances_quiet [OF inv]) (use iq in \<open>simp_all add: 3 quiet_def descriptors_def owned_def rtt_inv_def\<close>)
  next
    case 4
    show ?thesis by (rule advances_quiet [OF inv]) (simp_all add: 4 quiet_def descriptors_def owned_def rtt_inv_def)
  qed
qed

text \<open>
  What is assumed about the data read in an iteration: a reply that carries the handle of a queued request has a payload
  allowed by \<open>P\<close> at the offset of that request. It concerns the queue as it is when the loop starts to read.
\<close>

definition at_receive :: "config \<Rightarrow> iter_env \<Rightarrow> uplink_thread \<Rightarrow> uplink_thread option" where
  "at_receive cfg e t =
     (case it_poll e of
        Polled sig InEvent \<Rightarrow> map_option (\<lambda>t1. snd (signal_step e sig t1)) (switch_server cfg e t)
      | _ \<Rightarrow> None)"

definition honest_at :: "config \<Rightarrow> (u64 \<Rightarrow> byte list \<Rightarrow> bool) \<Rightarrow> iter_env \<Rightarrow> uplink_thread \<Rightarrow> bool" where
  "honest_at cfg P e t = (case at_receive cfg e t of None \<Rightarrow> True | Some t1 \<Rightarrow> honest P (it_data e) (queue (ul (us t1))))"

lemma mainloop_body_advances:
  assumes mb: "mainloop_body cfg e t = Some (go, t')" and inv: "repl_inv (us t)" and data: "honest_at cfg P e t"
    and room: "unat (queueId (ul (us t))) + 3 * window cfg + 4 < 2 ^ 64"
  shows "advances cfg P acc (3 * window cfg) t t'"
proof (cases "it_shutdown0 e \<or> shutdown (ul (us t)) \<or> it_shutdown1 e \<or> it_poll e = PollFailed")
  case True
  then have "t' = t" using mb by (auto simp: mainloop_body_def split: if_splits)
  then show ?thesis using inv by simp
next
  case False
  then obtain sig sock where poll: "it_poll e = Polled sig sock" by (cases "it_poll e") auto
  obtain t1 where t1: "switch_server cfg e t = Some t1"
    using mb False poll by (auto simp: mainloop_body_def split: option.splits)
  obtain g2 t2 where t2: "signal_step e sig t1 = (g2, t2)" by force
  note mb2 = mb [unfolded mainloop_body_def poll poll_result.case t1 option.case t2]
  have a1: "advances cfg P acc (window cfg) t t1" using switch_server_advances [OF t1 inv] room by simp
  have "advances cfg P acc 0 t1 t2" by (rule signal_step_advances [OF t2 advances_inv [OF a1]])
  from advances_trans [OF a1 this] have a2: "advances cfg P acc (window cfg) t t2" by simp
  show ?thesis
  proof (cases g2)
    case False
    then have "t' = t2" using mb2 \<open>\<not> (it_shutdown0 e \<or> _)\<close> by simp
    then show ?thesis using advances_mono [OF a2] by simp
  next
    case True
    then obtain g3 t3 where t3: "socket_step cfg e sock t2 = Some (g3, t3)"
      using mb2 False by (auto split: option.splits)
    have "sock = InEvent \<Longrightarrow> honest P (it_data e) (queue (ul (us t2)))"
      using data poll t1 t2 by (simp add: honest_at_def at_receive_def)
    then have "advances cfg P acc (window cfg) t2 t3"
      using socket_step_advances [OF t3 advances_inv [OF a2]] advances_room [OF a2, of "window cfg + 4" "2 ^ 64"] room by simp
    from advances_trans [OF a2 this] have a3: "advances cfg P acc (2 * window cfg) t t3" by simp
    show ?thesis
    proof (cases g3)
      case g3: True
      obtain g4 t4 where t4: "keepalive_step cfg e t3 = Some (g4, t4)"
        using mb2 False True t3 g3 by (auto split: option.splits)
      have "advances cfg P acc (window cfg) t3 t4"
        using keepalive_step_advances [OF t4 advances_inv [OF a3]] advances_room [OF a3, of "window cfg + 4" "2 ^ 64"] room by simp
      from advances_trans [OF a3 this] have a4: "advances cfg P acc (3 * window cfg) t t4" by simp
      have "t' = t4 \<or> rtt_step cfg e t4 = Some (go, t')"
        using mb2 False True t3 g3 t4 by (cases g4) auto
      then have "advances cfg P acc 0 t4 t'" using rtt_step_advances advances_inv [OF a4] by auto
      then show ?thesis using advances_trans [OF a4] by simp
    next
      case g3: False
      then have "t' = t3" using mb2 False True t3 by simp
      then show ?thesis using advances_mono [OF a3] by simp
    qed
  qed
qed

section \<open>Sending in batches\<close>

lemma resend_loop_complete:
  assumes "\<forall>b \<in> set oks. b" "length reqs + length q < 125 * length oks" "length reqs < 125"
  shows "\<exists>rest out oks'. resend_loop newOnly v True oks q reqs = (map (qe_sent_update (\<lambda>_. True)) q, rest, out, False, oks')
    \<and> out @ rest = reqs @ map (queued_request v) (filter (\<lambda>it. \<not> (newOnly \<and> qe_sent it)) q) \<and> next_ok oks'"
  using assms
proof (induction newOnly v True oks q reqs rule: resend_loop.induct)
  case (1 newOnly v oks reqs)
  then show ?case by (cases oks) (auto simp: next_ok_def)
next
  case (2 newOnly v oks it q reqs)
  have oks: "next_ok oks" "\<forall>b \<in> set (tl oks). b" "length (tl oks) = length oks - 1"
    using "2.prems" by (cases oks; simp add: next_ok_def)+
  consider "newOnly" "qe_sent it" | "\<not> (newOnly \<and> qe_sent it)" "Suc (length reqs) = 125"
    | "\<not> (newOnly \<and> qe_sent it)" "Suc (length reqs) \<noteq> 125" by blast
  then show ?case
  proof cases
    case 1
    have "it\<lparr>qe_sent := True\<rparr> = it" using 1(2) by simp
    moreover have "length reqs + length q < 125 * length oks" using "2.prems" by simp
    ultimately show ?thesis using "2.hyps"(1) [OF _ "2.prems"(1) _ "2.prems"(3)] 1 by auto
  next
    case 2
    have "length [] + length q < 125 * length (tl oks)" using "2.prems" 2(2) oks(3) by simp
    from "2.hyps"(2) [OF 2(1) refl refl _ _ oks(2) this] 2 oks(1) show ?thesis
      by (auto simp: MAX_RESEND_BATCH_def Let_def)
  next
    case 3
    have "length (reqs @ [queued_request v it]) + length q < 125 * length oks" "length (reqs @ [queued_request v it]) < 125"
      using "2.prems" 3(2) by auto
    from "2.hyps"(3) [OF 3(1) refl refl _ "2.prems"(1) this] 3 show ?thesis
      by (auto simp: MAX_RESEND_BATCH_def Let_def)
  qed
qed

text \<open>
  C19: Sending in batches of 125 is the same as sending every wanted request of the queue in order: on a connection
  that accepts the data exactly the wanted requests go out, in the order of the queue, and every entry is marked as sent.
\<close>

theorem sendQueuedRequests_complete:
  assumes "conn_fd (current (ul st)) \<noteq> -1" "\<forall>b \<in> set oks. b" "length (queue (ul st)) < 125 * length oks"
  shows "\<exists>i \<in> {img st, set_problem_uplink False (img st)}. sendQueuedRequests newOnly oks st =
    st\<lparr>ul := (ul st)\<lparr>queue := map (qe_sent_update (\<lambda>_. True)) (queue (ul st))\<rparr>, img := i,
       sends := sends st @ map (queued_request (conn_version (current (ul st))))
                  (filter (\<lambda>it. \<not> (newOnly \<and> qe_sent it)) (queue (ul st)))\<rparr>"
proof -
  obtain rest out oks' where r: "resend_loop newOnly (conn_version (current (ul st))) True oks (queue (ul st)) []
      = (map (qe_sent_update (\<lambda>_. True)) (queue (ul st)), rest, out, False, oks')"
    and o: "out @ rest = map (queued_request (conn_version (current (ul st)))) (filter (\<lambda>it. \<not> (newOnly \<and> qe_sent it)) (queue (ul st)))"
    and n: "next_ok oks'"
    using resend_loop_complete [OF assms(2), of "[]" "queue (ul st)" newOnly "conn_version (current (ul st))"] assms(3) by auto
  show ?thesis unfolding o [symmetric] using assms(1) r n by (cases "rest = []") (simp_all add: sendQueuedRequests_def Let_def)
qed

theorem sendQueuedRequests_complete_witness:
  "sends (sendQueuedRequests False [True] sample_uplink) = [queued_request 3 sample_entry]"
proof -
  have q: "queue (ul sample_uplink) = [sample_entry]" "conn_fd (current (ul sample_uplink)) \<noteq> -1"
    "conn_version (current (ul sample_uplink)) = 3" "sends sample_uplink = []" by (simp_all add: sample_uplink_def)
  have pre: "\<forall>b \<in> set [True]. b" "length (queue (ul sample_uplink)) < 125 * length [True]" by (simp_all add: q)
  from sendQueuedRequests_complete [OF q(2) pre, of False]
  obtain i where "sendQueuedRequests False [True] sample_uplink =
    sample_uplink\<lparr>ul := (ul sample_uplink)\<lparr>queue := map (qe_sent_update (\<lambda>_. True)) (queue (ul sample_uplink))\<rparr>, img := i,
       sends := sends sample_uplink @ map (queued_request (conn_version (current (ul sample_uplink))))
                  (filter (\<lambda>it. \<not> (False \<and> qe_sent it)) (queue (ul sample_uplink)))\<rparr>" by blast
  from arg_cong [OF this, of sends] show ?thesis by (simp add: q)
qed

section \<open>The list of checksums\<close>

lemma get_crc32_stream:
  assumes sent: "send_request (request_bytes (mk_request CMD_GET_CRC32 0 0 0)) so = Some (True, out, so')"
    and st: "stream si = reply_bytes q @ to_le 4 master @ bs @ rest" and q: "rp_magic q = dnbd3_packet_magic" "rp_cmd q = CMD_GET_CRC32"
    and sz: "unat (rp_size q) = 4 + length bs" "length bs \<le> n" and ne: "bs \<noteq> []"
  shows "\<exists>si'. dnbd3_get_crc32 n so si = Some (Some (Some master, bs), so', si')"
proof -
  obtain s1 where s1: "dnbd3_get_reply si = Some (Some q, s1)" "stream s1 = to_le 4 master @ bs @ rest"
    using get_reply_stream [OF st q(1)] by blast
  obtain s2 where s2: "sock_recv 4 s1 = Some (4, to_le 4 master, s2)" "stream s2 = bs @ rest"
    using recv_loop_stream [of 4 "[]" s1 0 0] s1(2) by (auto simp: sock_recv_def)
  obtain s3 where s3: "sock_recv (length bs) s2 = Some (int (length bs), bs, s3)"
    using recv_loop_stream [of "length bs" "[]" s2 0 0] s2(2) ne by (auto simp: sock_recv_def)
  have "rp_size q \<noteq> 0" "\<not> rp_size q < 4" "unat (rp_size q - 4) = length bs"
    using sz(1) by (auto simp: word_less_nat_alt unat_sub word_le_nat_alt)
  then show ?thesis using sent s1(1) s2(1) s3 q(2) sz(2) by (simp add: dnbd3_get_crc32_def)
qed

text \<open>
  C20: A list of checksums is taken over exactly when the checksum of the list is the one sent with it; it is then
  stored together with that checksum, however the reply was split up on its way. Otherwise the image is left as it is.
\<close>

theorem crc_list_verified:
  assumes "send_request (request_bytes (mk_request CMD_GET_CRC32 0 0 0)) so = Some (True, out, so')"
    and "stream si = reply_bytes q @ to_le 4 master @ bs @ rest" "rp_magic q = dnbd3_packet_magic" "rp_cmd q = CMD_GET_CRC32"
    and "unat (rp_size q) = 4 + length bs" "bs \<noteq> []" "virtualFilesize (img (us t)) \<noteq> 0"
    and "blocks = nat (IMGSIZE_TO_HASHBLOCKS (virtualFilesize (img (us t))))" "length bs \<le> blocks * 4"
  shows "\<exists>t'. requestCrc32List pclmul align junk so si crcfd wr1 wr2 t = Some t'
    \<and> us t' = (us t)\<lparr>img := (if crc32_spec 0 bs = master
        then (img (us t))\<lparr>masterCrc32 := master, crc32 := Some (le_words blocks (bs @ drop (length bs) junk))\<rparr> else img (us t))\<rparr>"
proof -
  obtain si' where "dnbd3_get_crc32 (blocks * 4) so si = Some (Some (Some master, bs), so', si')"
    using get_crc32_stream [OF assms(1-5) assms(9,6)] by blast
  moreover have "Crc.crc32 pclmul align (Crc.crc32 pclmul 0 0 None) (Some bs) = crc32_spec 0 bs"
    unfolding crc32_eq_spec by (simp add: Crc.crc32_def)
  ultimately show ?thesis using assms(6-8) by (simp add: requestCrc32List_def Let_def)
qed

text \<open>A thread whose uplink has the sample request, connected, no alternative server known.\<close>

definition sample_thread :: uplink_thread where
  "sample_thread =
     \<lparr>us = sample_uplink\<lparr>img := sample_image\<lparr>uplinkref := Some 1\<rparr>,
        ul := (ul sample_uplink)\<lparr>better := \<lparr>conn_fd = -1, conn_version = 0, conn_index = 0\<rparr>\<rparr>\<rparr>,
      alts = altservers_empty, me = 1, altCheckInterval = 5, discoverFailCount = 0,
      nextAltCheck = \<lparr>tv_sec = 100, tv_nsec = 0\<rparr>, lastKeepalive = \<lparr>tv_sec = 50, tv_nsec = 0\<rparr>, closed = [], checksQueued = 0,
      crcFile = None, unlinked = []\<rparr>"

theorem crc_list_verified_witness:
  "\<exists>t'. requestCrc32List False 0 [] [Sent 24]
       [Data (reply_bytes \<lparr>rp_magic = dnbd3_packet_magic, rp_cmd = CMD_GET_CRC32, rp_size = 8, rp_handle = 0\<rparr>
          @ to_le 4 (crc32_spec 0 [1, 0, 0, 0]) @ [1, 0, 0, 0])] (-1) 0 0 sample_thread = Some t'
     \<and> dnbd3_image_t.crc32 (img (us t')) = Some [1]"
proof -
  let ?q = "\<lparr>rp_magic = dnbd3_packet_magic, rp_cmd = CMD_GET_CRC32, rp_size = 8, rp_handle = 0\<rparr>"
  let ?si = "[Data (reply_bytes ?q @ to_le 4 (crc32_spec 0 [1, 0, 0, 0]) @ [1, 0, 0, 0])]"
  have send: "send_request (request_bytes (mk_request CMD_GET_CRC32 0 0 0)) [Sent 24]
      = Some (True, request_bytes (mk_request CMD_GET_CRC32 0 0 0), [])"
    by (simp add: send_request_def sock_sendAll_def send_result_def)
  have st: "stream ?si = reply_bytes ?q @ to_le 4 (crc32_spec 0 [1, 0, 0, 0]) @ [1, 0, 0, 0] @ []"
    by (simp add: stream_Data)
  have "virtualFilesize (img (us sample_thread)) = 40960" by (simp add: sample_thread_def sample_image_def)
  then have bl: "1 = nat (IMGSIZE_TO_HASHBLOCKS (virtualFilesize (img (us sample_thread))))"
    "virtualFilesize (img (us sample_thread)) \<noteq> 0"
    by (simp_all add: IMGSIZE_TO_HASHBLOCKS_def HASH_BLOCK_SIZE_def c_int_def)
  have w: "le_words 1 [1, 0, 0, 0] = [1]" by (simp add: of_le_def)
  show ?thesis
    using crc_list_verified [OF send st _ _ _ _ bl(2) bl(1), of False 0 "[]" "-1" 0 0] w by auto
qed

end
