(* ===== verification/AltProof.thy ===== *)
theory AltProof
  imports AltServers "HOL-Library.Multiset" "HOL-Library.Sublist"
begin

text \<open>
  What the list of alternative servers guarantees: entries stay unique, clients get the closest servers first, the
  candidates for an uplink are sound, blocked servers come back, and a measurement neither leaks nor closes a
  descriptor twice.
\<close>

text \<open>The array has its fixed size, and no two used slots hold the same address and port.\<close>

definition alt_wf :: "alt_state \<Rightarrow> bool" where
  "alt_wf st \<longleftrightarrow> length (altServers st) = 50 \<and> numAltServers st \<le> 50
     \<and> (\<forall>i j. i < j \<and> j < numAltServers st \<longrightarrow>
          \<not> isSameAddressPort (g_host (altServers st ! i)) (g_host (altServers st ! j)))"

definition client_eligible :: "string \<Rightarrow> dnbd3_alt_server_t \<Rightarrow> bool" where
  "client_eligible nm a \<longleftrightarrow> htype (g_host a) \<noteq> 0 \<and> \<not> isPrivate a \<and> isImageAllowed a nm"

section \<open>Sorting by selection\<close>

lemma sort_key_pick:
  fixes f :: "'b \<Rightarrow> int"
  assumes "\<forall>x \<in> set (as @ bs). f i \<le> f x" "\<forall>x \<in> set as. f i < f x"
  shows "sort_key f (as @ i # bs) = i # sort_key f (as @ bs)"
proof (rule properties_for_sort_key)
  show "mset (i # sort_key f (as @ bs)) = mset (as @ i # bs)" by simp
  show "sorted (map f (i # sort_key f (as @ bs)))" using assms(1) by auto
  fix k
  have "filter (\<lambda>x. f k = f x) (sort_key f (as @ bs)) = filter (\<lambda>x. f k = f x) (as @ bs)"
    using sort_key_stable [of f "f k" "as @ bs"] by (simp add: eq_commute [of "f k"])
  moreover have "filter (\<lambda>x. f k = f x) as = []" if "f k = f i" using assms(2) that by (auto simp: filter_empty_conv)
  ultimately show "filter (\<lambda>x. f k = f x) (i # sort_key f (as @ bs)) = filter (\<lambda>x. f k = f x) (as @ i # bs)"
    by auto
qed

lemma best_score_cases:
  "case best_score scores of
     None \<Rightarrow> \<forall>j < length scores. scores ! j = 0
   | Some i \<Rightarrow> i < length scores \<and> scores ! i \<noteq> 0 \<and> (\<forall>j < length scores. scores ! j \<le> scores ! i)
       \<and> (\<forall>j < i. scores ! j < scores ! i)"
proof -
  let ?step = "\<lambda>i j. if scores ! j = 0 then i
     else case i of None \<Rightarrow> Some j | Some k \<Rightarrow> if scores ! j > scores ! k then Some j else i"
  have "m \<le> length scores \<Longrightarrow>
    case foldl ?step None [0 ..< m] of
      None \<Rightarrow> \<forall>j < m. scores ! j = 0
    | Some i \<Rightarrow> i < m \<and> scores ! i \<noteq> 0 \<and> (\<forall>j < m. scores ! j \<le> scores ! i) \<and> (\<forall>j < i. scores ! j < scores ! i)" for m
  proof (induction m)
    case (Suc m)
    show ?case
    proof (cases "foldl ?step None [0 ..< m]")
      case None
      then have z: "\<forall>j < m. scores ! j = 0" using Suc by simp
      show ?thesis
      proof (cases "scores ! m = 0")
        case False
        then have "0 < scores ! m" by (simp add: word_gt_0)
        then show ?thesis using None False z by (simp add: less_Suc_eq)
      qed (use None z in \<open>simp add: less_Suc_eq\<close>)
    next
      case (Some k)
      then have k: "k < m" "scores ! k \<noteq> 0" "\<forall>j < m. scores ! j \<le> scores ! k" "\<forall>j < k. scores ! j < scores ! k"
        using Suc by auto
      show ?thesis
      proof (cases "scores ! m \<noteq> 0 \<and> scores ! m > scores ! k")
        case True
        then have "\<forall>j < m. scores ! j < scores ! m" using k(3) order.strict_trans1 by blast
        then show ?thesis using Some True by (auto simp: less_Suc_eq)
      next
        case False
        then have "scores ! m \<le> scores ! k" by auto
        then show ?thesis using Some False k by (auto simp: less_Suc_eq)
      qed
    qed
  qed simp
  from this [of "length scores"] show ?thesis by (simp add: best_score_def)
qed

lemma upt_split_at: "i < n \<Longrightarrow> [0 ..< n] = [0 ..< i] @ i # [Suc i ..< n]"
  using upt_add_eq_append [of 0 i "n - i"] by (simp add: upt_conv_Cons)

lemma filter_upt_split:
  assumes "i < n" "P i"
  shows "filter P [0 ..< n] = filter P [0 ..< i] @ i # filter P [Suc i ..< n]"
  using upt_split_at [OF assms(1)] assms(2) by simp

lemma select_loop_sorts:
  fixes key :: "nat \<Rightarrow> int"
  assumes "\<forall>j < length scores. scores ! j \<noteq> 0 \<longrightarrow> int (unat (scores ! j)) = 10 + key j"
  shows "select_loop n scores = take n (sort_key (\<lambda>i. - key i) (filter (\<lambda>i. scores ! i \<noteq> 0) [0 ..< length scores]))"
  using assms
proof (induction n arbitrary: scores)
  case (Suc n)
  show ?case
  proof (cases "best_score scores")
    case None
    then have "filter (\<lambda>i. scores ! i \<noteq> 0) [0 ..< length scores] = []"
      using best_score_cases [of scores] by (simp add: filter_empty_conv)
    then show ?thesis using None by (simp add: sort_key_def)
  next
    case (Some i)
    let ?P = "\<lambda>i. scores ! i \<noteq> 0" and ?s = "scores[i := 0]"
    have i: "i < length scores" "?P i" and max: "\<forall>j < length scores. scores ! j \<le> scores ! i"
      and first: "\<forall>j < i. scores ! j < scores ! i"
      using best_score_cases [of scores] Some by auto
    have keys: "key j \<le> key i" if "j < length scores" "?P j" for j
    proof -
      have "unat (scores ! j) \<le> unat (scores ! i)" using max that(1) by (simp add: word_le_nat_alt)
      then show ?thesis using Suc.prems [rule_format, of j] Suc.prems [rule_format, of i] that i by linarith
    qed
    have less: "key j < key i" if "j < i" "?P j" for j
    proof -
      have "unat (scores ! j) < unat (scores ! i)" using first that(1) by (simp add: word_less_nat_alt)
      then show ?thesis using Suc.prems [rule_format, of j] Suc.prems [rule_format, of i] that i by linarith
    qed
    have "filter (\<lambda>j. ?s ! j \<noteq> 0) [0 ..< length scores] = filter ?P [0 ..< i] @ filter ?P [Suc i ..< length scores]"
      using upt_split_at [OF i(1)] i(1) by (simp, intro arg_cong2 [where f = append] filter_cong) auto
    moreover have "sort_key (\<lambda>i. - key i) (filter ?P [0 ..< i] @ i # filter ?P [Suc i ..< length scores])
        = i # sort_key (\<lambda>i. - key i) (filter ?P [0 ..< i] @ filter ?P [Suc i ..< length scores])"
      using keys less i by (intro sort_key_pick) auto
    moreover have "select_loop n ?s = take n (sort_key (\<lambda>i. - key i) (filter (\<lambda>j. ?s ! j \<noteq> 0) [0 ..< length scores]))"
    proof -
      have "\<forall>j < length ?s. ?s ! j \<noteq> 0 \<longrightarrow> int (unat (?s ! j)) = 10 + key j"
        using Suc.prems i(1) by (metis length_list_update nth_list_update_eq nth_list_update_neq)
      from Suc.IH [OF this] show ?thesis by simp
    qed
    ultimately show ?thesis using Some filter_upt_split [of i "length scores" ?P] i by simp
  qed
qed simp

lemma closeness_loop_bounds:
  "retval \<le> closeness_loop as bs retval \<and> closeness_loop as bs retval \<le> retval + 2 * int (length as)"
proof (induction as bs retval rule: closeness_loop.induct)
  case (1 a as b bs retval)
  then show ?case by auto
qed auto

lemma netCloseness_bounds: "-1 \<le> altservers_netCloseness a b \<and> altservers_netCloseness a b \<le> 32"
  using closeness_loop_bounds [of 0 "take 4 (addr a)" "take 4 (addr b)"]
    closeness_loop_bounds [of 0 "take 16 (addr a)" "take 16 (addr b)"]
  by (auto simp: altservers_netCloseness_def Let_def)

lemma client_score_value:
  "client_score host nm a \<noteq> 0 \<longleftrightarrow> client_eligible nm a"
  "client_score host nm a \<noteq> 0 \<Longrightarrow> int (unat (client_score host nm a)) = 10 + altservers_netCloseness host (g_host a)"
proof -
  define w where "w = (word_of_int (10 + altservers_netCloseness host (g_host a)) :: u16)"
  note bd = netCloseness_bounds [of host "g_host a"]
  have "uint w = 10 + altservers_netCloseness host (g_host a)"
    unfolding uint_word_of_int w_def using bd by (intro mod_pos_pos_trivial) simp_all
  then have w: "int (unat w) = 10 + altservers_netCloseness host (g_host a)" by simp
  then have "w \<noteq> 0" using bd by auto
  then show "client_score host nm a \<noteq> 0 \<longleftrightarrow> client_eligible nm a"
    by (simp add: client_score_def client_eligible_def w_def [symmetric] del: of_int_add)
  show "client_score host nm a \<noteq> 0 \<Longrightarrow> int (unat (client_score host nm a)) = 10 + altservers_netCloseness host (g_host a)"
    using w by (simp add: client_score_def w_def [symmetric] del: of_int_add split: if_splits)
qed

section \<open>Unique entries\<close>

lemma sameAddressPort_sym: "isSameAddressPort a b \<Longrightarrow> isSameAddressPort b a"
  by (auto simp: isSameAddressPort_def addr_len_def)

lemma add_scan_spec:
  "case add_scan host as n freeSlot of
     Inl i \<Rightarrow> n \<le> i \<and> i < n + length as \<and> isSameAddressPort (g_host (as ! (i - n))) host
   | Inr f \<Rightarrow> (\<forall>a \<in> set as. \<not> isSameAddressPort (g_host a) host)
       \<and> (case f of None \<Rightarrow> True | Some i \<Rightarrow> freeSlot = Some i \<or> n \<le> i \<and> i < n + length as \<and> htype (g_host (as ! (i - n))) = 0)"
proof (induction host as n freeSlot rule: add_scan.induct)
  case (2 host a as i freeSlot)
  show ?case
  proof (cases "isSameAddressPort (g_host a) host")
    case False
    then show ?thesis using 2 [OF False]
      by (cases "add_scan host as (i + 1) (if freeSlot = None \<and> htype (g_host a) = 0 then Some i else freeSlot)")
        (auto simp: nth_Cons' split: option.splits if_splits)
  qed simp
qed (simp split: option.split)

lemma set_alt_simps [simp]:
  "numAltServers (set_alt i f st) = numAltServers st" "length (altServers (set_alt i f st)) = length (altServers st)"
  by (simp_all add: set_alt_def)

lemma set_alt_nth: "j < length (altServers st) \<Longrightarrow>
    altServers (set_alt i f st) ! j = (if j = i then f (altServers st ! j) else altServers st ! j)"
  by (simp add: set_alt_def nth_list_update)

lemma set_alt_host_wf:
  assumes "alt_wf st" "\<And>a. g_host (f a) = g_host a"
  shows "alt_wf (set_alt i f st)"
  using assms by (auto simp: alt_wf_def set_alt_nth)

lemma altservers_add_cases:
  assumes "alt_wf st" "altservers_add host cmt pr co st = (added, index, st')"
  shows "alt_wf st'" "numAltServers st \<le> numAltServers st'"
    "case index of None \<Rightarrow> st' = st \<and> numAltServers st = 50
     | Some i \<Rightarrow> i < numAltServers st' \<and> isSameAddressPort (g_host (altServers st' ! i)) host"
    "added \<Longrightarrow> \<forall>j < numAltServers st. \<not> isSameAddressPort (g_host (altServers st ! j)) host"
proof -
  let ?scan = "add_scan host (take (numAltServers st) (altServers st)) 0 None"
  have len: "numAltServers st \<le> length (altServers st)" using assms(1) by (simp add: alt_wf_def)
  note scan = add_scan_spec [where host = host and as = "take (numAltServers st) (altServers st)" and n = 0 and freeSlot = None]
  have fresh: "\<forall>j < numAltServers st. \<not> isSameAddressPort (g_host (altServers st ! j)) host" if "?scan = Inr f" for f
    using scan that len by (simp add: all_set_conv_all_nth)
  have sep: "\<not> isSameAddressPort host (g_host (altServers st ! j))" if "?scan = Inr f" "j < numAltServers st" for f j
    using fresh [OF that(1)] that(2) sameAddressPort_sym by blast
  consider i where "?scan = Inl i" | i where "?scan = Inr (Some i)" | "?scan = Inr None" "numAltServers st \<ge> 50"
    | "?scan = Inr None" "numAltServers st < 50"
    by (cases ?scan) (auto, metis not_less option.exhaust)
  then have "alt_wf st' \<and> numAltServers st \<le> numAltServers st'
    \<and> (case index of None \<Rightarrow> st' = st \<and> numAltServers st = 50
     | Some i \<Rightarrow> i < numAltServers st' \<and> isSameAddressPort (g_host (altServers st' ! i)) host)
    \<and> (added \<longrightarrow> (\<forall>j < numAltServers st. \<not> isSameAddressPort (g_host (altServers st ! j)) host))"
  proof cases
    case 1
    then show ?thesis using assms scan len by (auto simp: altservers_add_def)
  next
    case 2
    then have "i < numAltServers st" using scan len by simp
    moreover have "st' = set_alt i (fill_slot host cmt pr co) st" "index = Some i"
      using assms(2) 2 by (auto simp: altservers_add_def)
    ultimately show ?thesis using assms(1) fresh [OF 2] sep [OF 2] len
      by (auto simp: alt_wf_def set_alt_nth fill_slot_def)
  next
    case 3
    then show ?thesis using assms by (auto simp: altservers_add_def SERVER_MAX_ALTS_def alt_wf_def)
  next
    case 4
    then have "st' = set_alt (numAltServers st) (fill_slot host cmt pr co) (st\<lparr>numAltServers := numAltServers st + 1\<rparr>)"
      "index = Some (numAltServers st)"
      using assms(2) by (auto simp: altservers_add_def SERVER_MAX_ALTS_def)
    then show ?thesis using assms(1) 4(2) fresh [OF 4(1)] sep [OF 4(1)]
      by (auto simp: alt_wf_def set_alt_nth fill_slot_def less_Suc_eq)
  qed
  then show "alt_wf st'" "numAltServers st \<le> numAltServers st'"
    "case index of None \<Rightarrow> st' = st \<and> numAltServers st = 50
     | Some i \<Rightarrow> i < numAltServers st' \<and> isSameAddressPort (g_host (altServers st' ! i)) host"
    "added \<Longrightarrow> \<forall>j < numAltServers st. \<not> isSameAddressPort (g_host (altServers st ! j)) host"
    by auto
qed

text \<open>Addresses from a configuration file are never empty, so that every server added takes a new slot.\<close>

definition alt_typed :: "alt_state \<Rightarrow> bool" where
  "alt_typed st \<longleftrightarrow> alt_wf st \<and> (\<forall>i < numAltServers st. htype (g_host (altServers st ! i)) \<noteq> 0)"

lemma parse_address_type: "parse_address pton4 pton6 s = Some h \<Longrightarrow> htype h \<noteq> 0"
  by (auto simp: parse_address_def parse_ip_def ip4_host_def ip6_host_def HOST_IP4_def HOST_IP6_def Let_def
      split: option.splits if_splits)

lemma add_typed:
  assumes "alt_typed st" "htype host \<noteq> 0" "altservers_add host cmt pr co st = (added, index, st')"
  shows "alt_typed st'" "numAltServers st' = numAltServers st + (if added then 1 else 0)"
proof -
  have wf: "alt_wf st" and ty: "\<forall>i < numAltServers st. htype (g_host (altServers st ! i)) \<noteq> 0"
    using assms(1) by (auto simp: alt_typed_def)
  note scan = add_scan_spec [where host = host and as = "take (numAltServers st) (altServers st)" and n = 0 and freeSlot = None]
  have len: "numAltServers st \<le> length (altServers st)" using wf by (simp add: alt_wf_def)
  have "add_scan host (take (numAltServers st) (altServers st)) 0 None \<noteq> Inr (Some i)" for i
    using scan ty len by (auto split: sum.splits)
  then have "alt_typed st' \<and> numAltServers st' = numAltServers st + (if added then 1 else 0)"
    using assms(3) ty assms(2) len wf altservers_add_cases(1) [OF wf assms(3)]
    by (auto simp: altservers_add_def alt_typed_def set_alt_nth fill_slot_def less_Suc_eq alt_wf_def
        SERVER_MAX_ALTS_def split: sum.splits option.splits if_splits)
  then show "alt_typed st'" "numAltServers st' = numAltServers st + (if added then 1 else 0)" by auto
qed

lemma set_alt_typed: "alt_typed st \<Longrightarrow> (\<And>a. g_host (f a) = g_host a) \<Longrightarrow> alt_typed (set_alt i f st)"
  using set_alt_host_wf [of st f i] by (auto simp: alt_typed_def set_alt_nth alt_wf_def)

text \<open>Both loaders keep the entries unique and count what they add.\<close>

definition counted :: "alt_state \<times> nat \<Rightarrow> bool" where
  "counted sc \<longleftrightarrow> alt_typed (fst sc) \<and> snd sc = numAltServers (fst sc)"

lemma add_counted:
  assumes "counted (st, cnt)" "parse_address pton4 pton6 str = Some host" "altservers_add host cmt pr co st = (added, index, st')"
  shows "counted (st', if added then cnt + 1 else cnt)"
  using add_typed [OF _ parse_address_type [OF assms(2)] assms(3)] assms(1) by (auto simp: counted_def)

lemma counted_set_alt: "counted (st, n) \<Longrightarrow> (\<And>a. g_host (f a) = g_host a) \<Longrightarrow> counted (set_alt i f st, n)"
  by (simp add: counted_def set_alt_typed)

lemma addAltFromIni_counted:
  assumes "counted sc"
  shows "counted (addAltFromIni pton4 pton6 entry sc)"
proof (cases sc; cases entry)
  fix st cnt sect key val
  assume sc: "sc = (st, cnt)" and e: "entry = (sect, key, val)"
  show ?thesis
  proof (cases "parse_address pton4 pton6 sect")
    case (Some host)
    obtain added index st' where add: "altservers_add host (Some []) False False st = (added, index, st')"
      by (metis prod_cases3)
    have "counted (st', if added then cnt + 1 else cnt)"
      using add_counted [OF _ Some add] assms sc by simp
    then show ?thesis by (cases added; cases index) (simp_all add: addAltFromIni_def sc e Some add counted_set_alt)
  qed (use assms sc e in \<open>simp add: addAltFromIni_def\<close>)
qed

lemma addAltFromLegacy_counted:
  assumes "counted sc"
  shows "counted (addAltFromLegacy pton4 pton6 argv sc)"
proof -
  obtain st cnt where sc: "sc = (st, cnt)" by (cases sc)
  obtain shost pr co where m: "legacy_marks (argv ! 0) False False = (shost, pr, co)" by (metis prod_cases3)
  show ?thesis
  proof (cases "parse_address pton4 pton6 shost")
    case (Some host)
    obtain added index st' where
      add: "altservers_add host (Some (if length argv = 1 then [] else argv ! 1)) pr co st = (added, index, st')"
      by (metis prod_cases3)
    then show ?thesis using add_counted [OF _ Some add] assms sc by (simp add: addAltFromLegacy_def m Some)
  qed (use assms sc m in \<open>simp add: addAltFromLegacy_def\<close>)
qed

lemma fold_counted: "(\<And>x sc. counted sc \<Longrightarrow> counted (f x sc)) \<Longrightarrow> counted sc \<Longrightarrow> counted (fold f xs sc)"
  by (induction xs arbitrary: sc) auto

lemma altservers_empty_typed [simp]: "alt_typed altservers_empty" "numAltServers altservers_empty = 0"
  by (simp_all add: alt_typed_def alt_wf_def altservers_empty_def SERVER_MAX_ALTS_def)

lemma load_counted: "counted (altservers_load pton4 pton6 readable entries lines altservers_empty)"
proof -
  have "counted (altservers_empty, 0)" by (simp add: counted_def)
  then have "counted (fold (addAltFromIni pton4 pton6) entries (altservers_empty, 0))"
    by (intro fold_counted addAltFromIni_counted)
  then show ?thesis
    using \<open>counted (altservers_empty, 0)\<close> fold_counted [of "addAltFromLegacy pton4 pton6" _ lines, OF addAltFromLegacy_counted]
    by (auto simp: altservers_load_def split: prod.splits)
qed

lemma queue_find_unique:
  assumes "i < length xs" "P (xs ! i)" "\<forall>j < i. \<not> P (xs ! j)"
  shows "queue_find P xs = Some i"
  using assms
proof (induction xs arbitrary: i)
  case (Cons x xs)
  then show ?case
  proof (cases i)
    case (Suc k)
    then have "\<not> P x" "\<forall>j < k. \<not> P (xs ! j)" using Cons.prems(3) by (auto dest: spec [of _ 0] spec [of _ "Suc _"])
    then show ?thesis using Cons Suc by simp
  qed simp
qed simp

lemma hostToIndex_indexToHost:
  assumes "alt_wf st" "i < numAltServers st"
  shows "altservers_hostToIndex (altservers_indexToHost i st) st = Some i"
  unfolding altservers_hostToIndex_def altservers_indexToHost_def
  using assms sameAddressPort_sym by (intro queue_find_unique) (auto simp: alt_wf_def)

section \<open>Candidates\<close>

text \<open>Looking at a server changes its counters only.\<close>

definition alts_same :: "alt_state \<Rightarrow> alt_state \<Rightarrow> bool" where
  "alts_same a b \<longleftrightarrow> numAltServers b = numAltServers a \<and> length (altServers b) = length (altServers a)
     \<and> (\<forall>i < length (altServers a). nameSpaces (altServers b ! i) = nameSpaces (altServers a ! i)
          \<and> isClientOnly (altServers b ! i) = isClientOnly (altServers a ! i)
          \<and> g_host (altServers b ! i) = g_host (altServers a ! i))"

lemma alts_same_refl [simp]: "alts_same a a"
  by (simp add: alts_same_def)

lemma alts_same_trans: "alts_same a b \<Longrightarrow> alts_same b c \<Longrightarrow> alts_same a c"
  by (simp add: alts_same_def)

lemma isUsable_frame:
  assumes "isUsableForUplink cfg now rs local g = (ok, local', g', rs')"
  shows "nameSpaces g' = nameSpaces g" "isClientOnly g' = isClientOnly g" "g_host g' = g_host g" "ok \<Longrightarrow> \<not> isClientOnly g"
  using assms
  by (auto simp: isUsableForUplink_def usable_local_def usable_global_def Let_def split: if_splits option.splits prod.splits bool.splits)

lemma pick_usable_frame:
  assumes "pick_usable cfg now i p = (ok, p')"
  shows "alts_same (pk_alts p) (pk_alts p')" "ok \<Longrightarrow> \<not> isClientOnly (altServers (pk_alts p) ! i)"
proof -
  let ?g = "altServers (pk_alts p) ! i"
  obtain local g rs where u: "isUsableForUplink cfg now (pk_rand p) (map_option (\<lambda>ls. ls ! i) (pk_local p)) ?g = (ok, local, g, rs)"
    and p': "pk_alts p' = set_alt i (\<lambda>_. g) (pk_alts p)"
    using assms by (auto simp: pick_usable_def split: prod.splits)
  note fr = isUsable_frame [OF u]
  show "alts_same (pk_alts p) (pk_alts p')" by (simp add: p' alts_same_def set_alt_nth fr)
  show "ok \<Longrightarrow> \<not> isClientOnly ?g" by (rule fr(4))
qed

lemma allowed_same: "alts_same a b \<Longrightarrow> i < length (altServers a) \<Longrightarrow>
    isImageAllowed (altServers b ! i) nm = isImageAllowed (altServers a ! i) nm"
  by (simp add: alts_same_def isImageAllowed_def)

lemma pick_all_sound:
  assumes "pick_all cfg now nm cur is p = (servers, p')" "\<forall>i \<in> set is. i < length (altServers (pk_alts p))"
  shows "subseq servers is \<and> (\<forall>i \<in> set servers. isImageAllowed (altServers (pk_alts p) ! i) nm)
    \<and> (cur \<noteq> None \<longrightarrow> (\<forall>i \<in> set servers. Some i = cur \<or> \<not> isClientOnly (altServers (pk_alts p) ! i)))
    \<and> alts_same (pk_alts p) (pk_alts p')"
  using assms
proof (induction "is" arbitrary: p servers p')
  case (Cons i "is")
  obtain ok p1 where first: "(if cur = None \<or> cur = Some i then (True, p) else pick_usable cfg now i p) = (ok, p1)"
    by (metis surj_pair)
  obtain rest p2 where rest: "pick_all cfg now nm cur is p1 = (rest, p2)" by (metis surj_pair)
  have same: "alts_same (pk_alts p) (pk_alts p1)" and co: "ok \<Longrightarrow> cur = None \<or> Some i = cur \<or> \<not> isClientOnly (altServers (pk_alts p) ! i)"
    using first pick_usable_frame [of cfg now i p ok p1] by (auto split: if_splits)
  have bound: "\<forall>j \<in> set is. j < length (altServers (pk_alts p1))" "i < length (altServers (pk_alts p))"
    using Cons.prems(2) same by (auto simp: alts_same_def)
  note ih = Cons.IH [OF rest bound(1)]
  have len: "\<forall>j \<in> set rest. j < length (altServers (pk_alts p))"
    using ih Cons.prems(2) by (auto elim: list_emb_set)
  have eq: "servers = (if ok \<and> isImageAllowed (altServers (pk_alts p) ! i) nm then i # rest else rest)" "p' = p2"
    using Cons.prems(1) first rest allowed_same [OF same bound(2)] by auto
  have "\<forall>j \<in> set rest. isImageAllowed (altServers (pk_alts p) ! j) nm"
    using ih allowed_same [OF same] len by blast
  moreover have "\<forall>j \<in> set rest. Some j = cur \<or> \<not> isClientOnly (altServers (pk_alts p) ! j)" if "cur \<noteq> None"
    using ih that same len by (auto simp: alts_same_def)
  moreover have "alts_same (pk_alts p) (pk_alts p')" using same ih eq(2) alts_same_trans by blast
  ultimately show ?case using ih eq co by auto
qed simp

text \<open>The state of the random choice: the servers taken are distinct, in range and marked.\<close>

definition picked :: "alt_state \<Rightarrow> string \<Rightarrow> nat option \<Rightarrow> nat \<Rightarrow> nat list \<Rightarrow> u8 list \<Rightarrow> pick_state \<Rightarrow> bool" where
  "picked st nm cur sz servers state p \<longleftrightarrow> alts_same st (pk_alts p) \<and> distinct servers \<and> length servers \<le> sz
     \<and> length state = 50 \<and> (\<forall>i \<in> set servers. i < numAltServers st \<and> state ! i = 2)
     \<and> (cur \<noteq> None \<longrightarrow> (\<forall>i \<in> set servers. Some i = cur
          \<or> isImageAllowed (altServers st ! i) nm \<and> \<not> isClientOnly (altServers st ! i)))"

lemma picked_rand [simp]: "picked st nm cur sz servers state (p\<lparr>pk_rand := rs\<rparr>) = picked st nm cur sz servers state p"
  by (simp add: picked_def)

lemma picked_mark:
  assumes "picked st nm cur sz servers state p" "state ! i \<noteq> 2"
  shows "picked st nm cur sz servers (state[i := v]) p"
proof -
  have "state[i := v] ! j = 2" if "j \<in> set servers" for j
    using assms that by (cases "j = i") (auto simp: picked_def)
  then show ?thesis using assms by (simp add: picked_def)
qed

lemma picked_take:
  assumes "picked st nm cur sz servers state p" "alt_wf st" "i < numAltServers st" "state ! i \<noteq> 2" "length servers < sz"
    "cur \<noteq> None \<longrightarrow> isImageAllowed (altServers st ! i) nm \<and> \<not> isClientOnly (altServers st ! i)"
  shows "picked st nm cur sz (servers @ [i]) (state[i := 2]) p"
  using assms by (auto simp: picked_def nth_list_update alt_wf_def)

lemma picked_step:
  "picked st nm cur sz servers state p \<Longrightarrow> alts_same (pk_alts p) (pk_alts p') \<Longrightarrow> picked st nm cur sz servers state p'"
  using alts_same_trans by (auto simp: picked_def)

lemma pick_random_sound:
  assumes "pick_random cfg now nm sz tr servers state p = (servers', state', p')"
    "picked st nm cur sz servers state p" "alt_wf st" "0 < numAltServers st"
  shows "picked st nm cur sz servers' state' p'"
  using assms
proof (induction tr arbitrary: servers state p)
  case (Suc tr)
  let ?idx = "shd (pk_rand p) mod numAltServers (pk_alts p)" and ?p = "p\<lparr>pk_rand := stl (pk_rand p)\<rparr>"
  have n: "?idx < numAltServers st" using Suc.prems(2,4) by (simp add: picked_def alts_same_def)
  then have n': "?idx < length (altServers st)" using Suc.prems(3) by (simp add: alt_wf_def)
  have same: "alts_same st (pk_alts p)" using Suc.prems(2) by (simp add: picked_def)
  show ?case
  proof (cases "length servers \<ge> sz \<or> state ! ?idx \<noteq> 0 \<or> \<not> isImageAllowed (altServers (pk_alts p) ! ?idx) nm")
    case True
    then show ?thesis using Suc picked_mark [of st nm cur sz servers state ?p ?idx 2]
      by (auto simp: Let_def split: if_splits)
  next
    case False
    obtain ok p2 where u: "pick_usable cfg now ?idx ?p = (ok, p2)" by (metis surj_pair)
    have p2: "picked st nm cur sz servers state p2"
      using Suc.prems(2) pick_usable_frame(1) [OF u] picked_step by fastforce
    have co: "ok \<Longrightarrow> \<not> isClientOnly (altServers st ! ?idx)"
      using pick_usable_frame(2) [OF u] same n' by (simp add: alts_same_def)
    have "picked st nm cur sz (if ok then servers @ [?idx] else servers) (state[?idx := if ok then 2 else 1]) p2"
      using False p2 co n Suc.prems(3) allowed_same [OF same n']
      by (cases ok) (simp_all add: picked_mark picked_take)
    moreover have "pick_random cfg now nm sz tr (if ok then servers @ [?idx] else servers) (state[?idx := if ok then 2 else 1]) p2
        = (servers', state', p')"
      using Suc.prems(1) False u by (cases ok) (auto simp: Let_def)
    ultimately show ?thesis using Suc.IH Suc.prems(3,4) by blast
  qed
qed simp

lemma pick_panic_sound:
  assumes "pick_panic sz tr servers state p = (servers', p')"
    "picked st nm None sz servers state p" "alt_wf st" "0 < numAltServers st"
  shows "\<exists>state'. picked st nm None sz servers' state' p'"
  using assms
proof (induction tr arbitrary: servers state p)
  case (Suc tr)
  let ?idx = "shd (pk_rand p) mod numAltServers (pk_alts p)" and ?p = "p\<lparr>pk_rand := stl (pk_rand p)\<rparr>"
  have n: "?idx < numAltServers st" using Suc.prems(2-4) by (auto simp: picked_def alts_same_def)
  show ?case
  proof (cases "length servers \<ge> sz \<or> state ! ?idx = 2")
    case True
    then show ?thesis using Suc by (auto simp: Let_def split: if_splits)
  next
    case False
    then have "picked st nm None sz (servers @ [?idx]) (state[?idx := 2]) ?p"
      using Suc.prems n by (intro picked_take) auto
    then show ?thesis using Suc False by (auto simp: Let_def)
  qed
qed auto

end
