(* ===== verification/AltCheck.thy ===== *)
theory AltCheck
  imports AltProof Replication
begin

text \<open>
  The measurement that looks for a better uplink server, and the properties of the list of alternative servers.
\<close>

text \<open>Descriptors of the connections that were opened, and of the best connection kept open.\<close>

definition opened :: "(nat \<times> probe_env) list \<Rightarrow> int list" where
  "opened ses = filter (\<lambda>fd. fd \<noteq> -1) (map (\<lambda>se. pe_sock (snd se)) ses)"

definition kept :: "check_state \<Rightarrow> int list" where
  "kept c = (if conn_fd (ck_best c) = -1 then [] else [conn_fd (ck_best c)])"

text \<open>What a measured server has offered.\<close>

definition offers_image :: "dnbd3_image_t \<Rightarrow> select_reply \<Rightarrow> bool" where
  "offers_image i sr \<longleftrightarrow> sr_name sr = Some (cstr_bytes (name i)) \<and> sr_rid sr = rid i \<and> sr_size sr = virtualFilesize i
     \<and> sr_version sr \<ge> MIN_SUPPORTED_SERVER"

text \<open>The servers a measurement connects to: none when it does not start, when there is nothing to compare or the image is gone.\<close>

definition run_servers :: "config \<Rightarrow> ticks \<Rightarrow> nat stream \<Rightarrow> bool \<Rightarrow> dnbd3_image_t \<Rightarrow> dnbd3_uplink_t \<Rightarrow> alt_state \<Rightarrow> nat list" where
  "run_servers cfg now rs imageThere i u st =
     (let panic = (conn_fd (current u) = -1);
          servers = fst (altservers_getListForUplink cfg now (name i) 4
             (if panic then None else Some (nat (conn_index (current u))))
             \<lparr>pk_alts = st, pk_local = Some (altData u), pk_rand = rs\<rparr>)
      in if servers = [] \<or> length servers = 1 \<and> \<not> panic \<or> \<not> imageThere then [] else servers)"

definition probed :: "config \<Rightarrow> bool \<Rightarrow> ticks \<Rightarrow> nat stream \<Rightarrow> bool \<Rightarrow> dnbd3_image_t \<Rightarrow> dnbd3_uplink_t \<Rightarrow> alt_state \<Rightarrow> nat list" where
  "probed cfg globalShutdown now rs imageThere i u st =
     (if globalShutdown \<or> rttTestResult u = RTT_INPROGRESS then [] else run_servers cfg now rs imageThere i u st)"

text \<open>
  A look at a server: what \<^verbatim>\<open>isUsableForUplink\<close> leaves of the entry the uplink keeps for it and of the global entry. How
  many looks a blocked entry still needs, and what it is after them.
\<close>

type_synonym server_entries = "dnbd3_alt_local_t option \<times> dnbd3_alt_server_t"

definition look_at :: "config \<Rightarrow> ticks \<times> nat stream \<Rightarrow> server_entries \<Rightarrow> server_entries" where
  "look_at cfg look entries =
     (case isUsableForUplink cfg (fst look) (snd look) (fst entries) (snd entries) of (_, local, g, _) \<Rightarrow> (local, g))"

definition looks_needed :: "server_entries \<Rightarrow> nat" where
  "looks_needed entries =
     (case fst entries of None \<Rightarrow> 0 | Some l \<Rightarrow> if l_blocked l then nat (l_fails l) else 0)
     + (if g_blocked (snd entries) then nat (g_fails (snd entries)) else 0)"

definition local_freed :: "dnbd3_alt_local_t \<Rightarrow> dnbd3_alt_local_t" where
  "local_freed l = (if l_blocked l then l\<lparr>l_fails := 0, l_blocked := False\<rparr> else l)"

text \<open>An entry is only blocked while its counter is positive.\<close>

definition block_counted :: "server_entries \<Rightarrow> bool" where
  "block_counted entries \<longleftrightarrow> (\<forall>l. fst entries = Some l \<and> l_blocked l \<longrightarrow> 0 < l_fails l)
     \<and> (g_blocked (snd entries) \<longrightarrow> 0 < g_fails (snd entries))"

section \<open>Measuring\<close>

lemma probe_sock: "probe_server cfg i off len e = Some r \<Longrightarrow> r = Connect_failed \<longleftrightarrow> pe_sock e = -1"
  by (auto simp: probe_server_def check_offer_def probe_block_def split: if_splits option.splits prod.splits bool.splits)

lemma probe_measured:
  assumes "probe_server cfg i off len e = Some (Measured v rtt)"
  shows "\<exists>sr si. dnbd3_select_image_reply (pe_beyond e) (pe_buffer e) (pe_in e) = Some (Some sr, si)
     \<and> offers_image i sr \<and> sr_version sr = v"
  using assms
  by (fastforce simp: probe_server_def probe_block_def check_offer_def offers_image_def
      split: if_splits option.splits prod.splits bool.splits)

lemma updateRtt_frame:
  assumes "altservers_updateRtt index rtt u st = (avg, u', st')"
  shows "better u' = better u" "current u' = current u" "rttTestResult u' = rttTestResult u"
  using assms by (auto simp: altservers_updateRtt_def Let_def split: if_splits prod.splits)

lemma kept_update [simp]:
  "kept (c\<lparr>ck_ul := u\<rparr>) = kept c" "kept (c\<lparr>ck_alts := st\<rparr>) = kept c" "kept (c\<lparr>ck_closed := fds\<rparr>) = kept c"
  by (simp_all add: kept_def)

lemma measured_kept:
  assumes "sock \<noteq> -1"
  shows "mset (ck_closed (measured panic server sock v rtt c)) + mset (kept (measured panic server sock v rtt c))
    = mset (ck_closed c) + mset (kept c) + {#sock#}"
  using assms by (auto simp: measured_def kept_def Let_def split: prod.split)

definition check_frame :: "check_state \<Rightarrow> check_state \<Rightarrow> bool" where
  "check_frame c c' \<longleftrightarrow> better (ck_ul c') = better (ck_ul c) \<and> current (ck_ul c') = current (ck_ul c)
     \<and> rttTestResult (ck_ul c') = rttTestResult (ck_ul c)"

lemma measured_frame: "check_frame c (measured panic server sock v rtt c)"
proof -
  obtain avg u st where eq: "altservers_updateRtt server rtt (ck_ul c) (ck_alts c) = (avg, u, st)" by (metis prod_cases3)
  show ?thesis by (simp add: check_frame_def measured_def eq Let_def updateRtt_frame [OF eq])
qed

lemma measured_best:
  "ck_best (measured panic server sock v rtt c) = ck_best c
   \<or> ck_best (measured panic server sock v rtt c) = \<lparr>conn_fd = sock, conn_version = uint v, conn_index = int server\<rparr>"
  by (auto simp: measured_def Let_def split: prod.split)

lemma check_server_sound:
  assumes "check_server cfg i panic off len server e c = Some c'"
  shows "mset (ck_closed c') + mset (kept c') = mset (ck_closed c) + mset (kept c) + mset (opened [(server, e)])"
    "check_frame c c'"
    "ck_best c' = ck_best c \<or> (\<exists>v rtt. probe_server cfg i off len e = Some (Measured v rtt)
       \<and> ck_best c' = \<lparr>conn_fd = pe_sock e, conn_version = uint v, conn_index = int server\<rparr>)"
proof -
  obtain r where r: "probe_server cfg i off len e = Some r"
    using assms by (auto simp: check_server_def split: option.splits)
  note sock = probe_sock [OF r]
  show "mset (ck_closed c') + mset (kept c') = mset (ck_closed c) + mset (kept c) + mset (opened [(server, e)])"
    using assms r sock measured_kept [of "pe_sock e"]
    by (cases r) (auto simp: check_server_def opened_def)
  show "check_frame c c'"
    using assms r measured_frame by (cases r) (auto simp: check_server_def check_frame_def altservers_imageFailed_def)
  show "ck_best c' = ck_best c \<or> (\<exists>v rtt. probe_server cfg i off len e = Some (Measured v rtt)
       \<and> ck_best c' = \<lparr>conn_fd = pe_sock e, conn_version = uint v, conn_index = int server\<rparr>)"
  proof (cases r)
    case (Measured v rtt)
    then have "c' = measured panic server (pe_sock e) v rtt c" using assms r by (simp add: check_server_def)
    then show ?thesis using measured_best [of panic server "pe_sock e" v rtt c] r Measured by metis
  qed (use assms r in \<open>auto simp: check_server_def\<close>)
qed

lemma check_servers_sound:
  assumes "check_servers cfg i panic off len ses c = Some c'"
  shows "mset (ck_closed c') + mset (kept c') = mset (ck_closed c) + mset (kept c) + mset (opened ses)
    \<and> check_frame c c'
    \<and> (ck_best c' = ck_best c \<or> (\<exists>(server, e) \<in> set ses. \<exists>v rtt. probe_server cfg i off len e = Some (Measured v rtt)
       \<and> ck_best c' = \<lparr>conn_fd = pe_sock e, conn_version = uint v, conn_index = int server\<rparr>))"
  using assms
proof (induction ses arbitrary: c)
  case Nil
  then show ?case by (simp add: opened_def check_frame_def)
next
  case (Cons se ses)
  obtain server e where se: "se = (server, e)" by (cases se)
  obtain c1 where one: "check_server cfg i panic off len server e c = Some c1"
    and rest: "check_servers cfg i panic off len ses c1 = Some c'"
    using Cons.prems se by (auto split: option.splits)
  have "opened (se # ses) = opened [(server, e)] @ opened ses" by (simp add: opened_def se)
  then have "mset (ck_closed c') + mset (kept c') = mset (ck_closed c) + mset (kept c) + mset (opened (se # ses))"
    using check_server_sound(1) [OF one] Cons.IH [OF rest] by simp
  moreover have "check_frame c c'" using check_server_sound(2) [OF one] Cons.IH [OF rest] by (simp add: check_frame_def)
  moreover have "ck_best c' = ck_best c \<or> (\<exists>(server, e) \<in> set (se # ses). \<exists>v rtt. probe_server cfg i off len e = Some (Measured v rtt)
       \<and> ck_best c' = \<lparr>conn_fd = pe_sock e, conn_version = uint v, conn_index = int server\<rparr>)"
    using check_server_sound(3) [OF one] Cons.IH [OF rest] unfolding se by (cases "ck_best c' = ck_best c1") auto
  ultimately show ?case by blast
qed

lemma check_run_cases:
  assumes "check_run cfg now rs there envs i u st = Some (u', st', closed, sig)"
  obtains "current u' = current u" "better u' = better u" "rttTestResult u' \<in> {RTT_DONTCHANGE, RTT_NOT_REACHABLE}"
      "closed = []" "\<not> sig" "run_servers cfg now rs there i u st = []"
  | off len servers c0 c where "current (ck_ul c0) = current u" "better (ck_ul c0) = better u" "ck_closed c0 = []" "kept c0 = []"
      "check_servers cfg i (conn_fd (current u) = -1) off len (map (\<lambda>s. (s, envs s)) servers) c0 = Some c"
      "check_finish (conn_fd (current u) = -1) c = (u', closed, sig)" "run_servers cfg now rs there i u st = servers"
proof -
  let ?panic = "conn_fd (current u) = -1"
  obtain servers p where list: "altservers_getListForUplink cfg now (name i) 4
       (if ?panic then None else Some (nat (conn_index (current u))))
       \<lparr>pk_alts = st, pk_local = Some (altData u), pk_rand = rs\<rparr> = (servers, p)" by (metis surj_pair)
  let ?u1 = "u\<lparr>altData := the (pk_local p)\<rparr>"
  obtain off len where range: "probe_range ?u1 = (off, len)" by (cases "probe_range ?u1")
  let ?c0 = "\<lparr>ck_ul = ?u1, ck_alts = pk_alts p, ck_best = \<lparr>conn_fd = -1, conn_version = 0, conn_index = 0\<rparr>,
     ck_bestRtt = RTT_UNREACHABLE, ck_currentRtt = RTT_UNREACHABLE, ck_closed = []\<rparr>"
  let ?run = "check_servers cfg i ?panic off len (map (\<lambda>s. (s, envs s)) servers) ?c0"
  note res = assms [unfolded check_run_def Let_def list range prod.case]
  have rs: "run_servers cfg now rs there i u st = (if servers = [] \<or> length servers = 1 \<and> \<not> ?panic \<or> \<not> there then [] else servers)"
    by (simp only: run_servers_def Let_def list fst_conv)
  show thesis
  proof (cases "servers = [] \<or> length servers = 1 \<and> \<not> ?panic \<or> \<not> there")
    case True
    then show thesis using that(1) res rs by (auto split: if_splits)
  next
    case False
    then obtain c where "?run = Some c" "check_finish ?panic c = (u', closed, sig)"
      using res by (auto split: option.splits prod.splits)
    moreover have "run_servers cfg now rs there i u st = servers" unfolding rs using False by (rule if_not_P)
    ultimately show thesis using that(2) [of ?c0 off len servers c] by (simp add: kept_def)
  qed
qed

lemma findUplink_cases:
  assumes "altservers_findUplinkInternal cfg gs now rs there envs i u st = Some (u', st', closed, sig)"
    "conn_fd (better u) = -1"
  obtains "gs \<or> rttTestResult u = RTT_INPROGRESS" "u' = u" "closed = []" "\<not> sig"
  | "\<not> gs" "rttTestResult u \<noteq> RTT_INPROGRESS" "check_run cfg now rs there envs i (u\<lparr>rttTestResult := RTT_INPROGRESS\<rparr>) st = Some (u', st', closed, sig)"
  using assms by (auto simp: altservers_findUplinkInternal_def check_begin_def split: if_splits)

lemma check_finish_kept:
  assumes "check_finish panic c = (u', closed, sig)"
  shows "mset closed + (if sig then {#conn_fd (better u')#} else {#}) = mset (ck_closed c) + mset (kept c)"
    "sig \<longleftrightarrow> rttTestResult u' = RTT_DOCHANGE" "current u' = current (ck_ul c)"
    "better u' = (if sig then ck_best c else better (ck_ul c))" "rttTestResult u' \<noteq> RTT_INPROGRESS"
    "sig \<Longrightarrow> conn_fd (ck_best c) \<noteq> -1"
  using assms by (auto simp: check_finish_def kept_def Let_def split: if_splits)

lemma local_freed_unblocked: "\<not> l_blocked (local_freed l)"
  by (simp add: local_freed_def)

lemma look_at_step:
  assumes "\<not> isClientOnly g" "isPrivate g \<or> \<not> proxyPrivateOnly cfg" "block_counted (local, g)"
    "SERVER_GLOBAL_DUP_TIME \<le> timing_diff (lastFail g) now" "look_at cfg (now, rs) (local, g) = (local1, g1)"
  shows "isClientOnly g1 = isClientOnly g" "isPrivate g1 = isPrivate g" "block_counted (local1, g1)"
    "lastFail g1 = lastFail g \<or> lastFail g1 = now" "looks_needed (local1, g1) \<le> looks_needed (local, g) - 1"
    "map_option local_freed local1 = map_option local_freed local"
    "(if g_blocked g1 then 0 else g_fails g1) = (if g_blocked g then 0 else g_fails g)"
  using assms
  by (cases local; force simp: look_at_def isUsableForUplink_def usable_local_def usable_global_def Let_def block_counted_def
      looks_needed_def local_freed_def split: if_splits)+

lemma looks_unblock:
  assumes "\<not> isClientOnly g" "isPrivate g \<or> \<not> proxyPrivateOnly cfg" "block_counted (local, g)"
    "sorted_wrt (\<lambda>a b. SERVER_GLOBAL_DUP_TIME \<le> timing_diff a b) (lastFail g # map fst looks)"
    "looks_needed (local, g) \<le> length looks" "fold (look_at cfg) looks (local, g) = (local', g')"
  shows "local' = map_option local_freed local \<and> \<not> g_blocked g' \<and> g_fails g' = (if g_blocked g then 0 else g_fails g)
    \<and> isClientOnly g' = isClientOnly g \<and> isPrivate g' = isPrivate g"
  using assms
proof (induction looks arbitrary: local g)
  case Nil
  then show ?case by (cases local) (auto simp: block_counted_def looks_needed_def local_freed_def)
next
  case (Cons look looks)
  obtain now rs where look: "look = (now, rs)" by (cases look)
  obtain local1 g1 where one: "look_at cfg (now, rs) (local, g) = (local1, g1)" by (metis surj_pair)
  have due: "SERVER_GLOBAL_DUP_TIME \<le> timing_diff (lastFail g) now" using Cons.prems(4) look by simp
  note step = look_at_step [OF Cons.prems(1-3) due one]
  have "local' = map_option local_freed local1 \<and> \<not> g_blocked g' \<and> g_fails g' = (if g_blocked g1 then 0 else g_fails g1)
    \<and> isClientOnly g' = isClientOnly g1 \<and> isPrivate g' = isPrivate g1"
    using Cons.prems step look one by (intro Cons.IH) auto
  then show ?case using step by simp
qed

lemma usable_unblocked:
  assumes "\<not> isClientOnly g" "isPrivate g \<or> \<not> proxyPrivateOnly cfg" "\<not> g_blocked g" "\<forall>l. local = Some l \<longrightarrow> \<not> l_blocked l"
  shows "fst (isUsableForUplink cfg now rs local g) \<longleftrightarrow>
    (let fails = (case local of None \<Rightarrow> 0 | Some l \<Rightarrow> l_fails l) + g_fails g
     in fails < SERVER_BAD_UPLINK_MIN \<or> int (shd rs) mod fails < SERVER_BAD_UPLINK_MIN)"
  using assms by (cases local) (auto simp: isUsableForUplink_def usable_local_def usable_global_def Let_def)

lemma subseq_distinct: "subseq xs ys \<Longrightarrow> distinct ys \<Longrightarrow> distinct xs"
  by (induction rule: list_emb.induct) (auto elim: list_emb_set)

text \<open>A server that answers as the protocol wants it is measured, however its answers are fragmented.\<close>

lemma flush_payload_stream: "todo \<le> length (stream s) \<Longrightarrow> flush_payload todo s = Some 0"
proof (induction todo s rule: flush_payload.induct)
  case (1 todo s)
  show ?case
  proof (cases "todo = 0")
    case False
    let ?k = "min 4096 todo"
    have "0 < ?k" "?k \<le> length (stream s)" using 1(2) False by auto
    then obtain s' where s': "recv_waitall ?k s = Some (Inr (take ?k (stream s)), s')" "stream s' = drop ?k (stream s)"
      using recv_waitall_stream [of ?k s] by auto
    have "take ?k (stream s) \<noteq> []" "length (take ?k (stream s)) = ?k" using 1(2) False by auto
    then show ?thesis
      using 1(1) [OF False s'(1) refl refl] 1(2) False s' by (simp add: flush_payload.simps [of todo s])
  qed (simp add: flush_payload.simps)
qed

lemma select_image_sent:
  assumes "length (buffer b) = MAX_PAYLOAD" "length nm \<le> 994" "length nm + 30 \<le> n"
  shows "\<exists>out. dnbd3_select_image b nm revision flags8 (Sent n # so) = Some (True, out, so)"
proof -
  note w = select_image_payload_written [OF assms(1,2), of revision flags8]
  have "unat (serializer_get_written_length (select_image_payload b nm revision flags8)) = length nm + 6"
    using w(3) assms(2) by (simp add: serializer_get_written_length_def unsigned_of_nat take_bit_nat_eq_self del: of_nat_add)
  moreover from this have "uint (serializer_get_written_length (select_image_payload b nm revision flags8)) = 6 + int (length nm)"
    by (metis add.commute of_nat_add of_nat_numeral uint_nat)
  moreover have "length nm + 6 \<le> length (buffer (select_image_payload b nm revision flags8))"
    using w(1,3) by (simp add: sbuf_wf_def)
  ultimately show ?thesis using assms(3) by (simp add: dnbd3_select_image_def Let_def)
qed

lemma get_block_sent: "24 \<le> n \<Longrightarrow> \<exists>out so'. dnbd3_get_block off len handle h (Sent n # so) = Some (True, out, so')"
  by (cases so; cases "hd so") (auto simp: dnbd3_get_block_def send_request_def sock_sendAll_def next_try_def send_result_def Let_def)

lemma of_char_zero:
  assumes "0 = (of_char c :: byte)"
  shows "c = CHR 0x00"
proof -
  have "unat (word_of_nat (of_char c) :: byte) = of_char c" by (simp only: unsigned_of_nat) (simp add: take_bit_nat_eq_self)
  then have "(of_char c :: nat) = of_char CHR 0x00" using assms by (simp add: of_nat_of_char)
  then show ?thesis by (simp only: of_char_eq_iff)
qed

lemma probe_succeeds:
  assumes "pe_sock e \<noteq> -1" "pe_out e = [Sent n, Sent 24]" "length (name i) + 30 \<le> n" "length (name i) \<le> 900"
    "CHR 0x00 \<notin> set (name i)" "length (buffer (pe_buffer e)) = MAX_PAYLOAD" "MIN_SUPPORTED_SERVER \<le> ver"
    "stream (pe_in e) = reply_bytes q @ (to_le 2 ver @ cstr_bytes (name i) @ [0] @ to_le 2 (rid i) @ to_le 8 (virtualFilesize i))
       @ reply_bytes q2 @ data"
    "rp_magic q = dnbd3_packet_magic" "rp_cmd q = CMD_SELECT_IMAGE" "unat (rp_size q) = length (name i) + 13"
    "rp_magic q2 = dnbd3_packet_magic" "rp_cmd q2 = CMD_GET_BLOCK" "rp_size q2 = len" "unat len \<le> length data"
  shows "probe_server cfg i off len e = Some (Measured ver (rtt_of (pe_start e) (pe_end e)))"
proof -
  let ?pl = "to_le 2 ver @ cstr_bytes (name i) @ [0] @ to_le 2 (rid i) @ to_le 8 (virtualFilesize i)"
  have nm: "length (cstr_bytes (name i)) = length (name i)" "0 \<notin> set (cstr_bytes (name i))"
    using assms(5) of_char_zero by (auto simp: cstr_bytes_def)
  obtain si where si: "dnbd3_select_image_reply (pe_beyond e) (pe_buffer e) (pe_in e)
      = Some (Some \<lparr>sr_version = ver, sr_name = Some (cstr_bytes (name i)), sr_rid = rid i, sr_size = virtualFilesize i\<rparr>, si)"
      "stream si = reply_bytes q2 @ data"
    using select_image_reply_stream [OF assms(8-10) _ refl nm(2) _ assms(6), of "pe_beyond e"] assms(4,11) nm(1)
    by (auto simp: MAX_PAYLOAD_def)
  obtain si1 where si1: "dnbd3_get_reply si = Some (Some q2, si1)" "stream si1 = data"
    using get_reply_stream [OF si(2) assms(12)] by blast
  obtain out where "dnbd3_select_image (pe_buffer e) (cstr_bytes (name i)) (rid i) (SI_SERVER_FLAGS cfg) (pe_out e) = Some (True, out, [Sent 24])"
    using select_image_sent [OF assms(6), of "cstr_bytes (name i)" n "rid i" "SI_SERVER_FLAGS cfg" "[Sent 24]"] assms(2-4) nm(1) by auto
  moreover obtain out2 so where "dnbd3_get_block off len 0 (COND_HOPCOUNT (uint ver) 1) [Sent 24] = Some (True, out2, so)"
    using get_block_sent [of 24] by blast
  ultimately show ?thesis
    using assms(1,7,13-15) si si1 flush_payload_stream [of "unat len" si1]
    by (simp add: probe_server_def check_offer_def probe_block_def)
qed

section \<open>Properties\<close>

text \<open>
  C23: A client is told the public servers that may serve its image, sorted by the number of leading address nibbles they
  share with the client, servers of equal distance in the order of the list, cut to the size of the reply. Failures and
  blocks play no part: the comments here and at the caller promise working servers, the list has the blocked ones too.
\<close>

theorem getListForClient_sorted:
  assumes "numAltServers st \<le> length (altServers st)" "htype host \<noteq> 0"
  shows "altservers_getListForClient host nm sz st =
    map (\<lambda>i. \<lparr>se_host = altservers_indexToHost i st, se_failures = 0\<rparr>)
      (take (nat sz) (sort_key (\<lambda>i. - altservers_netCloseness host (altservers_indexToHost i st))
        (filter (\<lambda>i. client_eligible nm (altServers st ! i)) [0 ..< numAltServers st])))"
proof -
  let ?n = "numAltServers st" and ?as = "take (numAltServers st) (altServers st)"
  let ?scores = "map (client_score host nm) ?as"
  let ?sorted = "sort_key (\<lambda>i. - altservers_netCloseness host (altservers_indexToHost i st))
    (filter (\<lambda>i. client_eligible nm (altServers st ! i)) [0 ..< ?n])"
  have len: "length ?as = ?n" using assms(1) by simp
  have "\<forall>j < length ?scores. ?scores ! j \<noteq> 0 \<longrightarrow> int (unat (?scores ! j)) = 10 + altservers_netCloseness host (altservers_indexToHost j st)"
    using client_score_value(2) [of host nm] len by (simp add: altservers_indexToHost_def)
  moreover have "filter (\<lambda>i. ?scores ! i \<noteq> 0) [0 ..< length ?scores] = filter (\<lambda>i. client_eligible nm (altServers st ! i)) [0 ..< ?n]"
    using client_score_value(1) [of host nm] len by (intro filter_cong) auto
  ultimately have sel: "select_loop k ?scores = take k ?sorted" for k
    using select_loop_sorts [of ?scores "\<lambda>j. altservers_netCloseness host (altservers_indexToHost j st)" k] by simp
  have "length ?sorted \<le> ?n" using length_filter_le [of "\<lambda>i. client_eligible nm (altServers st ! i)" "[0 ..< ?n]"] by simp
  then have "take (min (nat sz) ?n) ?sorted = take (nat sz) ?sorted" by (simp add: min_def)
  then show ?thesis
    using assms(2) sel [of "min (nat sz) ?n"]
    by (auto simp: altservers_getListForClient_def altservers_indexToHost_def)
qed

theorem getListForClient_sorted_witness:
  "altservers_getListForClient (ip4_host [10, 0, 0, 7] 5) ''x'' 1
     \<lparr>altServers = [zero_alt\<lparr>g_host := ip4_host [192, 168, 0, 1] 5\<rparr>, zero_alt\<lparr>g_host := ip4_host [10, 0, 0, 1] 5, g_fails := 20, g_blocked := True\<rparr>],
      numAltServers = 2\<rparr>
   = [\<lparr>se_host = ip4_host [10, 0, 0, 1] 5, se_failures = 0\<rparr>]"
proof -
  let ?b = "zero_alt\<lparr>g_host := ip4_host [10, 0, 0, 1] 5, g_fails := 20, g_blocked := True\<rparr>"
  let ?st = "\<lparr>altServers = [zero_alt\<lparr>g_host := ip4_host [192, 168, 0, 1] 5\<rparr>, ?b], numAltServers = 2\<rparr>"
  have e: "[0 ..< 2] = [0, 1 :: nat]" by (simp add: upt_rec)
  have "client_eligible ''x'' (zero_alt\<lparr>g_host := ip4_host a p\<rparr>)" "client_eligible ''x'' ?b" "htype (ip4_host a p) \<noteq> 0" for a p
    by (auto simp: client_eligible_def zero_alt_def ip4_host_def HOST_IP4_def isImageAllowed_def)
  moreover have "altservers_netCloseness (ip4_host [10, 0, 0, 7] 5) (ip4_host [192, 168, 0, 1] 5) = 0"
    "altservers_netCloseness (ip4_host [10, 0, 0, 7] 5) (ip4_host [10, 0, 0, 1] 5) = 7"
    by (simp_all add: altservers_netCloseness_def ip4_host_def)
  ultimately show ?thesis
    using getListForClient_sorted [of ?st "ip4_host [10, 0, 0, 7] 5" "''x''" 1]
    by (simp add: e altservers_indexToHost_def)
qed

text \<open>
  Loading the server list yields entries with pairwise different address and port, at most 50 of them; the number
  reported is the number of entries, and every entry is found again by its host.
\<close>

theorem altservers_load_unique:
  assumes "altservers_load pton4 pton6 readable entries lines altservers_empty = (st, n)"
  shows "n = numAltServers st \<and> n \<le> 50
    \<and> (\<forall>i j. i < j \<and> j < n \<longrightarrow> \<not> isSameAddressPort (altservers_indexToHost i st) (altservers_indexToHost j st))
    \<and> (\<forall>i < n. altservers_hostToIndex (altservers_indexToHost i st) st = Some i)"
proof -
  have "counted (st, n)" using load_counted [of pton4 pton6 readable entries lines] assms by simp
  then have "alt_wf st" "n = numAltServers st" by (auto simp: counted_def alt_typed_def)
  then show ?thesis using hostToIndex_indexToHost by (auto simp: alt_wf_def altservers_indexToHost_def)
qed

definition sample_pton :: "string \<Rightarrow> u8 list option" where
  "sample_pton s = (if s = ''a'' then Some [10, 0, 0, 1] else if s = ''b'' then Some [10, 0, 0, 2] else None)"

theorem altservers_load_unique_witness:
  "\<exists>st. altservers_load sample_pton (\<lambda>_. None) True [(''a'', ''for'', ''replication''), (''b'', ''comment'', ''x''), (''a'', ''comment'', ''y'')]
      [] altservers_empty = (st, 2) \<and> altservers_hostToIndex (altservers_indexToHost 1 st) st = Some 1"
proof -
  obtain st n where load: "altservers_load sample_pton (\<lambda>_. None) True
      [(''a'', ''for'', ''replication''), (''b'', ''comment'', ''x''), (''a'', ''comment'', ''y'')] [] altservers_empty = (st, n)"
    by (metis surj_pair)
  have pa: "parse_address sample_pton (\<lambda>_. None) ''a'' = Some (ip4_host [10, 0, 0, 1] (htons PORT))"
    "parse_address sample_pton (\<lambda>_. None) ''b'' = Some (ip4_host [10, 0, 0, 2] (htons PORT))"
    by (simp_all add: parse_address_def parse_ip_def sample_pton_def)
  have "n = 2"
    using load by (simp add: altservers_load_def addAltFromIni_def pa altservers_add_def altservers_empty_def set_alt_def
        SERVER_MAX_ALTS_def fill_slot_def isSameAddressPort_def ip4_host_def addr_len_def HOST_IP4_def numeral_eq_Suc)
  then show ?thesis using altservers_load_unique [OF load] load by auto
qed

text \<open>
  The candidates for an uplink are distinct known servers, no more than asked for. While the uplink is connected,
  each of them is the current server or one that may serve the image and is not reserved for clients.
\<close>

theorem getListForUplink_sound:
  assumes "altservers_getListForUplink cfg now nm sz cur p = (servers, p')" "alt_wf (pk_alts p)"
    "cur = None \<or> the cur < numAltServers (pk_alts p)"
  shows "length servers \<le> sz \<and> distinct servers \<and> (\<forall>i \<in> set servers. i < numAltServers (pk_alts p))
    \<and> (cur \<noteq> None \<longrightarrow> (\<forall>i \<in> set servers. Some i = cur
         \<or> isImageAllowed (altServers (pk_alts p) ! i) nm \<and> \<not> isClientOnly (altServers (pk_alts p) ! i)))"
proof -
  let ?st = "pk_alts p" and ?n = "numAltServers (pk_alts p)"
  consider "sz = 0" | "0 < sz" "?n \<le> sz" | "0 < sz" "sz < ?n" by linarith
  then show ?thesis
  proof cases
    case 1
    then show ?thesis using assms(1) by (simp add: altservers_getListForUplink_def)
  next
    case 2
    then have all: "pick_all cfg now nm cur [0 ..< ?n] p = (servers, p')"
      using assms(1) by (simp add: altservers_getListForUplink_def)
    have sub: "subseq servers [0 ..< ?n]" and allowed: "\<forall>i \<in> set servers. isImageAllowed (altServers ?st ! i) nm"
      and co: "cur \<noteq> None \<longrightarrow> (\<forall>i \<in> set servers. Some i = cur \<or> \<not> isClientOnly (altServers ?st ! i))"
      using pick_all_sound [OF all] assms(2) by (auto simp: alt_wf_def)
    have "distinct servers" using sub subseq_distinct [of servers "[0 ..< ?n]"] by simp
    moreover have "\<forall>i \<in> set servers. i < ?n" using sub by (auto elim!: list_emb_set)
    moreover have "length servers \<le> sz" using list_emb_length [OF sub] 2 by simp
    ultimately show ?thesis using allowed co by blast
  next
    case 3
    let ?s0 = "replicate (nat SERVER_MAX_ALTS) (0 :: u8)"
    obtain servers1 state1 p1 where r: "pick_random cfg now nm sz (sz * 10) (case cur of None \<Rightarrow> [] | Some c \<Rightarrow> [c])
        (case cur of None \<Rightarrow> ?s0 | Some c \<Rightarrow> ?s0[c := 2]) p = (servers1, state1, p1)" by (metis prod_cases3)
    have "picked ?st nm cur sz (case cur of None \<Rightarrow> [] | Some c \<Rightarrow> [c]) (case cur of None \<Rightarrow> ?s0 | Some c \<Rightarrow> ?s0[c := 2]) p"
      using assms(2,3) 3 by (auto simp: picked_def SERVER_MAX_ALTS_def alt_wf_def split: option.split)
    then have one: "picked ?st nm cur sz servers1 state1 p1" using pick_random_sound [OF r] assms(2) 3 by simp
    have "\<exists>state. picked ?st nm cur sz servers state p'"
      using assms(1) 3 r one pick_panic_sound [of sz "sz * 10" servers1 state1 p1 servers p' ?st nm] assms(2)
      by (auto simp: altservers_getListForUplink_def Let_def split: option.splits)
    then show ?thesis by (auto simp: picked_def)
  qed
qed

definition two_alts :: alt_state where
  "two_alts =
     \<lparr>altServers = [zero_alt\<lparr>g_host := ip4_host [10, 0, 0, 1] 5\<rparr>, zero_alt\<lparr>g_host := ip4_host [10, 0, 0, 2] 5, isClientOnly := True\<rparr>]
        @ replicate 48 zero_alt,
      numAltServers = 2\<rparr>"

lemma two_alts_wf: "alt_wf two_alts"
  by (auto simp: alt_wf_def two_alts_def isSameAddressPort_def ip4_host_def addr_len_def HOST_IP4_def less_Suc_eq numeral_eq_Suc)

theorem getListForUplink_sound_witness:
  "let servers = fst (altservers_getListForUplink sample_config \<lparr>tv_sec = 100, tv_nsec = 0\<rparr> ''x'' 4 (Some 0)
       \<lparr>pk_alts = two_alts, pk_local = None, pk_rand = sconst 0\<rparr>)
   in servers = [0] \<and> length servers \<le> 4"
proof -
  let ?p = "\<lparr>pk_alts = two_alts, pk_local = None, pk_rand = sconst 0\<rparr>"
  have "[0 ..< 2] = [0, 1 :: nat]" by (simp add: upt_rec)
  then have "fst (altservers_getListForUplink sample_config \<lparr>tv_sec = 100, tv_nsec = 0\<rparr> ''x'' 4 (Some 0) ?p) = [0]"
    by (simp add: altservers_getListForUplink_def two_alts_def pick_usable_def isUsableForUplink_def isImageAllowed_def zero_alt_def Let_def)
  then show ?thesis
    using getListForUplink_sound [of sample_config "\<lparr>tv_sec = 100, tv_nsec = 0\<rparr>" "''x''" 4 "Some 0" ?p, OF surjective_pairing] two_alts_wf
    by (simp add: two_alts_def)
qed

text \<open>
  Without a connection a short list is not filtered by use: every server that may serve the image is a candidate,
  also those reserved for clients, contrary to the comment of \<^verbatim>\<open>altservers_getListForUplink\<close>, which promises to ignore
  them. \<^verbatim>\<open>altservers_getHostListForReplication\<close> always asks in this mode.
\<close>

theorem panic_ignores_use:
  assumes "numAltServers (pk_alts p) \<le> sz" "0 < sz"
  shows "altservers_getListForUplink cfg now nm sz None p =
    (filter (\<lambda>i. isImageAllowed (altServers (pk_alts p) ! i) nm) [0 ..< numAltServers (pk_alts p)], p)"
proof -
  have "pick_all cfg now nm None is p = (filter (\<lambda>i. isImageAllowed (altServers (pk_alts p) ! i) nm) is, p)" for "is"
    by (induction "is") auto
  then show ?thesis using assms by (simp add: altservers_getListForUplink_def)
qed

theorem panic_ignores_use_witness:
  "fst (altservers_getListForUplink sample_config \<lparr>tv_sec = 100, tv_nsec = 0\<rparr> ''x'' 4 None
       \<lparr>pk_alts = two_alts, pk_local = None, pk_rand = sconst 0\<rparr>) = [0, 1]
   \<and> isClientOnly (altServers two_alts ! 1)"
proof -
  have "[0 ..< 2] = [0, 1 :: nat]" by (simp add: upt_rec)
  then show ?thesis
    using panic_ignores_use [of "\<lparr>pk_alts = two_alts, pk_local = None, pk_rand = sconst 0\<rparr>" 4 sample_config "\<lparr>tv_sec = 100, tv_nsec = 0\<rparr>" "''x''"]
    by (simp add: two_alts_def isImageAllowed_def zero_alt_def)
qed

text \<open>
  C24: A blocked server comes back, for a caller with an uplink and for one without. Looked at as often as the blocked ones
  of its two entries still need, the uplink's counted down before the global one, at times at least six seconds apart, a
  server that may be used for uplinks has neither entry blocked; a counter that held a block is 0, one that did not is
  unchanged. The next look then finds it usable for sure when the failures left are fewer than
  \<^verbatim>\<open>SERVER_BAD_UPLINK_MIN\<close>, and by the random number drawn otherwise.
\<close>

theorem blocked_server_returns:
  assumes "\<not> isClientOnly g" "isPrivate g \<or> \<not> proxyPrivateOnly cfg" "block_counted (local, g)"
    "sorted_wrt (\<lambda>a b. SERVER_GLOBAL_DUP_TIME \<le> timing_diff a b) (lastFail g # map fst looks)"
    "looks_needed (local, g) \<le> length looks" "fold (look_at cfg) looks (local, g) = (local', g')"
  shows "local' = map_option local_freed local \<and> \<not> g_blocked g' \<and> g_fails g' = (if g_blocked g then 0 else g_fails g)
    \<and> (fst (isUsableForUplink cfg now rs local' g') \<longleftrightarrow>
         (let fails = (case local' of None \<Rightarrow> 0 | Some l \<Rightarrow> l_fails l) + g_fails g'
          in fails < SERVER_BAD_UPLINK_MIN \<or> int (shd rs) mod fails < SERVER_BAD_UPLINK_MIN))"
proof -
  note un = looks_unblock [OF assms]
  have "\<forall>l. local' = Some l \<longrightarrow> \<not> l_blocked l" using un local_freed_unblocked by auto
  then show ?thesis using usable_unblocked [of g' cfg local' now rs] un assms(1,2) by blast
qed

theorem blocked_server_returns_witness:
  "\<exists>local' g'. fold (look_at sample_config) (map (\<lambda>s. (\<lparr>tv_sec = s, tv_nsec = 0\<rparr>, sconst 0)) [10, 20, 30, 40, 50])
      (Some \<lparr>l_fails = 2, l_rttIndex = 0, l_rtt = [], l_blocked = True, l_initDone = False\<rparr>, zero_alt\<lparr>g_fails := 3, g_blocked := True\<rparr>)
      = (local', g') \<and> \<not> g_blocked g' \<and> fst (isUsableForUplink sample_config \<lparr>tv_sec = 60, tv_nsec = 0\<rparr> (sconst 7) local' g')"
proof -
  let ?g = "zero_alt\<lparr>g_fails := 3, g_blocked := True\<rparr>" and ?looks = "map (\<lambda>s. (\<lparr>tv_sec = s, tv_nsec = 0\<rparr>, sconst 0)) [10, 20, 30, 40, 50]"
    and ?l = "\<lparr>l_fails = 2, l_rttIndex = 0, l_rtt = [], l_blocked = True, l_initDone = False\<rparr>"
  obtain local' g' where run: "fold (look_at sample_config) ?looks (Some ?l, ?g) = (local', g')" by (metis surj_pair)
  have "sorted_wrt (\<lambda>a b. SERVER_GLOBAL_DUP_TIME \<le> timing_diff a b) (lastFail ?g # map fst ?looks)"
    by (simp add: zero_alt_def timing_diff_def SERVER_GLOBAL_DUP_TIME_def)
  moreover have "\<not> isClientOnly ?g" "isPrivate ?g \<or> \<not> proxyPrivateOnly sample_config" "block_counted (Some ?l, ?g)"
    "looks_needed (Some ?l, ?g) \<le> length ?looks"
    by (auto simp: zero_alt_def sample_config_def block_counted_def looks_needed_def)
  ultimately show ?thesis
    using blocked_server_returns [of ?g sample_config "Some ?l" ?looks local' g' "\<lparr>tv_sec = 60, tv_nsec = 0\<rparr>" "sconst 7"] run
    by (auto simp: local_freed_def SERVER_BAD_UPLINK_MIN_def Let_def)
qed

text \<open>
  An uplink without a connection, two servers: the first one answers over descriptor 9, the second one refuses the
  connection.
\<close>

definition lost_uplink :: dnbd3_uplink_t where
  "lost_uplink = uplink_fresh\<lparr>current := \<lparr>conn_fd = -1, conn_version = 0, conn_index = 0\<rparr>,
     better := \<lparr>conn_fd = -1, conn_version = 0, conn_index = 0\<rparr>\<rparr>"

definition x_image :: dnbd3_image_t where
  "x_image = sample_image\<lparr>name := ''x'', rid := 1\<rparr>"

definition sample_probe :: "nat \<Rightarrow> probe_env" where
  "sample_probe server =
     \<lparr>pe_sock = (if server = 0 then 9 else -1), pe_out = [Sent 100, Sent 24],
      pe_in = [Data (reply_bytes \<lparr>rp_magic = dnbd3_packet_magic, rp_cmd = CMD_SELECT_IMAGE, rp_size = 14, rp_handle = 0\<rparr>
                 @ (to_le 2 (3 :: u16) @ cstr_bytes ''x'' @ [0] @ to_le 2 (1 :: u16) @ to_le 8 (40960 :: u64))
                 @ reply_bytes \<lparr>rp_magic = dnbd3_packet_magic, rp_cmd = CMD_GET_BLOCK, rp_size = 4096, rp_handle = 0\<rparr>
                 @ replicate 4096 0)],
      pe_start = \<lparr>tv_sec = 5, tv_nsec = 0\<rparr>, pe_end = \<lparr>tv_sec = 5, tv_nsec = 0\<rparr>, pe_now = \<lparr>tv_sec = 5, tv_nsec = 0\<rparr>,
      pe_buffer = \<lparr>buffer = replicate 1000 0, buffer_end = 0, buffer_pointer = 0\<rparr>, pe_beyond = 0\<rparr>"

lemma sample_probe_measured: "probe_server cfg x_image off 4096 (sample_probe 0) = Some (Measured 3 0)"
proof -
  have "rtt_of (pe_start (sample_probe 0)) (pe_end (sample_probe 0)) = 0" by (simp add: sample_probe_def rtt_of_def)
  then show ?thesis
    using probe_succeeds [of "sample_probe 0" 100 x_image 3
        "\<lparr>rp_magic = dnbd3_packet_magic, rp_cmd = CMD_SELECT_IMAGE, rp_size = 14, rp_handle = 0\<rparr>"
        "\<lparr>rp_magic = dnbd3_packet_magic, rp_cmd = CMD_GET_BLOCK, rp_size = 4096, rp_handle = 0\<rparr>" "replicate 4096 0" 4096 cfg off]
    by (simp add: sample_probe_def x_image_def MIN_SUPPORTED_SERVER_def MAX_PAYLOAD_def stream_Data)
qed

lemma sample_run:
  "\<exists>u' st'. altservers_findUplinkInternal sample_config False \<lparr>tv_sec = 100, tv_nsec = 0\<rparr> (sconst 0) True sample_probe x_image
     lost_uplink two_alts = Some (u', st', [], True)"
proof -
  let ?u = "lost_uplink\<lparr>rttTestResult := RTT_INPROGRESS\<rparr>"
  have "[0 ..< 2] = [0, 1 :: nat]" by (simp add: upt_rec)
  then have list: "altservers_getListForUplink sample_config \<lparr>tv_sec = 100, tv_nsec = 0\<rparr> ''x'' 4 None
      \<lparr>pk_alts = two_alts, pk_local = Some ls, pk_rand = sconst 0\<rparr> = ([0, 1], \<lparr>pk_alts = two_alts, pk_local = Some ls, pk_rand = sconst 0\<rparr>)" for ls
    by (simp add: altservers_getListForUplink_def two_alts_def isImageAllowed_def zero_alt_def)
  have start: "check_begin lost_uplink = Some (True, ?u)" by (simp add: check_begin_def lost_uplink_def uplink_fresh_def)
  have range: "probe_range ?u = (0, 4096)" by (simp add: probe_range_def lost_uplink_def uplink_fresh_def DNBD3_BLOCK_SIZE_def)
  have second: "probe_server cfg x_image off len (sample_probe (Suc 0)) = Some Connect_failed" for cfg off len
    by (simp add: probe_server_def sample_probe_def)
  have u: "conn_fd (current lost_uplink) = -1" "conn_index (current lost_uplink) = 0" "length (altData lost_uplink) = 50"
    "l_initDone (altData lost_uplink ! 0) = False" "cycleDetected lost_uplink = False"
    by (simp_all add: lost_uplink_def uplink_fresh_def SERVER_MAX_ALTS_def)
  have "pe_sock (sample_probe 0) = 9" "name x_image = ''x''" by (simp_all add: sample_probe_def x_image_def)
  then show ?thesis
    using u by (simp add: altservers_findUplinkInternal_def start check_run_def list range check_server_def second
        sample_probe_measured measured_def altservers_updateRtt_def check_finish_def RTT_UNREACHABLE_def Let_def)
qed

text \<open>
  C22: A measurement closes every connection it opened exactly once, the one it hands to the uplink excepted: the
  descriptors closed and the one handed over are together, as a multiset, those of the servers it connected to, which are
  the candidates \<^verbatim>\<open>altservers_getListForUplink\<close> gives. The one handed over is the new \<^verbatim>\<open>better\<close> connection and the uplink is
  told to switch. The current connection is left alone.
\<close>

theorem findUplink_descriptors:
  assumes "altservers_findUplinkInternal cfg gs now rs there envs i u st = Some (u', st', closed, sig)" "conn_fd (better u) = -1"
  shows "mset closed + (if sig then {#conn_fd (better u')#} else {#})
      = mset (filter (\<lambda>fd. fd \<noteq> -1) (map (\<lambda>s. pe_sock (envs s)) (probed cfg gs now rs there i u st)))
    \<and> (sig \<longrightarrow> rttTestResult u' = RTT_DOCHANGE) \<and> (\<not> sig \<longrightarrow> better u' = better u) \<and> current u' = current u"
  using assms
proof (cases rule: findUplink_cases)
  case 1
  then show ?thesis by (auto simp: probed_def)
next
  case 2
  have "run_servers cfg now rs there i (u\<lparr>rttTestResult := RTT_INPROGRESS\<rparr>) st = run_servers cfg now rs there i u st"
    by (simp add: run_servers_def cong: if_cong)
  then have p: "probed cfg gs now rs there i u st = run_servers cfg now rs there i (u\<lparr>rttTestResult := RTT_INPROGRESS\<rparr>) st"
    using 2 by (simp add: probed_def)
  from 2(3) show ?thesis
  proof (cases rule: check_run_cases)
    case 1
    then show ?thesis using p by simp
  next
    case (2 off len servers c0 c)
    have "mset (ck_closed c) + mset (kept c) = mset (opened (map (\<lambda>s. (s, envs s)) servers))" "check_frame c0 c"
      using check_servers_sound [OF 2(5)] 2(3,4) by auto
    then show ?thesis
      using check_finish_kept [OF 2(6)] 2(1,2,7) p by (auto simp: opened_def check_frame_def comp_def)
  qed
qed

theorem findUplink_descriptors_witness:
  "\<exists>u' st'. altservers_findUplinkInternal sample_config False \<lparr>tv_sec = 100, tv_nsec = 0\<rparr> (sconst 0) True sample_probe x_image
       lost_uplink two_alts = Some (u', st', [], True)
     \<and> probed sample_config False \<lparr>tv_sec = 100, tv_nsec = 0\<rparr> (sconst 0) True x_image lost_uplink two_alts = [0, 1]
     \<and> conn_fd (better u') = 9"
proof -
  obtain u' st' where run: "altservers_findUplinkInternal sample_config False \<lparr>tv_sec = 100, tv_nsec = 0\<rparr> (sconst 0) True
      sample_probe x_image lost_uplink two_alts = Some (u', st', [], True)" using sample_run by blast
  have "[0 ..< 2] = [0, 1 :: nat]" by (simp add: upt_rec)
  then have servers: "probed sample_config False \<lparr>tv_sec = 100, tv_nsec = 0\<rparr> (sconst 0) True x_image lost_uplink two_alts = [0, 1]"
    by (simp add: probed_def run_servers_def altservers_getListForUplink_def two_alts_def isImageAllowed_def zero_alt_def
        lost_uplink_def uplink_fresh_def x_image_def)
  have "conn_fd (better lost_uplink) = -1" by (simp add: lost_uplink_def)
  then show ?thesis using findUplink_descriptors [OF run] run servers by (simp add: sample_probe_def)
qed

text \<open>
  C21: An uplink is only switched to a server that answered with exactly the image's name, revision and size and speaks a
  supported version of the protocol.
\<close>

theorem switch_only_to_matching_server:
  assumes "altservers_findUplinkInternal cfg gs now rs there envs i u st = Some (u', st', closed, True)" "conn_fd (better u) = -1"
  shows "\<exists>s sr si. better u' = \<lparr>conn_fd = pe_sock (envs s), conn_version = uint (sr_version sr), conn_index = int s\<rparr>
    \<and> dnbd3_select_image_reply (pe_beyond (envs s)) (pe_buffer (envs s)) (pe_in (envs s)) = Some (Some sr, si)
    \<and> offers_image i sr"
  using assms
proof (cases rule: findUplink_cases)
  case 2
  from 2(3) show ?thesis
  proof (cases rule: check_run_cases)
    case (2 off len servers c0 c)
    have "conn_fd (ck_best c) \<noteq> -1" "better u' = ck_best c" using check_finish_kept [OF 2(6)] by auto
    moreover have "conn_fd (ck_best c0) = -1" using 2(4) by (auto simp: kept_def split: if_splits)
    ultimately obtain s v rtt where "probe_server cfg i off len (envs s) = Some (Measured v rtt)"
      "better u' = \<lparr>conn_fd = pe_sock (envs s), conn_version = uint v, conn_index = int s\<rparr>"
      using check_servers_sound [OF 2(5)] by auto
    then show ?thesis using probe_measured by blast
  qed simp
qed simp

theorem switch_only_to_matching_server_witness:
  "\<exists>u' st' s sr. altservers_findUplinkInternal sample_config False \<lparr>tv_sec = 100, tv_nsec = 0\<rparr> (sconst 0) True sample_probe x_image
       lost_uplink two_alts = Some (u', st', [], True) \<and> conn_index (better u') = int s \<and> offers_image x_image sr"
proof -
  obtain u' st' where run: "altservers_findUplinkInternal sample_config False \<lparr>tv_sec = 100, tv_nsec = 0\<rparr> (sconst 0) True
      sample_probe x_image lost_uplink two_alts = Some (u', st', [], True)" using sample_run by blast
  have "conn_fd (better lost_uplink) = -1" by (simp add: lost_uplink_def)
  then show ?thesis using switch_only_to_matching_server [OF run] run by force
qed

end
