(* ===== verification/UplinkSystem.thy ===== *)
theory UplinkSystem
  imports UplinkThreadProof AltCheck
begin

text \<open>
  The uplink thread together with the threads around it: client threads that add and withdraw requests, and workers of
  the thread pool that measure servers. Whatever they do in between, the thread stays a run of the request machine, the
  assertions about measurements hold, and nobody is left waiting when the thread ends.
\<close>

section \<open>What a measurement leaves alone\<close>

definition queue_frame :: "dnbd3_uplink_t \<Rightarrow> dnbd3_uplink_t \<Rightarrow> bool" where
  "queue_frame u u' \<longleftrightarrow> queue u' = queue u \<and> queueLen u' = queueLen u \<and> queueId u' = queueId u
     \<and> nextReplicationIndex u' = nextReplicationIndex u \<and> shutdown u' = shutdown u"

lemma queue_frame_trans: "queue_frame a b \<Longrightarrow> queue_frame b c \<Longrightarrow> queue_frame a c"
  by (simp add: queue_frame_def)

lemma measured_queue: "queue_frame (ck_ul c) (ck_ul (measured panic server sock v rtt c))"
proof -
  obtain avg u st where eq: "altservers_updateRtt server rtt (ck_ul c) (ck_alts c) = (avg, u, st)" by (metis prod_cases3)
  then have "queue_frame (ck_ul c) u" by (auto simp: altservers_updateRtt_def queue_frame_def Let_def split: if_splits)
  then show ?thesis by (simp add: measured_def eq Let_def)
qed

lemma check_server_queue:
  assumes "check_server cfg i panic off len server e c = Some c'"
  shows "queue_frame (ck_ul c) (ck_ul c')"
proof -
  obtain r where "probe_server cfg i off len e = Some r" using assms by (auto simp: check_server_def split: option.splits)
  then show ?thesis
    using assms measured_queue by (cases r) (auto simp: check_server_def altservers_imageFailed_def queue_frame_def)
qed

lemma check_servers_queue: "check_servers cfg i panic off len ses c = Some c' \<Longrightarrow> queue_frame (ck_ul c) (ck_ul c')"
proof (induction ses arbitrary: c)
  case (Cons se ses)
  then show ?case using check_server_queue queue_frame_trans by (cases se) (auto split: option.splits, blast)
qed (simp add: queue_frame_def)

lemma check_run_queue:
  assumes "check_run cfg now rs there envs i u st = Some (u', st', fds, sig)"
  shows "queue_frame u u'"
proof -
  let ?panic = "conn_fd (current u) = -1"
  obtain servers p where list: "altservers_getListForUplink cfg now (name i) 4
       (if ?panic then None else Some (nat (conn_index (current u))))
       \<lparr>pk_alts = st, pk_local = Some (altData u), pk_rand = rs\<rparr> = (servers, p)" by (metis surj_pair)
  let ?u1 = "u\<lparr>altData := the (pk_local p)\<rparr>"
  obtain off len where range: "probe_range ?u1 = (off, len)" by (cases "probe_range ?u1")
  note res = assms [unfolded check_run_def Let_def list range prod.case]
  show ?thesis
  proof (cases "servers = [] \<or> length servers = 1 \<and> \<not> ?panic \<or> \<not> there")
    case True
    then show ?thesis using res by (auto simp: queue_frame_def split: if_splits)
  next
    case False
    then obtain c where "check_servers cfg i ?panic off len (map (\<lambda>s. (s, envs s)) servers) \<lparr>ck_ul = ?u1, ck_alts = pk_alts p,
        ck_best = \<lparr>conn_fd = -1, conn_version = 0, conn_index = 0\<rparr>, ck_bestRtt = RTT_UNREACHABLE, ck_currentRtt = RTT_UNREACHABLE,
        ck_closed = []\<rparr> = Some c" and fin: "check_finish ?panic c = (u', fds, sig)"
      using res by (auto split: option.splits prod.splits)
    then have "queue_frame ?u1 (ck_ul c)" using check_servers_queue by fastforce
    then show ?thesis using fin by (auto simp: check_finish_def queue_frame_def Let_def split: if_splits)
  qed
qed

lemma findUplink_sound:
  assumes "altservers_findUplinkInternal cfg gs now rs there envs i u st = Some (u', st', fds, sig)" "rtt_inv u"
  shows "queue_frame u u'" "rtt_inv u'" "current u' = current u"
proof -
  have "queue_frame u u' \<and> rtt_inv u' \<and> current u' = current u"
  proof (cases "conn_fd (better u) = -1")
    case True
    from assms(1) True show ?thesis
    proof (cases rule: findUplink_cases)
      case 1
      then show ?thesis using assms(2) by (simp add: queue_frame_def)
    next
      case 2
      have "queue_frame u u'" using check_run_queue [OF 2(3)] by (simp add: queue_frame_def)
      moreover from 2(3) have "rtt_inv u' \<and> current u' = current u"
      proof (cases rule: check_run_cases)
        case 1
        then show ?thesis using True by (auto simp: rtt_inv_def)
      next
        case (2 off len servers c0 c)
        have "check_frame c0 c" using check_servers_sound [OF 2(5)] by simp
        then show ?thesis
          using check_finish_kept(2-6) [OF 2(6)] 2(1,2) True by (cases sig) (auto simp: rtt_inv_def check_frame_def)
      qed
      ultimately show ?thesis by simp
    qed
  next
    case False
    then show ?thesis using assms by (auto simp: altservers_findUplinkInternal_def check_begin_def queue_frame_def split: if_splits)
  qed
  then show "queue_frame u u'" "rtt_inv u'" "current u' = current u" by simp_all
qed

section \<open>The thread and its surroundings\<close>

text \<open>
  One step: an iteration of the main loop, a request of a client (accepted or refused), a client that leaves, or a
  measurement, each as a whole; \<^verbatim>\<open>RttProtocol\<close> takes iterations and measurements apart into their sections. An iteration
  needs handles that have not been used: a 64-bit counter does not run out.
\<close>

inductive sysstep :: "config \<Rightarrow> (u64 \<Rightarrow> byte list \<Rightarrow> bool) \<Rightarrow> uplink_thread \<times> dnbd3_queue_client_t list
    \<Rightarrow> uplink_thread \<times> dnbd3_queue_client_t list \<Rightarrow> bool"
  for cfg P where
  iterate: "mainloop_body cfg e t = Some (go, t') \<Longrightarrow> honest_at cfg P e t
    \<Longrightarrow> unat (queueId (ul (us t))) + 3 * window cfg + 4 < 2 ^ 64 \<Longrightarrow> sysstep cfg P (t, acc) (t', acc)"
| request: "uplink_requestInternal cfg client start len h ok1 ok2 (us t) = (r, st') \<Longrightarrow> request_pre (us t) start len
    \<Longrightarrow> sysstep cfg P (t, acc) (t\<lparr>us := st'\<rparr>, acc @ (if r then accepted client start len else []))"
| leave: "sysstep cfg P (t, acc) (t\<lparr>us := uplink_removeEntry dat cback (us t)\<rparr>, acc)"
| measure: "altservers_findUplinkInternal cfg gs now rs there envs (img (us t)) (ul (us t)) (alts t) = Some (u', al, fds, sig)
    \<Longrightarrow> sysstep cfg P (t, acc) (set_ul (\<lambda>_. u') (t\<lparr>alts := al, closed := closed t @ fds\<rparr>), acc)"

definition thread_inv :: "uplink_thread \<Rightarrow> bool" where
  "thread_inv t \<longleftrightarrow> repl_inv (us t) \<and> rtt_inv (ul (us t))"

lemma sysstep_sound:
  assumes "sysstep cfg P (t, acc) (t', acc')" "thread_inv t"
  shows "(ustep cfg P)\<^sup>*\<^sup>* (us t, acc) (us t', acc')" "thread_inv t'" "me t' = me t"
    "uplinkref (img (us t')) = uplinkref (img (us t))"
proof -
  have inv: "repl_inv (us t)" "rtt_inv (ul (us t))" using assms(2) by (simp_all add: thread_inv_def)
  have "(ustep cfg P)\<^sup>*\<^sup>* (us t, acc) (us t', acc') \<and> thread_inv t' \<and> me t' = me t
      \<and> uplinkref (img (us t')) = uplinkref (img (us t))"
    using assms(1)
  proof cases
    case (iterate e go)
    have "advances cfg P acc (3 * window cfg) t t'" by (rule mainloop_body_advances [OF iterate(2) inv(1) iterate(3,4)])
    then show ?thesis using inv iterate(1) by (simp add: advances_def thread_inv_def)
  next
    case (request client start len h ok1 ok2 r st')
    have steps: "(ustep cfg P)\<^sup>*\<^sup>* (us t, acc) (st', acc')"
      using requestInternal_usteps [OF request(3,4)] request(2) by simp
    have frame: "req_frame (us t) st'" by (rule requestInternal_req [OF request(3)])
    have "uplink_inv st'" using inv_requestInternal [OF _ request(4,3)] inv(1) by (simp add: repl_inv_def)
    then have "repl_inv st'" using inv(1) frame by (simp add: repl_inv_def req_frame_def)
    then show ?thesis using steps frame inv request(1) by (simp add: thread_inv_def req_frame_def link_frame_def rtt_inv_def)
  next
    case (leave dat cback)
    have "uplink_inv (uplink_removeEntry dat cback (us t))" using inv_removeEntry inv(1) by (simp add: repl_inv_def)
    then have "repl_inv (uplink_removeEntry dat cback (us t))"
      using inv(1) by (simp add: repl_inv_def uplink_removeEntry_def Let_def)
    moreover have "ustep cfg P (us t, acc) (uplink_removeEntry dat cback (us t), acc)" by (rule ustep.remove)
    ultimately show ?thesis
      using inv leave by (simp add: thread_inv_def rtt_inv_def uplink_removeEntry_def Let_def)
  next
    case (measure gs now rs there envs u' al fds sig)
    note f = findUplink_sound [OF measure(3) inv(2)]
    have q: "quiet (us t) (us t')" using f(1) by (simp add: measure(1) quiet_def queue_frame_def)
    then have "ustep cfg P (us t, acc) (us t', acc')" using measure(2) by (auto intro: ustep.internal)
    then show ?thesis
      using repl_inv_quiet [OF inv(1) q] f by (auto simp: thread_inv_def measure(1) queue_frame_def)
  qed
  then show "(ustep cfg P)\<^sup>*\<^sup>* (us t, acc) (us t', acc')" "thread_inv t'" "me t' = me t"
    "uplinkref (img (us t')) = uplinkref (img (us t))" by simp_all
qed

lemma syssteps_sound:
  assumes "(sysstep cfg P)\<^sup>*\<^sup>* (t, acc) (t', acc')" "thread_inv t"
  shows "(ustep cfg P)\<^sup>*\<^sup>* (us t, acc) (us t', acc') \<and> thread_inv t' \<and> me t' = me t
    \<and> uplinkref (img (us t')) = uplinkref (img (us t))"
  using assms
proof (induction "(t', acc')" arbitrary: t' acc' rule: rtranclp_induct)
  case (step y)
  obtain t1 acc1 where y: "y = (t1, acc1)" by (cases y)
  from step.hyps(3) [OF y step.prems] have ih: "(ustep cfg P)\<^sup>*\<^sup>* (us t, acc) (us t1, acc1)" "thread_inv t1" "me t1 = me t"
    "uplinkref (img (us t1)) = uplinkref (img (us t))" by simp_all
  note s = sysstep_sound [OF step.hyps(2) [unfolded y] ih(2)]
  show ?case using rtranclp_trans [OF ih(1) s(1)] s ih by simp
qed simp

lemma connectionFailed_total: "connectionFailed cfg now findNew t \<noteq> None"
  by (simp add: connectionFailed_def findUplinkAsync_def altservers_findUplinkAsync_def Let_def)

lemma rtt_step_total:
  assumes "rtt_inv (ul (us t))"
  shows "rtt_step cfg e t \<noteq> None"
proof (cases "conn_fd (better (ul (us t))) = -1")
  case True
  obtain complete i files where ic: "image_isComplete (img (us t)) = (complete, i, files)" by (metis prod_cases3)
  have "findUplinkAsync (set_img (\<lambda>_. i) t) \<noteq> None"
    using True by (simp add: findUplinkAsync_def altservers_findUplinkAsync_def)
  then obtain t1 where "findUplinkAsync (set_img (\<lambda>_. i) t) = Some t1" by blast
  then show ?thesis by (cases complete) (simp_all add: rtt_step_def Let_def ic ex_bool_eq)
next
  case False
  then have "rttTestResult (ul (us t)) = RTT_DOCHANGE" using assms by (simp add: rtt_inv_def)
  then show ?thesis by (simp add: rtt_step_def Let_def)
qed

section \<open>Examples\<close>

text \<open>An iteration in which the connection breaks.\<close>

definition broken_iteration :: iter_env where
  "broken_iteration =
     \<lparr>it_shutdown0 = False, it_shutdown1 = False, it_shutdown2 = False, it_poll = Polled NoEvent ErrorEvent,
      it_now = \<lparr>tv_sec = 50, tv_nsec = 0\<rparr>, it_fail = \<lparr>tv_sec = 50, tv_nsec = 0\<rparr>, it_pclmul = False, it_align = 0, it_junk = [],
      it_so = [], it_si = [], it_crcfd = -1, it_wr1 = 0, it_wr2 = 0, it_resend = [], it_repl1 = [], it_send = [], it_rx = [],
      it_data = [], it_repl2 = [], it_keepalive = False, it_repl3 = []\<rparr>"

lemma sample_thread_inv: "thread_inv sample_thread"
proof -
  have "IMGSIZE_TO_MAPBYTES 40960 = 2" by (simp add: mapbytes_eq)
  then show ?thesis
    using sample_uplink_inv
    by (simp add: thread_inv_def repl_inv_def rtt_inv_def sample_thread_def sample_uplink_def uplink_fresh_def
        uplink_inv_def sample_image_def image_wf_def)
qed

lemma broken_iteration_runs: "\<exists>go t'. mainloop_body sample_config broken_iteration sample_thread = Some (go, t')"
proof -
  let ?e = broken_iteration and ?t = sample_thread
  have f: "it_poll ?e = Polled NoEvent ErrorEvent" "\<not> it_shutdown0 ?e" "\<not> it_shutdown1 ?e" "it_now ?e = \<lparr>tv_sec = 50, tv_nsec = 0\<rparr>"
    by (simp_all add: broken_iteration_def)
  have t: "\<not> shutdown (ul (us ?t))" "rttTestResult (ul (us ?t)) \<noteq> RTT_DOCHANGE" "lastKeepalive ?t = \<lparr>tv_sec = 50, tv_nsec = 0\<rparr>"
    by (simp_all add: sample_thread_def sample_uplink_def uplink_fresh_def)
  obtain t1 where t1: "connectionFailed sample_config (it_fail ?e) True ?t = Some t1" using connectionFailed_total by blast
  have "lastKeepalive t1 = lastKeepalive ?t"
    using t1 by (auto simp: connectionFailed_def findUplinkAsync_def Let_def split: if_splits option.splits)
  then have keep: "keepalive_step sample_config ?e t1 = Some (True, t1)"
    by (simp add: keepalive_step_def t f timing_diff_def SERVER_UPLINK_KEEPALIVE_INTERVAL_def)
  have "rtt_inv (ul (us t1))"
    using connectionFailed_advances [OF t1] sample_thread_inv by (simp add: advances_def thread_inv_def)
  then obtain go t2 where "rtt_step sample_config ?e t1 = Some (go, t2)" using rtt_step_total by fastforce
  then show ?thesis by (simp add: mainloop_body_def f t switch_server_def signal_step_def socket_step_def t1 keep)
qed

lemma broken_iteration_honest: "honest_at cfg P broken_iteration t"
  by (simp add: honest_at_def at_receive_def broken_iteration_def)

lemma sample_room: "unat (queueId (ul (us sample_thread))) + 3 * window sample_config + 4 < 2 ^ 64"
  by (simp add: sample_thread_def sample_uplink_def window_def sample_config_def)

lemma sample_sysstep: "\<exists>go t'. mainloop_body sample_config broken_iteration sample_thread = Some (go, t')
    \<and> (sysstep sample_config P)\<^sup>*\<^sup>* (sample_thread, acc) (t', acc)"
  using broken_iteration_runs sysstep.iterate [OF _ broken_iteration_honest sample_room] by blast

section \<open>Properties\<close>

text \<open>
  C15: The uplink thread refines the request machine. Iterations of the main loop, requests and departures of clients and
  measurements by other threads, in any order, are runs of the machine; so what holds for the machine (queue invariant,
  every client answered once, cache coherence) holds for the thread. The invariants of the thread are kept.
\<close>

theorem thread_refines_machine:
  assumes "(sysstep cfg P)\<^sup>*\<^sup>* (t, acc) (t', acc')" "thread_inv t"
  shows "(ustep cfg P)\<^sup>*\<^sup>* (us t, acc) (us t', acc') \<and> thread_inv t'"
  using syssteps_sound [OF assms] by simp

theorem thread_refines_machine_witness:
  "\<exists>go t'. mainloop_body sample_config broken_iteration sample_thread = Some (go, t') \<and> thread_inv t'
     \<and> (ustep sample_config (\<lambda>_ _. True))\<^sup>*\<^sup>* (us sample_thread, [sample_client]) (us t', [sample_client])"
proof -
  obtain go t' where r: "mainloop_body sample_config broken_iteration sample_thread = Some (go, t')"
    and s: "(sysstep sample_config (\<lambda>_ _. True))\<^sup>*\<^sup>* (sample_thread, [sample_client]) (t', [sample_client])" using sample_sysstep by blast
  show ?thesis using thread_refines_machine [OF s sample_thread_inv] r by blast
qed

text \<open>
  C16: When the thread ends, nobody is left waiting: after the label \<^verbatim>\<open>cleanup\<close> every client whose request was accepted
  has been called back exactly once.
\<close>

theorem thread_end_answers_everyone:
  assumes "(sysstep cfg P)\<^sup>*\<^sup>* (t, acc) (t', acc')" "thread_inv t" "balanced (us t, acc)" "uplinkref (img (us t)) = Some (me t)"
  shows "mset (map client_key acc') = mset (map call_key (calls (us (uplink_cleanup t')))) \<and> queue (ul (us (uplink_cleanup t'))) = []
    \<and> uplinkref (img (us (uplink_cleanup t'))) = None"
proof -
  note s = syssteps_sound [OF assms(1,2)]
  have "uplink_inv (us t)" using assms(2) by (simp add: thread_inv_def repl_inv_def)
  then have "balanced (us t', acc')" using balanced_usteps [of cfg P "(us t, acc)" "(us t', acc')"] s assms(3) by simp
  then have bal: "mset (map client_key acc') = mset (map call_key (calls (cancelAllRequests (us t'))))"
    using calls_cancel(2) [of "us t'"] by (simp add: balanced_def comp_def)
  have "uplinkref (img (us t')) = Some (me t')" using s assms(4) by simp
  then show ?thesis using bal by (simp add: uplink_cleanup_def cancelAllRequests_def Let_def)
qed

theorem thread_end_answers_everyone_witness:
  "\<exists>go t'. mainloop_body sample_config broken_iteration sample_thread = Some (go, t')
     \<and> mset (map client_key [sample_client]) = mset (map call_key (calls (us (uplink_cleanup t'))))"
proof -
  obtain go t' where r: "mainloop_body sample_config broken_iteration sample_thread = Some (go, t')"
    and s: "(sysstep sample_config (\<lambda>_ _. True))\<^sup>*\<^sup>* (sample_thread, [sample_client]) (t', [sample_client])" using sample_sysstep by blast
  have "balanced (us sample_thread, [sample_client])" "uplinkref (img (us sample_thread)) = Some (me sample_thread)"
    by (simp_all add: balanced_def sample_thread_def sample_uplink_def pending_def sample_entry_def)
  then show ?thesis using thread_end_answers_everyone [OF s sample_thread_inv] r by blast
qed

text \<open>
  C18: An iteration of the main loop neither leaks nor doubly closes a connection: the descriptors closed so far and those
  of the current and the better connection are, taken together, the same before and after.
\<close>

theorem iteration_descriptors:
  assumes "mainloop_body cfg e t = Some (go, t')" "thread_inv t" "honest_at cfg P e t"
    "unat (queueId (ul (us t))) + 3 * window cfg + 4 < 2 ^ 64"
  shows "mset (closed t') + mset (owned (us t')) = mset (closed t) + mset (owned (us t))"
  using mainloop_body_advances [OF assms(1) _ assms(3,4)] assms(2) by (simp add: advances_def thread_inv_def descriptors_def)

theorem iteration_descriptors_witness:
  "\<exists>go t'. mainloop_body sample_config broken_iteration sample_thread = Some (go, t')
     \<and> mset (closed t') + mset (owned (us t')) = {#3#}"
proof -
  obtain go t' where r: "mainloop_body sample_config broken_iteration sample_thread = Some (go, t')"
    using broken_iteration_runs by blast
  have "closed sample_thread = []" "owned (us sample_thread) = [3]"
    by (simp_all add: sample_thread_def sample_uplink_def owned_def)
  then show ?thesis
    using iteration_descriptors [OF r sample_thread_inv broken_iteration_honest sample_room] r by auto
qed

end
