(* ===== verification/RttProtocol.thy ===== *)
theory RttProtocol
  imports UplinkSystem
begin

text \<open>
  The uplink thread and the measurements that run beside it, at the granularity of their critical sections. The thread
  looks at \<^verbatim>\<open>rttTestResult\<close> and \<^verbatim>\<open>better\<close>, lets go of \<^verbatim>\<open>rttLock\<close> (or never takes it) and acts later; a measurement is only
  queued when it is asked for, and starts and ends at any time. Which of the assertions around measurements hold in every
  interleaving, and which one does not.
\<close>

section \<open>Sections\<close>

text \<open>The section in which the thread takes over the better connection; \<open>None\<close> is its assertion.\<close>

definition switch_section :: "dnbd3_uplink_t \<Rightarrow> dnbd3_uplink_t option" where
  "switch_section u =
     (if rttTestResult u \<noteq> RTT_DOCHANGE then None
      else Some (u\<lparr>rttTestResult := RTT_IDLE, current := better u, better := (better u)\<lparr>conn_fd := -1\<rparr>, cycleDetected := False\<rparr>))"

text \<open>The section of \<^verbatim>\<open>connectionFailed\<close> that gives up the connection, and the one that looks whether a new one is under way.\<close>

definition drop_current :: "dnbd3_uplink_t \<Rightarrow> dnbd3_uplink_t" where
  "drop_current u = u\<lparr>current := (current u)\<lparr>conn_fd := -1\<rparr>\<rparr>"

definition bail_section :: "dnbd3_uplink_t \<Rightarrow> bool" where
  "bail_section u \<longleftrightarrow> rttTestResult u = RTT_INPROGRESS \<or> conn_fd (better u) \<noteq> -1"

text \<open>The exchange that takes note of an unsuccessful measurement.\<close>

definition reset_unreachable :: "dnbd3_uplink_t \<Rightarrow> dnbd3_uplink_t" where
  "reset_unreachable u = u\<lparr>rttTestResult := RTT_IDLE, cycleDetected := (if conn_fd (current u) = -1 then False else cycleDetected u)\<rparr>"

section \<open>Interleavings\<close>

text \<open>
  Where the uplink thread is: it has seen that a switch is in order, it has given up its connection, or it is about to
  call \<^verbatim>\<open>altservers_findUplinkAsync\<close>. Beside the uplink the state counts the measurements that wait for a thread and those
  that run. The measurement \<^verbatim>\<open>uplink_mainloop\<close> makes itself when it starts is one that waits.
\<close>

datatype thread_pc = Elsewhere | Sees_change | Failing | Asking

type_synonym rtt_config = "dnbd3_uplink_t \<times> thread_pc \<times> nat \<times> nat"

inductive rstep :: "rtt_config \<Rightarrow> rtt_config \<Rightarrow> bool" where
  sees_change: "rttTestResult u = RTT_DOCHANGE \<Longrightarrow> rstep (u, Elsewhere, q, w) (u, Sees_change, q, w)"
| switches: "switch_section u = Some u' \<Longrightarrow> rstep (u, Sees_change, q, w) (u', Elsewhere, q, w)"
| drops: "conn_fd (current u) \<noteq> -1 \<Longrightarrow> rstep (u, Elsewhere, q, w) (drop_current u, Failing, q, w)"
| bails: "rstep (u, Failing, q, w) (u, if bail_section u then Elsewhere else Asking, q, w)"
| due: "rttTestResult u \<in> {RTT_IDLE, RTT_DONTCHANGE} \<Longrightarrow> rstep (u, Elsewhere, q, w) (u, Asking, q, w)"
| asks: "altservers_findUplinkAsync numAlts self u = Some queued
    \<Longrightarrow> rstep (u, Asking, q, w) (u, Elsewhere, if queued then Suc q else q, w)"
| resets: "rttTestResult u = RTT_NOT_REACHABLE \<Longrightarrow> rstep (u, Elsewhere, q, w) (reset_unreachable u, Elsewhere, q, w)"
| skips: "rstep (u, pc, Suc q, w) (u, pc, q, w)"
| starts: "check_begin u = Some (go, u') \<Longrightarrow> rstep (u, pc, Suc q, w) (u', pc, q, if go then Suc w else w)"
| nothing_to_compare: "rstep (u, pc, q, Suc w) (u\<lparr>rttTestResult := RTT_DONTCHANGE\<rparr>, pc, q, w)"
| image_gone: "rstep (u, pc, q, Suc w) (u\<lparr>rttTestResult := RTT_NOT_REACHABLE\<rparr>, pc, q, w)"
| ends: "check_finish panic c = (u', fds, sig) \<Longrightarrow> rstep (ck_ul c, pc, q, Suc w) (u', pc, q, w)"
| others: "current u' = current u \<Longrightarrow> better u' = better u \<Longrightarrow> rttTestResult u' = rttTestResult u
    \<Longrightarrow> rstep (u, pc, q, w) (u', pc, q, w)"

text \<open>
  At most one measurement runs, exactly while \<^verbatim>\<open>rttTestResult\<close> says so; a better connection waits exactly while a switch is
  in order; and only the uplink thread takes back that order.
\<close>

fun protocol_inv :: "rtt_config \<Rightarrow> bool" where
  "protocol_inv (u, pc, q, w) \<longleftrightarrow> w \<le> 1 \<and> (w = 1 \<longleftrightarrow> rttTestResult u = RTT_INPROGRESS) \<and> rtt_inv u
     \<and> (pc = Sees_change \<longrightarrow> rttTestResult u = RTT_DOCHANGE)"

lemma check_finish_rtt:
  assumes "check_finish panic c = (u', fds, sig)" "conn_fd (better (ck_ul c)) = -1"
  shows "rtt_inv u'" "rttTestResult u' \<noteq> RTT_INPROGRESS"
  using check_finish_kept(2,4-6) [OF assms(1)] assms(2) by (cases sig; simp add: rtt_inv_def)+

lemma rstep_keeps:
  assumes "rstep x y" "protocol_inv x"
  shows "protocol_inv y"
  using assms
proof (induction rule: rstep.induct)
  case (switches u u' q w)
  then show ?case by (auto simp: switch_section_def rtt_inv_def split: if_splits)
next
  case (starts u go u' pc q w)
  then show ?case by (auto simp: check_begin_def rtt_inv_def split: if_splits)
next
  case (ends panic c u' fds sig pc q w)
  then have "rttTestResult (ck_ul c) = RTT_INPROGRESS" "w = 0" "pc \<noteq> Sees_change" "conn_fd (better (ck_ul c)) = -1"
    by (auto simp: rtt_inv_def)
  then show ?case using check_finish_rtt [OF ends(1)] by simp
qed (auto simp: rtt_inv_def drop_current_def reset_unreachable_def)

lemma rsteps_keep: "rstep\<^sup>*\<^sup>* x y \<Longrightarrow> protocol_inv x \<Longrightarrow> protocol_inv y"
  by (induction rule: rtranclp_induct) (auto intro: rstep_keeps)

section \<open>The functions are runs of their sections\<close>

text \<open>
  Run without interference, \<^verbatim>\<open>connectionFailed\<close>, the switch of the server and a whole measurement are sequences of these
  steps.
\<close>

lemma connectionFailed_parts:
  assumes "conn_fd (current (ul (us t))) \<noteq> -1"
  obtains t3 where "connectionFailed cfg now True t = (if bail_section (ul (us t3)) then Some t3 else findUplinkAsync t3)"
    "current (ul (us t3)) = current (drop_current (ul (us t)))" "better (ul (us t3)) = better (ul (us t))"
    "rttTestResult (ul (us t3)) = rttTestResult (ul (us t))" "checksQueued t3 = checksQueued t"
proof -
  let ?u = "ul (us t)"
  let ?t3 = "set_ul (\<lambda>u. u\<lparr>current := (current u)\<lparr>conn_fd := -1\<rparr>,
      nextReplicationIndex := (if backgroundReplication cfg = BGR_FULL \<and> nextReplicationIndex u = -1 then 0 else nextReplicationIndex u)\<rparr>)
    (set_img (set_problem_uplink True) (t\<lparr>alts := altservers_serverFailed now (nat (conn_index (current ?u))) (alts t),
      closed := closed t @ [conn_fd (current ?u)]\<rparr>))"
  have "bail_section (ul (us ?t3)) \<longleftrightarrow> rttTestResult ?u = RTT_INPROGRESS \<or> conn_fd (better ?u) \<noteq> -1" by (simp add: bail_section_def)
  then have "connectionFailed cfg now True t = (if bail_section (ul (us ?t3)) then Some ?t3 else findUplinkAsync ?t3)"
    using assms by (simp only: connectionFailed_def Let_def if_False not_True_eq_False)
  then show thesis by (rule that) (simp_all add: drop_current_def)
qed

lemma connectionFailed_is_rsteps:
  assumes "connectionFailed cfg now True t = Some t'"
  shows "rstep\<^sup>*\<^sup>* (ul (us t), Elsewhere, q, w) (ul (us t'), Elsewhere, q + (checksQueued t' - checksQueued t), w)"
proof (cases "conn_fd (current (ul (us t))) = -1")
  case True
  then show ?thesis using assms by (simp add: connectionFailed_def)
next
  case False
  obtain t3 where t3: "connectionFailed cfg now True t = (if bail_section (ul (us t3)) then Some t3 else findUplinkAsync t3)"
    "current (ul (us t3)) = current (drop_current (ul (us t)))" "better (ul (us t3)) = better (ul (us t))"
    "rttTestResult (ul (us t3)) = rttTestResult (ul (us t))" "checksQueued t3 = checksQueued t"
    using connectionFailed_parts [OF False] .
  let ?u = "ul (us t)" and ?u3 = "ul (us t3)"
  have "rstep (?u, Elsewhere, q, w) (drop_current ?u, Failing, q, w)" using False by (rule rstep.drops)
  moreover have "rstep (drop_current ?u, Failing, q, w) (?u3, Failing, q, w)"
    by (rule rstep.others) (use t3 in \<open>simp_all add: drop_current_def\<close>)
  moreover have "rstep (?u3, Failing, q, w) (?u3, if bail_section ?u3 then Elsewhere else Asking, q, w)" by (rule rstep.bails)
  ultimately have to3: "rstep\<^sup>*\<^sup>* (?u, Elsewhere, q, w) (?u3, if bail_section ?u3 then Elsewhere else Asking, q, w)"
    by (meson converse_rtranclp_into_rtranclp rtranclp.rtrancl_refl)
  show ?thesis
  proof (cases "bail_section ?u3")
    case True
    then show ?thesis using assms t3(1,5) to3 by simp
  next
    case asking: False
    then obtain queued numAlts self where a: "altservers_findUplinkAsync numAlts self ?u3 = Some queued"
        "t' = (if queued then t3\<lparr>checksQueued := checksQueued t3 + 1\<rparr> else t3)"
      using assms t3(1) by (auto simp: findUplinkAsync_def split: option.splits)
    have "rstep (?u3, Asking, q, w) (?u3, Elsewhere, if queued then Suc q else q, w)" by (rule rstep.asks [OF a(1)])
    moreover have "rstep\<^sup>*\<^sup>* (?u, Elsewhere, q, w) (?u3, Asking, q, w)" using to3 asking by simp
    moreover have "ul (us t') = ?u3" "q + (checksQueued t' - checksQueued t) = (if queued then Suc q else q)" using a(2) t3(5) by auto
    ultimately show ?thesis by (simp add: rtranclp.rtrancl_into_rtrancl)
  qed
qed

lemma take_better_is_rsteps:
  assumes "rttTestResult (ul (us t)) = RTT_DOCHANGE"
  shows "rstep\<^sup>*\<^sup>* (ul (us t), Elsewhere, q, w) (ul (us (take_better t)), Elsewhere, q, w)"
proof -
  let ?u = "ul (us t)"
  obtain u1 where u1: "switch_section ?u = Some u1" using assms by (simp add: switch_section_def)
  have "rstep (?u, Elsewhere, q, w) (?u, Sees_change, q, w)" by (rule rstep.sees_change [OF assms])
  moreover have "rstep (?u, Sees_change, q, w) (u1, Elsewhere, q, w)" by (rule rstep.switches [OF u1])
  moreover have "rstep (u1, Elsewhere, q, w) (ul (us (take_better t)), Elsewhere, q, w)"
    by (rule rstep.others) (use u1 assms in \<open>auto simp: switch_section_def take_better_def Let_def\<close>)
  ultimately show ?thesis by (simp add: converse_rtranclp_into_rtranclp)
qed

lemma rtt_self: "rttTestResult u = r \<Longrightarrow> u\<lparr>rttTestResult := r\<rparr> = u"
  by (auto intro: dnbd3_uplink_t.equality)

lemma findUplink_is_rsteps:
  assumes "altservers_findUplinkInternal cfg gs now rs there envs i u st = Some (u', st', fds, sig)" "conn_fd (better u) = -1"
  shows "rstep\<^sup>*\<^sup>* (u, pc, Suc q, w) (u', pc, q, w)"
  using assms
proof (cases rule: findUplink_cases)
  case 1
  then show ?thesis using rstep.skips [of u pc q w] by auto
next
  case 2
  let ?u1 = "u\<lparr>rttTestResult := RTT_INPROGRESS\<rparr>"
  obtain go where bg: "check_begin u = Some (go, ?u1)" "go"
    using assms 2(1,2) by (auto simp: altservers_findUplinkInternal_def check_begin_def split: if_splits)
  with bg have start: "rstep (u, pc, Suc q, w) (?u1, pc, q, Suc w)" using rstep.starts [OF bg(1), of pc q w] by simp
  from 2(3) show ?thesis
  proof (cases rule: check_run_cases)
    case 1
    let ?u2 = "u'\<lparr>rttTestResult := RTT_INPROGRESS\<rparr>"
    have "rstep (?u1, pc, q, Suc w) (?u2, pc, q, Suc w)" by (rule rstep.others) (use 1 in auto)
    moreover have "rstep (?u2, pc, q, Suc w) (u', pc, q, w)"
      using 1(3) rstep.nothing_to_compare [of ?u2 pc q w] rstep.image_gone [of ?u2 pc q w]
      by (cases "rttTestResult u' = RTT_DONTCHANGE") (auto simp: rtt_self)
    ultimately show ?thesis using start by (simp add: converse_rtranclp_into_rtranclp)
  next
    case (2 off len servers c0 c)
    have fr: "check_frame c0 c" using check_servers_sound [OF 2(5)] by simp
    let ?v = "(ck_ul c)\<lparr>rttTestResult := RTT_INPROGRESS\<rparr>"
    have "rstep (?u1, pc, q, Suc w) (?v, pc, q, Suc w)" by (rule rstep.others) (use fr 2(1,2) in \<open>auto simp: check_frame_def\<close>)
    moreover have "check_finish (conn_fd (current ?u1) = -1) (c\<lparr>ck_ul := ?v\<rparr>) = (u', fds, sig)"
      using 2(6) by (auto simp: check_finish_def Let_def split: if_splits)
    then have "rstep (?v, pc, q, Suc w) (u', pc, q, w)" using rstep.ends [of _ "c\<lparr>ck_ul := ?v\<rparr>"] by fastforce
    ultimately show ?thesis using start by (simp add: converse_rtranclp_into_rtranclp)
  qed
qed

section \<open>Properties\<close>

text \<open>A measurement that waits can run to its end while the thread is about to ask for one.\<close>

lemma measurement_overtakes:
  assumes "rttTestResult u \<noteq> RTT_INPROGRESS" "rtt_inv u" "conn_fd (better u) = -1" "fd \<noteq> -1"
  shows "rstep\<^sup>*\<^sup>* (u, pc, Suc q, w) (u\<lparr>better := \<lparr>conn_fd = fd, conn_version = v, conn_index = j\<rparr>, rttTestResult := RTT_DOCHANGE\<rparr>, pc, q, w)"
proof -
  let ?u1 = "u\<lparr>rttTestResult := RTT_INPROGRESS\<rparr>"
  let ?c = "\<lparr>ck_ul = ?u1, ck_alts = altservers_empty, ck_best = \<lparr>conn_fd = fd, conn_version = v, conn_index = j\<rparr>,
     ck_bestRtt = 0, ck_currentRtt = RTT_UNREACHABLE, ck_closed = []\<rparr>"
  have "check_begin u = Some (True, ?u1)" using assms by (auto simp: check_begin_def rtt_inv_def)
  from rstep.starts [OF this, of pc q w] have 1: "rstep (u, pc, Suc q, w) (?u1, pc, q, Suc w)" by simp
  have "check_finish True ?c = (u\<lparr>better := ck_best ?c, rttTestResult := RTT_DOCHANGE\<rparr>, [], True)"
    using assms(4) by (simp add: check_finish_def)
  from rstep.ends [OF this, of pc q w] have 2: "rstep (?u1, pc, q, Suc w) (u\<lparr>better := ck_best ?c, rttTestResult := RTT_DOCHANGE\<rparr>, pc, q, w)"
    by simp
  show ?thesis using 1 2 by (simp add: converse_rtranclp_into_rtranclp)
qed

text \<open>
  C17: Of the four assertions around measurements three hold in every interleaving of the uplink thread with any number of
  queued measurements: the one a measurement starts with, the one that it is still the running one when it begins to
  test servers (at most one runs, exactly while \<^verbatim>\<open>rttTestResult\<close> says so), and the one the thread makes when it switches.
  The fourth, in \<^verbatim>\<open>altservers_findUplinkAsync\<close>, does not: whenever the thread is about to call it without a connection while
  an earlier measurement is still queued, that measurement can end with a better server first, and the assertion that no
  switch is waiting fails.
\<close>

theorem measurement_assertions:
  assumes "rstep\<^sup>*\<^sup>* (u0, Elsewhere, q0, 0) (u, pc, q, w)" "rtt_inv u0" "rttTestResult u0 \<noteq> RTT_INPROGRESS"
  shows "check_begin u \<noteq> None \<and> w \<le> 1 \<and> (w = 1 \<longleftrightarrow> rttTestResult u = RTT_INPROGRESS)
    \<and> (pc = Sees_change \<longrightarrow> switch_section u \<noteq> None)
    \<and> (pc = Asking \<and> 0 < q \<and> \<not> shutdown u \<and> conn_fd (current u) = -1 \<and> w = 0 \<longrightarrow>
        (\<exists>u' q'. rstep\<^sup>*\<^sup>* (u, Asking, q, w) (u', Asking, q', 0) \<and> altservers_findUplinkAsync numAlts self u' = None))"
proof -
  have inv: "protocol_inv (u, pc, q, w)" using rsteps_keep [OF assms(1)] assms(2,3) by simp
  have "\<exists>u' q'. rstep\<^sup>*\<^sup>* (u, Asking, q, w) (u', Asking, q', 0) \<and> altservers_findUplinkAsync numAlts self u' = None"
    if race: "0 < q" "\<not> shutdown u" "conn_fd (current u) = -1" "w = 0"
  proof (cases "conn_fd (better u) = -1")
    case True
    let ?u = "u\<lparr>better := \<lparr>conn_fd = 9, conn_version = 3, conn_index = 0\<rparr>, rttTestResult := RTT_DOCHANGE\<rparr>"
    have "rstep\<^sup>*\<^sup>* (u, Asking, q, w) (?u, Asking, q - 1, 0)"
      using measurement_overtakes [of u 9 Asking "q - 1" w 3 0] inv True race by simp
    moreover have "altservers_findUplinkAsync numAlts self ?u = None" using race by (simp add: altservers_findUplinkAsync_def)
    ultimately show ?thesis by blast
  next
    case False
    then have "altservers_findUplinkAsync numAlts self u = None" using race by (simp add: altservers_findUplinkAsync_def)
    then show ?thesis using race by blast
  qed
  then show ?thesis using inv by (auto simp: check_begin_def switch_section_def rtt_inv_def)
qed

text \<open>A thread without a connection asks for a measurement, and asks again in its next iteration, before the first one runs.\<close>

lemma asks_twice: "rstep\<^sup>*\<^sup>* (lost_uplink, Elsewhere, 0, 0) (lost_uplink, Asking, 1, 0)"
proof -
  have u: "rttTestResult lost_uplink = RTT_IDLE" "altservers_findUplinkAsync 2 True lost_uplink = Some True"
    by (simp_all add: lost_uplink_def uplink_fresh_def altservers_findUplinkAsync_def)
  have due: "rstep (lost_uplink, Elsewhere, q, 0) (lost_uplink, Asking, q, 0)" for q by (rule rstep.due) (simp add: u)
  moreover have "rstep (lost_uplink, Asking, 0, 0) (lost_uplink, Elsewhere, 1, 0)" using rstep.asks [OF u(2), of 0 0] by simp
  ultimately show ?thesis by (meson converse_rtranclp_into_rtranclp rtranclp.rtrancl_refl)
qed

theorem measurement_assertions_witness:
  "\<exists>u' q'. rstep\<^sup>*\<^sup>* (lost_uplink, Elsewhere, 0, 0) (u', Asking, q', 0) \<and> altservers_findUplinkAsync 2 True u' = None"
proof -
  have u: "rtt_inv lost_uplink" "rttTestResult lost_uplink \<noteq> RTT_INPROGRESS" "\<not> shutdown lost_uplink" "conn_fd (current lost_uplink) = -1"
    by (simp_all add: lost_uplink_def uplink_fresh_def rtt_inv_def)
  obtain u' q' where "rstep\<^sup>*\<^sup>* (lost_uplink, Asking, 1, 0) (u', Asking, q', 0)" "altservers_findUplinkAsync 2 True u' = None"
    using measurement_assertions [OF asks_twice u(1,2), of 2 True] u(3,4) by auto
  then show ?thesis using asks_twice by (meson rtranclp_trans)
qed

end
