(* ===== verification/CrcBig.thy ===== *)
theory CrcBig
  imports CrcProof
begin

text \<open>
  The variant of \<^verbatim>\<open>crc32\<close> for big-endian machines keeps the register with its bytes reversed; its tables are the
  little-endian ones, reversed entry by entry.
\<close>

abbreviation bswap :: "u32 \<Rightarrow> u32" where
  "bswap \<equiv> net_order_32_be"

lemmas bswap_bits = bit_or_iff bit_push_bit_iff bit_drop_bit_eq bit_and_iff bit_mask_iff

lemma bit_bswap: "i < 32 \<Longrightarrow> bit (bswap a) i \<longleftrightarrow> bit a ((3 - i div 8) * 8 + i mod 8)"
proof -
  assume "i < 32"
  have m: "(0xFF :: u32) = mask 8" "(0xFF00 :: u32) = push_bit 8 (mask 8)" "(0xFF0000 :: u32) = push_bit 16 (mask 8)"
    "(0xFF000000 :: u32) = push_bit 24 (mask 8)" by (simp_all add: mask_eq_exp_minus_1)
  consider "i div 8 = 0" "i < 8" | "i div 8 = 1" "8 \<le> i" "i < 16" | "i div 8 = 2" "16 \<le> i" "i < 24" | "i div 8 = 3" "24 \<le> i"
    using \<open>i < 32\<close> by linarith
  then show ?thesis
  proof cases
    case 1
    then show ?thesis by (auto simp: net_order_32_be_def m bswap_bits add.commute simp del: push_bit_mask_eq)
  next
    case 2
    then have "i mod 8 = i - 8" by (simp add: modulo_nat_def)
    then show ?thesis using 2 by (auto simp: net_order_32_be_def m bswap_bits add.commute simp del: push_bit_mask_eq)
  next
    case 3
    then have "i mod 8 = i - 16" by (simp add: modulo_nat_def)
    then show ?thesis using 3 by (auto simp: net_order_32_be_def m bswap_bits add.commute simp del: push_bit_mask_eq)
  next
    case 4
    then have "i mod 8 = i - 24" by (simp add: modulo_nat_def)
    then show ?thesis using 4 \<open>i < 32\<close> by (auto simp: net_order_32_be_def m bswap_bits add.commute simp del: push_bit_mask_eq)
  qed
qed

lemma bswap_xor: "bswap (x XOR y) = bswap x XOR bswap y"
  by (rule bit_word_eqI) (simp add: bit_bswap bit_xor_iff)

lemma bswap_not: "bswap (NOT x) = NOT (bswap x)"
  by (rule bit_word_eqI) (auto simp: bit_bswap bit_not_iff)

lemma bswap_bswap [simp]: "bswap (bswap x) = x"
proof (rule bit_word_eqI)
  fix i assume i: "i < LENGTH(32)"
  then have "i div 8 \<le> 3" by auto
  then have "(3 - i div 8) * 8 + i mod 8 < 32" "((3 - i div 8) * 8 + i mod 8) div 8 = 3 - i div 8"
    "((3 - i div 8) * 8 + i mod 8) mod 8 = i mod 8" by auto
  then show "bit (bswap (bswap x)) i = bit x i"
    using i \<open>i div 8 \<le> 3\<close> by (simp add: bit_bswap mult.commute)
qed

section \<open>Tables\<close>

lemma bswap_basis:
  "map bswap [0xedb88320, 0x76dc4190, 0x3b6e20c8, 0x1db71064, 0x0edb8832, 0x076dc419, 0xee0e612c, 0x77073096] = [0x2083b8ed, 0x9041dc76, 0xc8206e3b, 0x6410b71d, 0x3288db0e, 0x19c46d07, 0x2c610eee, 0x96300777]"
  "map bswap [0x3b83984b, 0xf0794f05, 0x958424a2, 0x4ac21251, 0xc8d98a08, 0x646cc504, 0x32366282, 0x191b3141] = [0x4b98833b, 0x054f79f0, 0xa2248495, 0x5112c24a, 0x088ad9c8, 0x04c56c64, 0x82623632, 0x41311b19]"
  "map bswap [0xe1351b80, 0x709a8dc0, 0x384d46e0, 0x1c26a370, 0x0e1351b8, 0x0709a8dc, 0x0384d46e, 0x01c26a37] = [0x801b35e1, 0xc08d9a70, 0xe0464d38, 0x70a3261c, 0xb851130e, 0xdca80907, 0x6ed48403, 0x376ac201]"
  "map bswap [0xed59b63b, 0x9b14583d, 0xa032af3e, 0x5019579f, 0xc5b428ef, 0x8f629757, 0xaa09c88b, 0xb8bc6765] = [0x3bb659ed, 0x3d58149b, 0x3eaf32a0, 0x9f571950, 0xef28b4c5, 0x5797628f, 0x8bc809aa, 0x6567bcb8]"
  by (simp_all add: net_order_32_be_def)

lemma table_correct_swapped:
  assumes "xor_check [(vs', 0)] T" "map (crc_bit ^^ n) [128, 64, 32, 16, 8, 4, 2, 1] = vs" "map bswap vs = vs'" "i < 256"
  shows "T ! i = bswap ((crc_bit ^^ n) (word_of_nat i))"
proof -
  have "bswap ((crc_bit ^^ n) (x XOR y)) = bswap ((crc_bit ^^ n) x) XOR bswap ((crc_bit ^^ n) y)" for x y
    by (simp add: crc_bits_xor bswap_xor)
  moreover have "map (\<lambda>x. bswap ((crc_bit ^^ n) x)) [128, 64, 32, 16, 8, 4, 2, 1] = vs'"
    using assms(2,3) by auto
  ultimately show ?thesis
    using table_correct [of "\<lambda>x. bswap ((crc_bit ^^ n) x)", OF _ assms(1)] assms(4) by simp
qed

lemma table_entries_be:
  assumes "i < 256"
  shows "crc_table4 ! i = bswap (crc_table0 ! i)" "crc_table5 ! i = bswap (crc_table1 ! i)"
    "crc_table6 ! i = bswap (crc_table2 ! i)" "crc_table7 ! i = bswap (crc_table3 ! i)"
proof -
  note b1 = basis_chain [OF table0_basis table1_basis]
  note b2 = basis_chain [OF b1 table2_basis]
  note b3 = basis_chain [OF b2 table3_basis]
  note e = table_entries [OF assms]
  show "crc_table4 ! i = bswap (crc_table0 ! i)"
    unfolding e by (rule table_correct_swapped [OF table4_check table0_basis bswap_basis(1) assms])
  show "crc_table5 ! i = bswap (crc_table1 ! i)"
    unfolding e using table_correct_swapped [OF table5_check b1 bswap_basis(2) assms] by (simp del: funpow.simps)
  show "crc_table6 ! i = bswap (crc_table2 ! i)"
    unfolding e using table_correct_swapped [OF table6_check b2 bswap_basis(3) assms] by (simp del: funpow.simps)
  show "crc_table7 ! i = bswap (crc_table3 ! i)"
    unfolding e using table_correct_swapped [OF table7_check b3 bswap_basis(4) assms] by (simp del: funpow.simps)
qed

section \<open>Steps on the reversed register\<close>

lemma bswap_byte:
  assumes "k \<le> 3"
  shows "drop_bit (k * 8) (bswap c) AND 0xff = drop_bit ((3 - k) * 8) c AND 0xff"
proof -
  have m: "(0xff :: u32) = mask 8" by (simp add: mask_eq_exp_minus_1)
  show ?thesis
    unfolding m
  proof (rule bit_word_eqI)
    fix i assume "i < LENGTH(32)"
    show "bit (drop_bit (k * 8) (bswap c) AND mask 8) i = bit (drop_bit ((3 - k) * 8) c AND mask 8) i"
    proof (cases "i < 8")
      case True
      then have "(k * 8 + i) div 8 = k" "(k * 8 + i) mod 8 = i" by simp_all
      then show ?thesis using True assms by (simp add: bit_drop_bit_eq bit_bswap bit_and_iff bit_mask_iff)
    qed (simp add: bit_and_iff bit_mask_iff)
  qed
qed

lemma top_byte: "drop_bit 24 (c :: u32) AND 0xff = drop_bit 24 c"
proof -
  have "(0xff :: u32) = mask 8" by (simp add: mask_eq_exp_minus_1)
  then show ?thesis by (intro bit_word_eqI) (auto simp only: bit_simps, auto dest: bit_imp_le_length)
qed

lemma bswap_bytes:
  "drop_bit 24 (bswap c) = c AND 0xff" "bswap c AND 0xff = drop_bit 24 c"
  "drop_bit 8 (bswap c) AND 0xff = drop_bit 16 c AND 0xff" "drop_bit 16 (bswap c) AND 0xff = drop_bit 8 c AND 0xff"
  using bswap_byte [of 3 c] bswap_byte [of 0 c] bswap_byte [of 1 c] bswap_byte [of 2 c] by (simp_all add: top_byte)

lemma bswap_shift: "push_bit 8 (bswap c) = bswap (drop_bit 8 c)"
proof (rule bit_word_eqI)
  fix i assume i: "i < LENGTH(32)"
  show "bit (push_bit 8 (bswap c)) i = bit (bswap (drop_bit 8 c)) i"
  proof (cases "i < 8")
    case True
    then have "\<not> bit c (8 + (24 + i))" using bit_imp_le_length [of c "8 + (24 + i)"] by auto
    then show ?thesis using i True by (simp add: bit_push_bit_iff bit_bswap bit_drop_bit_eq)
  next
    case False
    then have d: "i div 8 = Suc ((i - 8) div 8)" "i mod 8 = (i - 8) mod 8"
      by (simp_all add: le_div_geq le_mod_geq)
    have "i div 8 \<le> 3" using i by auto
    then have "3 - (i - 8) div 8 = Suc (3 - i div 8)" unfolding d(1) by linarith
    then have "8 + ((3 - i div 8) * 8 + i mod 8) = (3 - (i - 8) div 8) * 8 + (i - 8) mod 8" using d(2) by simp
    then show ?thesis using i False by (simp add: bit_push_bit_iff bit_bswap bit_drop_bit_eq)
  qed
qed

lemma byte_xor_mask: "(c AND 0xff) XOR ucast (b :: byte) = (c XOR ucast b) AND (0xff :: u32)"
proof -
  have m: "(0xff :: u32) = mask 8" by (simp add: mask_eq_exp_minus_1)
  show ?thesis unfolding m by (rule bit_word_eqI) (auto simp: bit_simps dest: bit_imp_le_length)
qed

lemma crc_step_be_swap: "crc_step_be (bswap c) b = bswap (crc_step c b)"
  unfolding crc_step_be_def crc_step_def bswap_bytes bswap_shift byte_xor_mask bswap_xor
  by (simp only: table_entries_be unat_byte_less)

lemma foldl_crc_step_be: "foldl crc_step_be (bswap c) bs = bswap (foldl crc_step c bs)"
  by (induction bs arbitrary: c) (simp_all add: crc_step_be_swap)

lemma crc_align_be_ref:
  "crc_align_be addr (bswap c) bs = (c', bs') \<Longrightarrow> \<exists>d. c' = bswap d \<and> crc_ref d bs' = crc_ref c bs"
proof (induction bs arbitrary: addr c)
  case (Cons b bs)
  then show ?case
    by (cases "addr mod 4 = 0") (auto simp: crc_step_be_swap crc_ref_Cons crc_step_ref simp del: funpow.simps)
qed auto

lemma bswap_of_le:
  assumes "length bs = 4"
  shows "of_be bs = bswap (of_le bs)"
proof (rule bit_word_eqI)
  fix i assume i: "i < LENGTH(32)"
  let ?j = "(3 - i div 8) * 8 + i mod 8"
  have "i div 8 \<le> 3" using i by auto
  then have "?j < 32" "?j div 8 = 3 - i div 8" "?j mod 8 = i mod 8" by auto
  then show "bit (of_be bs) i = bit (bswap (of_le bs)) i"
    using i assms \<open>i div 8 \<le> 3\<close> by (auto simp: of_be_def bit_of_le bit_bswap rev_nth)
qed

lemma DOBIG4_swap: "length bs = 4 \<Longrightarrow> DOBIG4 (bswap c) (of_be bs) = bswap (DOLIT4 c (of_le bs))"
proof -
  assume "length bs = 4"
  then have x: "bswap c XOR of_be bs = bswap (c XOR of_le bs)" by (simp add: bswap_of_le bswap_xor)
  have lt: "unat (drop_bit 24 y) < 256" for y :: u32 using unat_byte_less [of "drop_bit 24 y"] by (simp add: top_byte)
  have "crc_table4 ! unat (drop_bit 24 y) XOR crc_table5 ! unat (drop_bit 16 y AND 0xff)
      XOR crc_table6 ! unat (drop_bit 8 y AND 0xff) XOR crc_table7 ! unat (y AND 0xff) =
    bswap (crc_table3 ! unat (y AND 0xff) XOR crc_table2 ! unat (drop_bit 8 y AND 0xff)
      XOR crc_table1 ! unat (drop_bit 16 y AND 0xff) XOR crc_table0 ! unat (drop_bit 24 y))" for y :: u32
    unfolding bswap_xor table_entries_be(1) [OF lt] table_entries_be(2-4) [OF unat_byte_less] by (simp only: ac_simps)
  then show ?thesis
    unfolding DOBIG4_def DOLIT4_def Let_def x bswap_bytes .
qed

lemma DOBIG32_ref: "4 * n \<le> length bs \<Longrightarrow> DOBIG32 n (bswap c) bs = bswap (crc_ref c (take (4 * n) bs))"
proof (induction n arbitrary: c bs)
  case (Suc n)
  have "DOBIG4 (bswap c) (of_be (take 4 bs)) = bswap (crc_ref c (take 4 bs))"
    using Suc.prems crc_ref_word [of "take 4 bs" c] by (simp add: DOBIG4_swap DOLIT4_ref del: funpow.simps)
  moreover have "take (4 * Suc n) bs = take 4 bs @ take (4 * n) (drop 4 bs)"
    using take_add [of 4 "4 * n" bs] by simp
  ultimately show ?case using Suc by (simp add: crc_ref_append)
qed simp

lemma crc_loop_be_step:
  assumes "4 * n \<le> length bs"
  shows "crc_ref (bswap (DOBIG32 n (bswap c) bs)) (drop (4 * n) bs) = crc_ref c bs"
  using DOBIG32_ref [OF assms, of c] by (metis append_take_drop_id bswap_bswap crc_ref_append)

lemma crc_loop32_be_ref: "crc_loop32_be c bs = (c', bs') \<Longrightarrow> crc_ref (bswap c') bs' = crc_ref (bswap c) bs"
proof (induction c bs rule: crc_loop32_be.induct)
  case (1 c bs)
  then show ?case
    using crc_loop_be_step [of 8 bs "bswap c"] by (cases "32 \<le> length bs") (simp_all add: crc_loop32_be.simps [of c bs])
qed

lemma crc_loop4_be_ref: "crc_loop4_be c bs = (c', bs') \<Longrightarrow> crc_ref (bswap c') bs' = crc_ref (bswap c) bs"
proof (induction c bs rule: crc_loop4_be.induct)
  case (1 c bs)
  then show ?case
    using crc_loop_be_step [of 1 bs "bswap c"] by (cases "4 \<le> length bs") (simp_all add: crc_loop4_be.simps [of c bs])
qed

section \<open>Properties\<close>

text \<open>
  C12: The big-endian variant of \<^verbatim>\<open>crc32\<close>, with its byte-reversed register and the other four tables, returns the same
  CRC-32 for every buffer at every alignment.
\<close>

theorem crc32_be_correct: "crc32_be addr crc (Some buf) = crc32_spec crc buf"
proof -
  obtain c1 b1 where a: "crc_align_be addr (bswap (NOT crc)) buf = (c1, b1)" by force
  obtain d where d: "c1 = bswap d" "crc_ref d b1 = crc_ref (NOT crc) buf" using crc_align_be_ref [OF a] by blast
  obtain c2 b2 where l: "crc_loop32_be c1 b1 = (c2, b2)" by force
  obtain c3 b3 where k: "crc_loop4_be c2 b2 = (c3, b3)" by force
  have "crc_ref (bswap c3) b3 = crc_ref (NOT crc) buf"
    using crc_loop4_be_ref [OF k] crc_loop32_be_ref [OF l] d by simp
  moreover have "foldl crc_step_be c3 b3 = bswap (crc_ref (bswap c3) b3)"
    using foldl_crc_step_be [of "bswap c3" b3] by (simp add: foldl_crc_step)
  ultimately show ?thesis
    using a l k by (simp add: crc32_be_def crc32_spec_def bswap_not)
qed

end
