(* ===== verification/HashFiles.thy ===== *)
theory HashFiles
  imports CacheMap Crc SockHelper "HOL-Library.Stream"
begin

text \<open>
  Checksums of hash blocks and the files that hold them, from \<^verbatim>\<open>src/server/image.c\<close>: the checksum of one block of an
  image file, checking blocks against a list, generating the list for a file and loading it. The content of the file
  is a function from positions to bytes; what \<^verbatim>\<open>pread\<close> returns is a script.
\<close>

definition CRC_BSIZE :: nat where "CRC_BSIZE = 524288"

section \<open>The checksum of a block\<close>

text \<open>
  Reading a block piece by piece into an aligned buffer. \<open>None\<close> is a script that is too short; \<open>Some (None, _)\<close> a read
  error or the end of the file.
\<close>

fun crc_read_loop :: "bool \<Rightarrow> (nat \<Rightarrow> byte) \<Rightarrow> nat \<Rightarrow> nat \<Rightarrow> u32 \<Rightarrow> int list \<Rightarrow> (u32 option \<times> int list) option" where
  "crc_read_loop pclmul d pos todo crc [] = (if todo = 0 then Some (Some crc, []) else None)"
| "crc_read_loop pclmul d pos todo crc (r # rs) =
     (if todo = 0 then Some (Some crc, r # rs)
      else if r \<le> 0 then Some (None, rs)
      else let k = min (nat r) (min CRC_BSIZE todo)
           in crc_read_loop pclmul d (pos + k) (todo - k) (Crc.crc32 pclmul 0 crc (Some (map d [pos ..< pos + k]))) rs)"

function crc_pad_loop :: "bool \<Rightarrow> nat \<Rightarrow> u32 \<Rightarrow> u32" where
  "crc_pad_loop pclmul todo crc =
     (if todo = 0 then crc
      else let len = min CRC_BSIZE todo
           in crc_pad_loop pclmul (todo - len) (Crc.crc32 pclmul 0 crc (Some (replicate len 0))))"
  by pat_completeness auto
termination
  by (relation "measure (\<lambda>(p, todo, crc). todo)") (auto simp: CRC_BSIZE_def)

declare crc_pad_loop.simps [simp del]

text \<open>\<^verbatim>\<open>image_calcBlockCrc32\<close>; \<open>None\<close> is also the assertion.\<close>

definition bytes_from_file :: "u64 \<Rightarrow> u64 \<Rightarrow> u64" where
  "bytes_from_file block fileSize = min HASH_BLOCK_SIZE (fileSize - block * HASH_BLOCK_SIZE)"

definition virtual_bytes :: "u64 \<Rightarrow> u64 \<Rightarrow> u64" where
  "virtual_bytes block fileSize =
     ((fileSize + (DNBD3_BLOCK_SIZE - 1)) AND NOT (DNBD3_BLOCK_SIZE - 1)) - block * HASH_BLOCK_SIZE"

definition image_calcBlockCrc32 ::
  "bool \<Rightarrow> (nat \<Rightarrow> byte) \<Rightarrow> u64 \<Rightarrow> u64 \<Rightarrow> int list \<Rightarrow> (u32 option \<times> int list) option" where
  "image_calcBlockCrc32 pclmul d block fileSize rs =
     (let bytesFromFile = bytes_from_file block fileSize;
          vbs = virtual_bytes block fileSize;
          virtualBytesFromFile = min HASH_BLOCK_SIZE vbs
      in if vbs < bytesFromFile then None
         else case crc_read_loop pclmul d (unat (block * HASH_BLOCK_SIZE)) (unat bytesFromFile)
                     (Crc.crc32 pclmul 0 0 None) rs of
           None \<Rightarrow> None
         | Some (None, rs1) \<Rightarrow> Some (None, rs1)
         | Some (Some crc, rs1) \<Rightarrow>
             Some (Some (if bytesFromFile < virtualBytesFromFile
                         then crc_pad_loop pclmul (unat (virtualBytesFromFile - bytesFromFile)) crc else crc), rs1))"

text \<open>Checking blocks against a list; the array of blocks ends with -1, which the list leaves out.\<close>

fun image_checkBlocksCrc32 ::
  "bool \<Rightarrow> (nat \<Rightarrow> byte) \<Rightarrow> u32 list \<Rightarrow> nat list \<Rightarrow> u64 \<Rightarrow> int list \<Rightarrow> (bool \<times> int list) option" where
  "image_checkBlocksCrc32 pclmul d crcs [] fileSize rs = Some (True, rs)"
| "image_checkBlocksCrc32 pclmul d crcs (b # blocks) fileSize rs =
     (case image_calcBlockCrc32 pclmul d (word_of_nat b) fileSize rs of
        None \<Rightarrow> None
      | Some (None, rs1) \<Rightarrow> Some (False, rs1)
      | Some (Some crc, rs1) \<Rightarrow>
          if crc \<noteq> crcs ! b then Some (False, rs1)
          else image_checkBlocksCrc32 pclmul d crcs blocks fileSize rs1)"

section \<open>The list file\<close>

text \<open>
  \<^verbatim>\<open>image_generateCrcFile\<close> as it reads the image: the checksums of all blocks, then the checksum over them, computed in
  pieces of 400 bytes. The result is the content of the file; \<open>None\<close> inside is a failure. \<open>io\<close> tells whether all accesses to the
  list file succeed.
\<close>

fun block_crcs :: "bool \<Rightarrow> (nat \<Rightarrow> byte) \<Rightarrow> u64 \<Rightarrow> nat list \<Rightarrow> int list \<Rightarrow> (u32 list option \<times> int list) option" where
  "block_crcs pclmul d fileSize [] rs = Some (Some [], rs)"
| "block_crcs pclmul d fileSize (b # bs) rs =
     (case image_calcBlockCrc32 pclmul d (word_of_nat b) fileSize rs of
        None \<Rightarrow> None
      | Some (None, rs1) \<Rightarrow> Some (None, rs1)
      | Some (Some crc, rs1) \<Rightarrow>
          (case block_crcs pclmul d fileSize bs rs1 of
             None \<Rightarrow> None
           | Some (None, rs2) \<Rightarrow> Some (None, rs2)
           | Some (Some crcs, rs2) \<Rightarrow> Some (Some (crc # crcs), rs2)))"

function master_crc_loop :: "bool \<Rightarrow> nat \<Rightarrow> byte list \<Rightarrow> nat \<Rightarrow> u32 \<Rightarrow> u32" where
  "master_crc_loop pclmul align bs blocksToGo crc =
     (if blocksToGo = 0 then crc
      else let numBlocks = min 100 blocksToGo
           in master_crc_loop pclmul align (drop (numBlocks * 4) bs) (blocksToGo - numBlocks)
                (Crc.crc32 pclmul align crc (Some (take (numBlocks * 4) bs))))"
  by pat_completeness auto
termination
  by (relation "measure (\<lambda>(p, a, bs, todo, crc). todo)") auto

declare master_crc_loop.simps [simp del]

definition image_generateCrcFile ::
  "bool \<Rightarrow> nat \<Rightarrow> bool \<Rightarrow> bool \<Rightarrow> (nat \<Rightarrow> byte) \<Rightarrow> u64 \<Rightarrow> int list \<Rightarrow> byte list option option" where
  "image_generateCrcFile pclmul align exists io d fileLen rs =
     (if sint fileLen \<le> 0 \<or> exists \<or> \<not> io then Some None
      else let blockCount = nat (IMGSIZE_TO_HASHBLOCKS fileLen) in
        case block_crcs pclmul d fileLen [0 ..< blockCount] rs of
          None \<Rightarrow> None
        | Some (None, _) \<Rightarrow> Some None
        | Some (Some crcs, _) \<Rightarrow>
            let bs = concat (map (to_le 4) crcs);
                master = master_crc_loop pclmul align bs blockCount (Crc.crc32 pclmul 0 0 None)
            in Some (Some (to_le 4 master @ bs)))"

text \<open>
  \<^verbatim>\<open>image_loadCrcList\<close>. The loop asks \<^verbatim>\<open>pread\<close> to store at \<^verbatim>\<open>retval + pos\<close>, where \<^verbatim>\<open>retval\<close> points to 32-bit values: the
  data lands at byte \<open>4 * pos\<close> of the buffer. \<open>None\<close> is a write outside the buffer or a script that is too short.
\<close>

definition put_at :: "nat \<Rightarrow> byte list \<Rightarrow> byte list \<Rightarrow> byte list" where
  "put_at pos bs buf = take pos buf @ bs @ drop (pos + length bs) buf"

fun crc_list_loop :: "byte list \<Rightarrow> nat \<Rightarrow> nat \<Rightarrow> byte list \<Rightarrow> (errno + int) list \<Rightarrow> (nat \<times> byte list) option" where
  "crc_list_loop file len pos buf [] = (if len \<le> pos then Some (pos, buf) else None)"
| "crc_list_loop file len pos buf (r # rs) =
     (if len \<le> pos then Some (pos, buf)
      else case r of
        Inl e \<Rightarrow> if e = EINTR \<or> e = EAGAIN then crc_list_loop file len pos buf rs else Some (pos, buf)
      | Inr ret \<Rightarrow>
          let got = take (min (nat ret) (len - pos)) (drop (pos + 4) file) in
          if got = [] then Some (pos, buf)
          else if 4 * pos + length got > len then None
          else crc_list_loop file len (pos + length got) (put_at (4 * pos) got buf) rs)"

definition image_loadCrcList ::
  "bool \<Rightarrow> nat \<Rightarrow> byte list option \<Rightarrow> u64 \<Rightarrow> bool \<Rightarrow> (errno + int) list \<Rightarrow> (u32 \<times> u32 list) option option" where
  "image_loadCrcList pclmul align file fileSize masterOk rs =
     (let hashBlocks = nat (IMGSIZE_TO_HASHBLOCKS fileSize) in
      case file of
        None \<Rightarrow> Some None
      | Some content \<Rightarrow>
          if length content < (hashBlocks + 1) * 4 then Some None
          else if \<not> masterOk then Some None
          else let masterCrc = of_le (take 4 content); len = hashBlocks * 4 in
            (case crc_list_loop content len 0 (replicate len 0) rs of
               None \<Rightarrow> None
             | Some (pos, buf) \<Rightarrow>
                 if pos \<noteq> len then Some None
                 else if Crc.crc32 pclmul align (Crc.crc32 pclmul 0 0 None) (Some buf) \<noteq> masterCrc then Some None
                 else Some (Some (masterCrc, le_words hashBlocks buf))))"

section \<open>Choosing blocks to check\<close>

text \<open>
  \<^verbatim>\<open>image_checkRandomBlocks\<close> as far as it chooses blocks: the first, the last and random ones. The array has \<open>count + 1\<close>
  places; \<open>None\<close> is a write behind it. The random numbers are a stream.
\<close>

definition push_block :: "nat \<Rightarrow> nat \<Rightarrow> nat list \<Rightarrow> nat list option" where
  "push_block places b blocks = (if length blocks < places then Some (blocks @ [b]) else None)"

fun random_blocks :: "dnbd3_cache_map_t option \<Rightarrow> u64 \<Rightarrow> nat \<Rightarrow> nat \<Rightarrow> nat \<Rightarrow> nat list \<Rightarrow> nat stream \<Rightarrow> nat list option" where
  "random_blocks cache fileSize hashBlocks count 0 blocks rs = Some blocks"
| "random_blocks cache fileSize hashBlocks count (Suc tries) blocks rs =
     (if length blocks + 1 \<ge> count \<or> tries = 0 then Some blocks
      else let block = shd rs mod hashBlocks in
        if block \<in> set blocks then random_blocks cache fileSize hashBlocks count tries blocks (stl rs)
        else if image_isHashBlockComplete cache (word_of_nat block) fileSize
        then (case push_block (count + 1) block blocks of
                None \<Rightarrow> None
              | Some blocks1 \<Rightarrow> random_blocks cache fileSize hashBlocks count tries blocks1 (stl rs))
        else random_blocks cache fileSize hashBlocks count tries blocks (stl rs))"

definition choose_blocks :: "dnbd3_image_t \<Rightarrow> nat \<Rightarrow> nat stream \<Rightarrow> nat list option" where
  "choose_blocks i count rs =
     (let cache = ref_cacheMap i; hashBlocks = nat (IMGSIZE_TO_HASHBLOCKS (virtualFilesize i));
          blocks0 = (if image_isHashBlockComplete cache 0 (virtualFilesize i) then [0] else [])
      in case (if hashBlocks > 1 \<and> image_isHashBlockComplete cache (word_of_nat (hashBlocks - 1)) (virtualFilesize i)
               then push_block (count + 1) (hashBlocks - 1) blocks0 else Some blocks0) of
           None \<Rightarrow> None
         | Some blocks1 \<Rightarrow> random_blocks cache (virtualFilesize i) hashBlocks count (count * 5) blocks1 rs)"

text \<open>
  The whole function: \<open>Inl\<close> lists the blocks handed to the integrity checker, \<open>Inr\<close> is the result of a check on the spot,
  for which the array needs one more place for the final -1.
\<close>

definition image_checkRandomBlocks ::
  "bool \<Rightarrow> (nat \<Rightarrow> byte) \<Rightarrow> bool \<Rightarrow> nat \<Rightarrow> nat stream \<Rightarrow> int list \<Rightarrow> dnbd3_image_t \<Rightarrow> (nat list + bool) option" where
  "image_checkRandomBlocks pclmul d async count rnds rs i =
     (case dnbd3_image_t.crc32 i of
        None \<Rightarrow> Some (Inr True)
      | Some crcs \<Rightarrow>
          (case choose_blocks i count rnds of
             None \<Rightarrow> None
           | Some blocks \<Rightarrow>
               if async then Some (Inl blocks)
               else if length blocks \<ge> count + 1 then None
               else map_option (\<lambda>(ok, _). Inr ok) (image_checkBlocksCrc32 pclmul d crcs blocks (realFilesize i) rs)))"

end
