(* ===== verification/HashProof.thy ===== *)
theory HashProof
  imports HashFiles CrcFold CacheImage
begin

text \<open>
  The checksum of a block is the CRC-32 of its bytes, padded with zeros to whole blocks of the image, however the reads
  are split up; a list that was generated for a file is accepted again when it is loaded, and the unchanged file passes
  every check against it.
\<close>

section \<open>Checksums of pieces\<close>

lemma crc32_spec_append: "crc32_spec (crc32_spec c xs) ys = crc32_spec c (xs @ ys)"
  by (simp add: crc32_spec_def crc_ref_append)

lemma crc32_spec_Nil [simp]: "crc32_spec c [] = c"
  by (simp add: crc32_spec_def)

lemma crc32_start [simp]: "Crc.crc32 pclmul align c None = 0"
  by (simp add: Crc.crc32_def)

lemma crc_read_loop_spec:
  "crc_read_loop pclmul d pos todo crc rs = Some (Some c, rs') \<Longrightarrow> c = crc32_spec crc (map d [pos ..< pos + todo])"
proof (induction pclmul d pos todo crc rs rule: crc_read_loop.induct)
  case (2 pclmul d pos todo crc r rs)
  show ?case
  proof (cases "todo = 0 \<or> r \<le> 0")
    case True
    then show ?thesis using "2.prems" by (auto split: if_splits)
  next
    case False
    define k where "k = min (nat r) (min CRC_BSIZE todo)"
    have k: "k \<le> todo" by (simp add: k_def)
    have "crc_read_loop pclmul d (pos + k) (todo - k) (Crc.crc32 pclmul 0 crc (Some (map d [pos ..< pos + k]))) rs = Some (Some c, rs')"
      using "2.prems" False by (simp add: k_def Let_def)
    from "2.IH" [OF _ _ k_def this] False
    have "c = crc32_spec (crc32_spec crc (map d [pos ..< pos + k])) (map d [pos + k ..< pos + k + (todo - k)])"
      by (simp add: crc32_eq_spec)
    moreover have "[pos ..< pos + todo] = [pos ..< pos + k] @ [pos + k ..< pos + k + (todo - k)]"
      using k upt_add_eq_append [of pos "pos + k" "todo - k"] by simp
    ultimately show ?thesis by (simp add: crc32_spec_append)
  qed
qed (auto split: if_splits)

lemma crc_read_loop_total:
  "\<forall>r \<in> set rs. 0 < r \<Longrightarrow> todo \<le> length rs
    \<Longrightarrow> \<exists>c rs'. crc_read_loop pclmul d pos todo crc rs = Some (Some c, rs') \<and> set rs' \<subseteq> set rs \<and> length rs \<le> length rs' + todo"
proof (induction pclmul d pos todo crc rs rule: crc_read_loop.induct)
  case (2 pclmul d pos todo crc r rs)
  show ?case
  proof (cases "todo = 0")
    case False
    define k where "k = min (nat r) (min CRC_BSIZE todo)"
    have k: "1 \<le> k" "k \<le> todo" using "2.prems" False by (auto simp: k_def CRC_BSIZE_def)
    then have len: "todo - k \<le> length rs" using "2.prems"(2) by simp
    have pos: "\<forall>r \<in> set rs. 0 < r" "\<not> r \<le> 0" using "2.prems"(1) by auto
    from "2.IH" [OF False pos(2) k_def pos(1) len] show ?thesis
      using False pos(2) k by (auto simp: k_def [symmetric] Let_def)
  qed simp
qed simp

lemma crc_read_loop_ok: "\<forall>r \<in> set rs. 0 < r \<Longrightarrow> crc_read_loop pclmul d pos todo crc rs \<noteq> Some (None, rs')"
  by (induction pclmul d pos todo crc rs rule: crc_read_loop.induct) (auto simp: Let_def)

lemma crc_pad_loop_spec: "crc_pad_loop pclmul todo crc = crc32_spec crc (replicate todo 0)"
proof (induction pclmul todo crc rule: crc_pad_loop.induct)
  case (1 pclmul todo crc)
  show ?case
  proof (cases "todo = 0")
    case False
    have "replicate todo (0 :: byte) = replicate (min CRC_BSIZE todo) 0 @ replicate (todo - min CRC_BSIZE todo) 0"
      by (simp flip: replicate_add)
    then show ?thesis
      using 1 [OF False refl] False by (simp add: crc_pad_loop.simps [of pclmul todo] Let_def crc32_eq_spec crc32_spec_append)
  qed (simp add: crc_pad_loop.simps)
qed

section \<open>The checksum of a block\<close>

definition block_data :: "(nat \<Rightarrow> byte) \<Rightarrow> nat \<Rightarrow> nat \<Rightarrow> byte list" where
  "block_data d b fileSize =
     map (\<lambda>i. if i < fileSize then d i else 0)
       [16777216 * b ..< min (16777216 * (b + 1)) ((fileSize + 4095) div 4096 * 4096)]"

lemma block_data_split:
  assumes "16777216 * b < n"
  shows "block_data d b n = map d [16777216 * b ..< 16777216 * b + min 16777216 (n - 16777216 * b)]
    @ replicate (min 16777216 ((n + 4095) div 4096 * 4096 - 16777216 * b) - min 16777216 (n - 16777216 * b)) 0"
proof -
  let ?s = "16777216 * b" and ?v = "(n + 4095) div 4096 * 4096"
  let ?m = "?s + min 16777216 (n - ?s)" and ?e = "min (16777216 * (b + 1)) ?v"
  have v: "n \<le> ?v" by (rule round_up_le)
  have e: "?e = ?s + min 16777216 (?v - ?s)" using assms v by simp
  have le: "?s \<le> ?m" "?m \<le> ?e" using v assms by (auto simp: min_def)
  have "[?s ..< ?e] = [?s ..< ?m] @ [?m ..< ?e]"
    using upt_add_eq_append [OF le(1), of "?e - ?m"] le(2) by simp
  moreover have "map (\<lambda>i. if i < n then d i else 0) [?s ..< ?m] = map d [?s ..< ?m]" using assms by auto
  moreover have "map (\<lambda>i. if i < n then d i else 0) [?m ..< ?e] = replicate (?e - ?m) 0"
  proof (cases "16777216 \<le> n - ?s")
    case True
    then have "?e = ?m" using v by (simp add: min_def)
    then show ?thesis by simp
  next
    case False
    then have "?m = n" using assms by simp
    then show ?thesis by (intro replicate_eqI) auto
  qed
  ultimately show ?thesis unfolding block_data_def e by simp
qed

lemma block_sizes:
  assumes "unat n < 2 ^ 63" "16777216 * b < unat n"
  shows "unat (word_of_nat b * HASH_BLOCK_SIZE) = 16777216 * b"
    "unat (bytes_from_file (word_of_nat b) n) = min 16777216 (unat n - 16777216 * b)"
    "unat (virtual_bytes (word_of_nat b) n) = (unat n + 4095) div 4096 * 4096 - 16777216 * b"
proof -
  have b: "unat (word_of_nat b :: u64) = b" using assms by (simp add: unsigned_of_nat take_bit_nat_eq_self)
  then show s: "unat (word_of_nat b * HASH_BLOCK_SIZE) = 16777216 * b"
    using assms by (simp add: HASH_BLOCK_SIZE_def unat_word_ariths mult.commute)
  have le: "word_of_nat b * HASH_BLOCK_SIZE \<le> n" using s assms by (simp add: word_le_nat_alt)
  then show "unat (bytes_from_file (word_of_nat b) n) = min 16777216 (unat n - 16777216 * b)"
    using s by (simp add: bytes_from_file_def min_def word_le_nat_alt unat_sub HASH_BLOCK_SIZE_def)
  have c: "unat ((n + (DNBD3_BLOCK_SIZE - 1)) AND NOT (DNBD3_BLOCK_SIZE - 1)) = (unat n + 4095) div 4096 * 4096"
    using unat_block_ceil [of n] assms by (simp add: block_ceil_def DNBD3_BLOCK_SIZE_def add.commute)
  have "word_of_nat b * HASH_BLOCK_SIZE \<le> (n + (DNBD3_BLOCK_SIZE - 1)) AND NOT (DNBD3_BLOCK_SIZE - 1)"
    using c s assms round_up_le [of "unat n"] by (simp add: word_le_nat_alt)
  then show "unat (virtual_bytes (word_of_nat b) n) = (unat n + 4095) div 4096 * 4096 - 16777216 * b"
    using c s by (simp add: virtual_bytes_def unat_sub)
qed

lemma calcBlockCrc32_spec:
  assumes n: "unat n < 2 ^ 63" "16777216 * b < unat n"
  shows "image_calcBlockCrc32 pclmul d (word_of_nat b) n rs = Some (Some c, rs') \<Longrightarrow> c = crc32_spec 0 (block_data d b (unat n))"
    "\<forall>r \<in> set rs. 0 < r \<Longrightarrow> 16777216 \<le> length rs \<Longrightarrow> \<exists>c rs'. image_calcBlockCrc32 pclmul d (word_of_nat b) n rs = Some (Some c, rs')
       \<and> set rs' \<subseteq> set rs \<and> length rs \<le> length rs' + 16777216"
proof -
  let ?s = "16777216 * b" and ?v = "(unat n + 4095) div 4096 * 4096"
  let ?f = "min 16777216 (unat n - ?s)"
  note sz = block_sizes [OF n]
  have v: "unat n \<le> ?v" by (rule round_up_le)
  have noassert: "\<not> virtual_bytes (word_of_nat b) n < bytes_from_file (word_of_nat b) n"
    using sz diff_le_mono [OF v, of ?s] by (simp add: word_less_nat_alt)
  have vb: "unat (min HASH_BLOCK_SIZE (virtual_bytes (word_of_nat b) n)) = min 16777216 (?v - ?s)"
    using sz by (simp add: min_def word_le_nat_alt HASH_BLOCK_SIZE_def)
  have pad: "bytes_from_file (word_of_nat b) n < min HASH_BLOCK_SIZE (virtual_bytes (word_of_nat b) n) \<longleftrightarrow> ?f < min 16777216 (?v - ?s)"
    using sz vb by (simp add: word_less_nat_alt)
  have le: "bytes_from_file (word_of_nat b) n \<le> min HASH_BLOCK_SIZE (virtual_bytes (word_of_nat b) n)"
    using sz vb diff_le_mono [OF v, of ?s] by (simp add: word_le_nat_alt min.coboundedI2)
  have padlen: "unat (min HASH_BLOCK_SIZE (virtual_bytes (word_of_nat b) n) - bytes_from_file (word_of_nat b) n) = min 16777216 (?v - ?s) - ?f"
    by (simp only: unat_sub [OF le] vb sz)
  note unf = image_calcBlockCrc32_def Let_def if_not_P [OF noassert] sz(1,2) crc32_start
  show "c = crc32_spec 0 (block_data d b (unat n))"
    if "image_calcBlockCrc32 pclmul d (word_of_nat b) n rs = Some (Some c, rs')"
  proof -
    note t = that [unfolded unf]
    obtain c0 where r: "crc_read_loop pclmul d ?s ?f 0 rs = Some (Some c0, rs')"
      using t by (auto split: option.splits)
    have c: "c = (if ?f < min 16777216 (?v - ?s) then crc_pad_loop pclmul (min 16777216 (?v - ?s) - ?f) c0 else c0)"
      using t [unfolded r pad padlen] by simp
    have gen: "c = (if f < m then crc_pad_loop pclmul (m - f) c0 else c0) \<Longrightarrow> c = crc32_spec c0 (replicate (m - f) 0)" for f m
      by (cases "f < m") (simp_all add: crc_pad_loop_spec)
    from gen [OF c]
    show ?thesis
      using crc_read_loop_spec [OF r] by (simp add: block_data_split [OF n(2)] crc32_spec_append)
  qed
  show "\<exists>c rs'. image_calcBlockCrc32 pclmul d (word_of_nat b) n rs = Some (Some c, rs') \<and> set rs' \<subseteq> set rs
      \<and> length rs \<le> length rs' + 16777216"
    if pos: "\<forall>r \<in> set rs. 0 < r" and len: "16777216 \<le> length rs"
  proof -
    obtain c rs' where "crc_read_loop pclmul d ?s ?f 0 rs = Some (Some c, rs')" "set rs' \<subseteq> set rs" "length rs \<le> length rs' + ?f"
      using crc_read_loop_total [OF pos le_trans [OF min.cobounded1 len], of pclmul d ?s "unat n - ?s" 0] by blast
    then show ?thesis unfolding unf by (auto intro: order_trans)
  qed
qed

section \<open>The list file\<close>

lemma hashblocks_int:
  assumes "unat n < 2 ^ 45"
  shows "IMGSIZE_TO_HASHBLOCKS n = int ((unat n + 16777215) div 16777216)"
proof -
  have eq: "n + HASH_BLOCK_SIZE - 1 = n + 16777215" by (simp add: HASH_BLOCK_SIZE_def)
  have "unat (n + HASH_BLOCK_SIZE - 1) = unat n + 16777215"
    unfolding eq using assms unat_add_no_wrap [of n 16777215] by simp
  then have u: "unat ((n + HASH_BLOCK_SIZE - 1) div HASH_BLOCK_SIZE) = (unat n + 16777215) div 16777216"
    by (simp add: HASH_BLOCK_SIZE_def unat_div)
  then have "unat ((n + HASH_BLOCK_SIZE - 1) div HASH_BLOCK_SIZE) < 2 ^ 31" using assms by simp
  then show ?thesis using u by (simp add: IMGSIZE_TO_HASHBLOCKS_def c_int_small)
qed

lemma hash_div: "((n :: nat) + 16777215) div 16777216 = ((n + 4095) div 4096 + 4095) div 4096"
proof -
  have "n + 16777215 = n + 4095 + 4096 * 4095" by simp
  then have "(n + 16777215) div 4096 = (n + 4095) div 4096 + 4095" by (simp only: div_mult_self2)
  moreover have "(n + 16777215) div 16777216 = (n + 16777215) div 4096 div 4096" by (simp add: div_mult2_eq [symmetric])
  ultimately show ?thesis by simp
qed

lemma hashblocks_ceil:
  assumes "unat n < 2 ^ 44"
  shows "IMGSIZE_TO_HASHBLOCKS (block_ceil n) = IMGSIZE_TO_HASHBLOCKS n"
proof -
  have c: "unat (block_ceil n) = (unat n + 4095) div 4096 * 4096" using unat_block_ceil [of n] assms by simp
  have "(unat n + 4095) div 4096 * 4096 \<le> unat n + 4095" by simp
  then have lt: "unat (block_ceil n) < 2 ^ 45" using c assms by simp
  have "((unat n + 4095) div 4096 * 4096 + 4095) div 4096 = (unat n + 4095) div 4096" by simp
  then show ?thesis using hashblocks_int [OF lt] hashblocks_int [of n] assms c by (simp add: hash_div)
qed

lemma calcBlockCrc32_ok:
  "\<forall>r \<in> set rs. 0 < r \<Longrightarrow> image_calcBlockCrc32 pclmul d b n rs \<noteq> Some (None, rs')"
  using crc_read_loop_ok by (auto simp: image_calcBlockCrc32_def Let_def split: option.splits)

lemma hash_index: "b < (n + 16777215) div 16777216 \<longleftrightarrow> 16777216 * b < (n :: nat)"
proof -
  have "b < (n + 16777215) div 16777216 \<longleftrightarrow> Suc b * 16777216 \<le> n + 16777215"
    by (simp only: less_eq_Suc_le less_eq_div_iff_mult_less_eq)
  then show ?thesis by linarith
qed

lemma block_crcs_spec:
  assumes "unat n < 2 ^ 63"
  shows "block_crcs pclmul d n bs rs = Some (Some crcs, rs') \<Longrightarrow> \<forall>b \<in> set bs. 16777216 * b < unat n
    \<Longrightarrow> crcs = map (\<lambda>b. crc32_spec 0 (block_data d b (unat n))) bs"
proof (induction bs arbitrary: rs crcs)
  case (Cons b bs)
  then obtain c rs1 crcs1 where "image_calcBlockCrc32 pclmul d (word_of_nat b) n rs = Some (Some c, rs1)"
    "block_crcs pclmul d n bs rs1 = Some (Some crcs1, rs')" "crcs = c # crcs1"
    by (auto split: option.splits)
  then show ?case using Cons calcBlockCrc32_spec(1) [OF assms] by auto
qed simp

lemma master_crc_loop_spec:
  "length bs = n * 4 \<Longrightarrow> master_crc_loop pclmul align bs n crc = crc32_spec crc bs"
proof (induction pclmul align bs n crc rule: master_crc_loop.induct)
  case (1 pclmul align bs n crc)
  show ?case
  proof (cases "n = 0")
    case True
    then show ?thesis using "1.prems" by (simp add: master_crc_loop.simps)
  next
    case False
    have "length (drop (min 100 n * 4) bs) = (n - min 100 n) * 4" using "1.prems" by (simp add: diff_mult_distrib)
    from "1.IH" [OF False refl this] False show ?thesis
      by (simp add: master_crc_loop.simps [of pclmul align bs n] Let_def crc32_eq_spec crc32_spec_append)
  qed
qed

lemma le_words_bytes: "le_words (length ws) (concat (map (to_le 4) ws) @ rest) = ws"
  by (induction ws) simp_all

lemma length_concat_le4 [simp]: "length (concat (map (to_le 4) (ws :: u32 list))) = 4 * length ws"
  by (induction ws) simp_all

lemma loadCrcList_whole:
  assumes "nat (IMGSIZE_TO_HASHBLOCKS fs) = length crcs" "4 * length crcs \<le> nat ret" "crcs \<noteq> []"
  shows "image_loadCrcList pclmul align (Some (to_le 4 master @ concat (map (to_le 4) crcs))) fs True (Inr ret # rs)
    = Some (if crc32_spec 0 (concat (map (to_le 4) crcs)) = master then Some (master, crcs) else None)"
proof -
  let ?bs = "concat (map (to_le 4) crcs)"
  have len: "length ?bs = 4 * length crcs" by simp
  have "length ?bs \<noteq> 0" using len assms(3) by simp
  then have ne: "?bs \<noteq> []" by (metis list.size(3))
  have got: "take (min (nat ret) (4 * length crcs)) (drop 4 (to_le 4 master @ ?bs)) = ?bs" using assms(2) len by simp
  have p: "put_at 0 ?bs (replicate (4 * length crcs) 0) = ?bs" by (simp add: put_at_def)
  have "crc_list_loop (to_le 4 master @ ?bs) (4 * length crcs) (4 * length crcs) ?bs rs = Some (4 * length crcs, ?bs)"
    by (cases rs) simp_all
  then have "crc_list_loop (to_le 4 master @ ?bs) (4 * length crcs) 0 (replicate (4 * length crcs) 0) (Inr ret # rs)
      = Some (4 * length crcs, ?bs)"
    using got p ne assms(3) by (simp add: Let_def)
  moreover have "le_words (length crcs) ?bs = crcs" using le_words_bytes [of crcs "[]"] by simp
  ultimately show ?thesis by (simp add: image_loadCrcList_def assms(1) Let_def crc32_eq_spec mult.commute)
qed

lemma generateCrcFile_content:
  assumes "image_generateCrcFile pclmul align ex io d n rs = Some (Some file)" "unat n < 2 ^ 44"
  defines "crcs \<equiv> map (\<lambda>b. crc32_spec 0 (block_data d b (unat n))) [0 ..< (unat n + 16777215) div 16777216]"
  shows "file = to_le 4 (crc32_spec 0 (concat (map (to_le 4) crcs))) @ concat (map (to_le 4) crcs)" "0 < unat n"
proof -
  have hb: "nat (IMGSIZE_TO_HASHBLOCKS n) = (unat n + 16777215) div 16777216" using hashblocks_int [of n] assms(2) by simp
  have pos: "sint n > 0" using assms(1) by (auto simp: image_generateCrcFile_def split: if_splits)
  then show "0 < unat n" by (cases "n = 0") (auto simp: unat_gt_0)
  obtain cs rs' where bc: "block_crcs pclmul d n [0 ..< (unat n + 16777215) div 16777216] rs = Some (Some cs, rs')"
    and fl: "file = to_le 4 (master_crc_loop pclmul align (concat (map (to_le 4) cs)) ((unat n + 16777215) div 16777216) 0)
       @ concat (map (to_le 4) cs)"
    using assms(1) by (auto simp: image_generateCrcFile_def hb Let_def split: if_splits option.splits)
  have "\<forall>b \<in> set [0 ..< (unat n + 16777215) div 16777216]. 16777216 * b < unat n"
    by (simp add: hash_index)
  then have "cs = crcs" using block_crcs_spec [OF _ bc] assms(2) by (simp add: crcs_def)
  then show "file = to_le 4 (crc32_spec 0 (concat (map (to_le 4) crcs))) @ concat (map (to_le 4) crcs)"
    using fl master_crc_loop_spec [of "concat (map (to_le 4) crcs)" "length crcs" pclmul align 0] by (simp add: crcs_def del: map_map)
qed

section \<open>Properties\<close>

text \<open>
  C38: The checksum of a hash block is the CRC-32 of the block's bytes, where the part behind the end of the file counts as
  zeros up to a multiple of 4096. It does not depend on how the reads are split up, and when no read fails there is a result.
\<close>

theorem block_crc_correct:
  assumes "unat n < 2 ^ 63" "16777216 * b < unat n"
  shows "(image_calcBlockCrc32 pclmul d (word_of_nat b) n rs = Some (Some c, rs') \<longrightarrow> c = crc32_spec 0 (block_data d b (unat n)))
    \<and> ((\<forall>r \<in> set rs. 0 < r) \<and> 16777216 \<le> length rs
       \<longrightarrow> (\<exists>rs'. image_calcBlockCrc32 pclmul d (word_of_nat b) n rs = Some (Some (crc32_spec 0 (block_data d b (unat n))), rs')))"
  using calcBlockCrc32_spec [OF assms] by blast

theorem block_crc_correct_witness:
  "\<exists>rs'. image_calcBlockCrc32 True (\<lambda>_. 7) 0 5000 (replicate 16777216 600)
     = Some (Some (crc32_spec 0 (replicate 5000 7 @ replicate 3192 0)), rs')"
proof -
  have "block_data (\<lambda>_. 7) 0 5000 = replicate 5000 7 @ replicate 3192 0"
    using block_data_split [of 0 5000 "\<lambda>_. 7"] by (simp add: map_replicate_const)
  then show ?thesis
    using block_crc_correct [of "5000 :: u64" 0 True "\<lambda>_. 7" "replicate 16777216 600"] by simp
qed

text \<open>
  C39: The list file generated for an image is accepted when it is loaded for that image, and then every block of the
  unchanged image passes the check against the loaded list.
\<close>

theorem crc_file_round_trip:
  assumes "image_generateCrcFile pclmul align ex io d n rs = Some (Some file)" "unat n < 2 ^ 44" "length file \<le> nat ret + 4"
  shows "\<exists>master crcs. image_loadCrcList pclmul' align' (Some file) (block_ceil n) True [Inr ret] = Some (Some (master, crcs))
    \<and> (\<forall>b rs1 ok rs2. 16777216 * b < unat n \<longrightarrow> image_checkBlocksCrc32 pclmul'' d crcs [b] n rs1 = Some (ok, rs2)
         \<longrightarrow> (\<forall>r \<in> set rs1. 0 < r) \<longrightarrow> ok)"
proof -
  define k where "k = (unat n + 16777215) div 16777216"
  define crcs where "crcs = map (\<lambda>b. crc32_spec 0 (block_data d b (unat n))) [0 ..< k]"
  note g = generateCrcFile_content [OF assms(1,2), folded k_def, folded crcs_def]
  have hb: "nat (IMGSIZE_TO_HASHBLOCKS (block_ceil n)) = length crcs"
    using hashblocks_ceil [OF assms(2)] hashblocks_int [of n] assms(2) by (simp add: crcs_def k_def)
  have "crcs \<noteq> []" using g(2) by (simp add: crcs_def k_def)
  then have load: "image_loadCrcList pclmul' align' (Some file) (block_ceil n) True [Inr ret]
      = Some (Some (crc32_spec 0 (concat (map (to_le 4) crcs)), crcs))"
    using loadCrcList_whole [OF hb] assms(3) g(1) by simp
  have "ok" if b: "16777216 * b < unat n" and c: "image_checkBlocksCrc32 pclmul'' d crcs [b] n rs1 = Some (ok, rs2)"
    and pos: "\<forall>r \<in> set rs1. 0 < r" for b rs1 ok rs2
  proof -
    have "b < k" using b by (simp add: k_def hash_index)
    then have nth: "crcs ! b = crc32_spec 0 (block_data d b (unat n))" by (simp add: crcs_def)
    obtain c1 rs' where c1: "image_calcBlockCrc32 pclmul'' d (word_of_nat b) n rs1 = Some (Some c1, rs')"
      using c calcBlockCrc32_ok [OF pos] by (auto split: option.splits)
    then have "c1 = crcs ! b" using calcBlockCrc32_spec(1) [OF _ b c1] assms(2) nth by simp
    then show ?thesis using c c1 by simp
  qed
  then show ?thesis using load by blast
qed

lemma sample_crc_file: "\<exists>file. image_generateCrcFile True 0 False True (\<lambda>_. 7) 5000 [5000] = Some (Some file) \<and> length file = 8"
proof -
  have "nat (IMGSIZE_TO_HASHBLOCKS 5000) = 1" using hashblocks_int [of 5000] by simp
  moreover have "\<exists>c. image_calcBlockCrc32 True (\<lambda>_. 7) (word_of_nat 0) 5000 [5000] = Some (Some c, [])"
    using block_sizes [of 5000 0] by (simp add: image_calcBlockCrc32_def Let_def word_less_nat_alt CRC_BSIZE_def)
  ultimately show ?thesis by (auto simp: image_generateCrcFile_def Let_def)
qed

theorem crc_file_round_trip_witness:
  "\<exists>file master crcs. image_generateCrcFile True 0 False True (\<lambda>_. 7) 5000 [5000] = Some (Some file)
     \<and> image_loadCrcList False 0 (Some file) (block_ceil 5000) True [Inr 4] = Some (Some (master, crcs))"
proof -
  obtain fl where f: "image_generateCrcFile True 0 False True (\<lambda>_. 7) 5000 [5000] = Some (Some fl)" "length fl = 8"
    using sample_crc_file by blast
  then show ?thesis using crc_file_round_trip [OF f(1), of 4 False 0] by force
qed

text \<open>
  C40: Loading the list writes behind its buffer when the file system returns less than was asked for: after a first
  read of at least a quarter of the list, any further data lands behind the end, because the position counts bytes
  but is added to a pointer to 32-bit values.
\<close>

theorem crc_list_short_read:
  assumes "(hashBlocks + 1) * 4 \<le> length content" "hashBlocks = nat (IMGSIZE_TO_HASHBLOCKS fs)"
    and "hashBlocks \<le> k" "k < hashBlocks * 4" "0 < k" "0 < m"
  shows "image_loadCrcList pclmul align (Some content) fs True (Inr (int k) # Inr m # rs) = None"
proof -
  let ?len = "hashBlocks * 4"
  have g1: "take (min k ?len) (drop 4 content) = take k (drop 4 content)" "length (take k (drop 4 content)) = k"
    using assms by (simp_all add: min_def)
  have "length (take (min (nat m) (?len - k)) (drop (k + 4) content)) > 0" using assms by simp
  then have g2: "take (min (nat m) (?len - k)) (drop (k + 4) content) \<noteq> []"
    "?len < 4 * k + length (take (min (nat m) (?len - k)) (drop (k + 4) content))"
    using assms(3) by (metis length_greater_0_conv, linarith)
  have "take k (drop 4 content) \<noteq> []" using g1(2) assms(5) by auto
  then have "crc_list_loop content ?len 0 (replicate ?len 0) (Inr (int k) # Inr m # rs) = None"
    using g1 g2 assms(4) by (simp add: Let_def del: take_eq_Nil length_take)
  then show ?thesis
    using assms(1) unfolding image_loadCrcList_def assms(2) [symmetric] Let_def by simp
qed

theorem crc_list_short_read_witness:
  "image_loadCrcList False 0 (Some (replicate 12 0)) 16777217 True [Inr 3, Inr 5] = None"
proof -
  have "2 = nat (IMGSIZE_TO_HASHBLOCKS 16777217)" using hashblocks_int [of 16777217] by simp
  from crc_list_short_read [OF _ this, of "replicate 12 0" 3 5] show ?thesis by simp
qed

end
