(* ===== verification/NetServer.thy ===== *)
theory NetServer
  imports AltServers Wire
begin

text \<open>
  The server's side of a client connection, \<^verbatim>\<open>src/server/net.c\<close>: the list of clients, the handshake, the commands and
  the end of a connection. A connection has the client, the reply structure that is used again and again, the cache
  map it holds on to and the bytes put on the wire. The image, its cache file and its uplink are an \<open>uplink_state\<close>.
\<close>

definition SERVER_MAX_CLIENTS :: nat where "SERVER_MAX_CLIENTS = 4000"
definition SOCKET_TIMEOUT_CLIENT_RETRIES :: nat where "SOCKET_TIMEOUT_CLIENT_RETRIES = 3"
definition MIN_SUPPORTED_CLIENT :: u16 where "MIN_SUPPORTED_CLIENT = 2"
definition NUMBER_SERVERS :: int where "NUMBER_SERVERS = 8"
definition FLAGS8_SERVER :: u8 where "FLAGS8_SERVER = 1"
definition FLAGS8_BG_REP :: u8 where "FLAGS8_BG_REP = 2"

section \<open>The list of clients\<close>

record client_list =
  slots :: "nat option list"
  num_clients :: nat

fun free_slot :: "nat option list \<Rightarrow> nat \<Rightarrow> nat \<Rightarrow> nat option" where
  "free_slot cs i 0 = None"
| "free_slot cs i (Suc n) = (if cs ! i = None then Some i else free_slot cs (i + 1) n)"

definition addToList :: "config \<Rightarrow> nat \<Rightarrow> client_list \<Rightarrow> bool \<times> client_list" where
  "addToList cfg client l =
     (case free_slot (slots l) 0 (num_clients l) of
        Some i \<Rightarrow> (True, l\<lparr>slots := (slots l)[i := Some client]\<rparr>)
      | None \<Rightarrow>
          if int (num_clients l) \<ge> maxClients cfg then (False, l)
          else (True, l\<lparr>slots := (slots l)[num_clients l := Some client], num_clients := num_clients l + 1\<rparr>))"

text \<open>Searching from the end, and giving up trailing free slots after one became free; the first slot is kept.\<close>

fun last_slot :: "nat option list \<Rightarrow> nat \<Rightarrow> nat \<Rightarrow> nat option" where
  "last_slot cs client 0 = None"
| "last_slot cs client (Suc i) = (if cs ! i = Some client then Some i else last_slot cs client i)"

fun shrink_to :: "nat option list \<Rightarrow> nat \<Rightarrow> nat" where
  "shrink_to cs 0 = 0"
| "shrink_to cs (Suc i) = (if cs ! i = None \<and> i > 0 then shrink_to cs i else Suc i)"

definition removeFromList :: "nat \<Rightarrow> client_list \<Rightarrow> client_list" where
  "removeFromList client l =
     (if num_clients l = 0 then l
      else case last_slot (slots l) client (num_clients l) of
        None \<Rightarrow> l
      | Some i \<Rightarrow>
          let cs = (slots l)[i := None]
          in l\<lparr>slots := cs, num_clients := (if i \<noteq> 0 \<and> i + 1 = num_clients l then shrink_to cs i else num_clients l)\<rparr>)"

text \<open>Clients, servers and bytes sent; \<open>clients\<close> gives the structure each slot points to.\<close>

definition net_getStats :: "(nat \<Rightarrow> dnbd3_client_t) \<Rightarrow> u64 \<Rightarrow> client_list \<Rightarrow> int \<times> int \<times> u64" where
  "net_getStats clients totalSent l =
     foldl (\<lambda>(cc, sc, bs) s.
              case s of
                None \<Rightarrow> (cc, sc, bs)
              | Some c \<Rightarrow>
                  if c_image (clients c) = None then (cc, sc, bs)
                  else if isServer (clients c) then (cc, sc + 1, bs + bytesSent (clients c))
                  else (cc + 1, sc, bs + bytesSent (clients c)))
       (0, 0, totalSent) (take (num_clients l) (slots l))"

definition net_disconnectAll :: "client_list \<Rightarrow> nat list" where
  "net_disconnectAll l = concat (map (\<lambda>s. case s of None \<Rightarrow> [] | Some c \<Rightarrow> [c]) (take (num_clients l) (slots l)))"

text \<open>The lists seen in the successive rounds of waiting; the last one has its counter reset.\<close>

fun net_waitForAllDisconnected :: "nat \<Rightarrow> client_list list \<Rightarrow> (nat \<times> client_list) option" where
  "net_waitForAllDisconnected retries [] = None"
| "net_waitForAllDisconnected retries (l # ls) =
     (if net_disconnectAll l \<noteq> [] \<and> retries > 1 then net_waitForAllDisconnected (retries - 1) ls
      else Some (length (net_disconnectAll l), l\<lparr>num_clients := 0\<rparr>))"

section \<open>Receiving requests\<close>

text \<open>
  The loop of \<^verbatim>\<open>recv_request_header\<close>. The variable \<^verbatim>\<open>errno\<close> keeps its value when \<^verbatim>\<open>recv\<close> returns too few bytes without
  an error. \<open>Some (None, _)\<close> is the return value false.
\<close>

lemma recv_waitall_length: "recv_waitall n s = Some (r, s') \<Longrightarrow> length (all_data s') + length s' \<le> length (all_data s) + length s"
proof (induction n s arbitrary: r s' rule: recv_waitall.induct)
  case (3 len bs s)
  then show ?case by (fastforce split: if_splits option.splits sum.splits prod.splits)
qed auto

lemma recv_waitall_consumes:
  assumes "recv_waitall n s = Some (r, s')" "\<not> (\<exists>bs. r = Inr bs \<and> length bs = n)"
  shows "length (all_data s') + length s' < length (all_data s) + length s"
proof (cases s)
  case (Cons ev s1)
  show ?thesis
  proof (cases ev)
    case (Data bs)
    show ?thesis
    proof (cases "bs = [] \<or> n \<le> length bs")
      case True
      then show ?thesis using assms Cons Data by (auto split: if_splits)
    next
      case False
      then obtain r1 where "recv_waitall (n - length bs) s1 = Some (r1, s')"
        using assms(1) Cons Data by (auto split: if_splits option.splits sum.splits)
      then show ?thesis using recv_waitall_length [of "n - length bs" s1 r1 s'] Cons Data False by simp
    qed
  qed (use assms Cons in auto)
qed (use assms in simp)

function recv_header_loop ::
  "nat \<Rightarrow> errno \<Rightarrow> recv_event list \<Rightarrow> (byte list option \<times> errno \<times> recv_event list) option" where
  "recv_header_loop fails err s =
     (case recv_waitall 24 s of
        None \<Rightarrow> None
      | Some (r, s1) \<Rightarrow>
          if (case r of Inr bs \<Rightarrow> length bs = 24 | Inl _ \<Rightarrow> False)
          then Some (Some (case r of Inr bs \<Rightarrow> bs | Inl _ \<Rightarrow> []), err, s1)
          else
            let err' = (case r of Inl e \<Rightarrow> e | Inr _ \<Rightarrow> err);
                fails' = (if err' = EINTR then fails + 1 else fails)
            in if err' = EINTR \<and> fails' < 10 then recv_header_loop fails' err' s1
               else if (case r of Inr _ \<Rightarrow> True | Inl _ \<Rightarrow> False) \<or> fails' + 1 > SOCKET_TIMEOUT_CLIENT_RETRIES then Some (None, err', s1)
               else if err' = EAGAIN then recv_header_loop (fails' + 1) err' s1
               else Some (None, err', s1))"
  by pat_completeness auto
termination
  by (relation "measure (\<lambda>(fails, err, s). length (all_data s) + length s)")
    (auto dest!: recv_waitall_consumes split: sum.splits)

declare recv_header_loop.simps [simp del]

definition recv_request_header ::
  "errno \<Rightarrow> recv_event list \<Rightarrow> (dnbd3_request_t option \<times> errno \<times> recv_event list) option" where
  "recv_request_header err s =
     (case recv_header_loop 0 err s of
        None \<Rightarrow> None
      | Some (None, err1, s1) \<Rightarrow> Some (None, err1, s1)
      | Some (Some bs, err1, s1) \<Rightarrow>
          let request = request_of_bytes bs in
          if rq_magic request \<noteq> dnbd3_packet_magic then Some (None, err1, s1)
          else if rq_cmd request \<noteq> CMD_GET_BLOCK \<and> unat (rq_size request) > MAX_PAYLOAD then Some (None, err1, s1)
          else Some (Some request, err1, s1))"

definition recv_request_payload ::
  "u32 \<Rightarrow> serialized_buffer_t \<Rightarrow> recv_event list \<Rightarrow> (bool \<times> serialized_buffer_t \<times> recv_event list) option" where
  "recv_request_payload sz payload s =
     (if sz = 0 then Some (False, payload, s)
      else if unat sz > MAX_PAYLOAD then Some (False, payload, s)
      else case sock_recv (unat sz) s of
        None \<Rightarrow> None
      | Some (ret, got, s1) \<Rightarrow>
          let p1 = payload\<lparr>buffer := got @ drop (length got) (buffer payload)\<rparr>
          in if ret \<noteq> int (unat sz) then Some (False, p1, s1)
             else Some (True, serializer_reset_read p1 (unat sz), s1))"

section \<open>Sending replies\<close>

definition send_reply ::
  "dnbd3_reply_t \<Rightarrow> byte list option \<Rightarrow> send_event list \<Rightarrow> (bool \<times> byte list \<times> send_event list) option" where
  "send_reply reply payload s =
     (case sock_sendAll (reply_bytes reply) 1 s of
        None \<Rightarrow> None
      | Some (ret, out, s1) \<Rightarrow>
          if ret \<noteq> 16 then Some (False, out, s1)
          else case payload of
            None \<Rightarrow> Some (True, out, s1)
          | Some p \<Rightarrow>
              if rp_size reply = 0 then Some (True, out, s1)
              else (case sock_sendAll (take (unat (rp_size reply)) p) 1 s1 of
                      None \<Rightarrow> None
                    | Some (ret2, out2, s2) \<Rightarrow> Some (ret2 = int (unat (rp_size reply)), out @ out2, s2)))"

text \<open>Null bytes, at most 500 at a time.\<close>


function sendPadding :: "nat \<Rightarrow> send_event list \<Rightarrow> (bool \<times> byte list \<times> send_event list) option" where
  "sendPadding bytes s =
     (if bytes \<ge> 500
      then case sock_sendAll (replicate 500 0) 2 s of
             None \<Rightarrow> None
           | Some (ret, out, s1) \<Rightarrow>
               if ret \<le> 0 then Some (False, out, s1)
               else (case sendPadding (bytes - nat ret) s1 of
                       None \<Rightarrow> None
                     | Some (ok, out2, s2) \<Rightarrow> Some (ok, out @ out2, s2))
      else case sock_sendAll (replicate bytes 0) 2 s of
             None \<Rightarrow> None
           | Some (ret, out, s1) \<Rightarrow> Some (ret = int bytes, out, s1))"
  by pat_completeness auto
termination
  by (relation "measure fst") auto

declare sendPadding.simps [simp del]

end
