(* ===== verification/NetClient.thy ===== *)
theory NetClient
  imports NetServer
begin

text \<open>
  A client connection from its first request to its end, \<^verbatim>\<open>net_handleNewConnection\<close> of \<^verbatim>\<open>src/server/net.c\<close>: the
  handshake, the commands, blocks served from the cache file, blocks relayed to the uplink, the callback for the
  latter, and the end of the connection. The image with its uplink and cache file is an \<open>uplink_state\<close>; the
  connection has the client, the reply structure that every reply uses again, the cache map it holds on to, the bytes
  put on the wire so far and the scripts of its system calls.
\<close>

section \<open>A connection\<close>

text \<open>
  The result of one \<^verbatim>\<open>sendfile\<close>: the number of bytes the socket takes at most, or an error, with \<open>True\<close> for one
  that means that the file cannot be read (\<^verbatim>\<open>EBADF\<close>, \<^verbatim>\<open>EFAULT\<close>, \<^verbatim>\<open>EINVAL\<close>, \<^verbatim>\<open>EIO\<close>).
\<close>

datatype sendfile_result = SfSent nat | SfError bool

text \<open>
  \<open>cn_cache\<close> is the cache map the connection has a reference to, which outlives the image's own; writes of other threads to
  it are part of the environment.
\<close>

record conn =
  cn_client :: dnbd3_client_t
  cn_id :: nat
  cn_reply :: dnbd3_reply_t
  cn_cache :: "dnbd3_cache_map_t option"
  cn_hasName :: bool
  cn_wire :: "byte list"
  cn_down :: bool
  cn_errno :: errno
  cn_in :: "recv_event list"
  cn_out :: "send_event list"
  cn_file :: "sendfile_result list"

text \<open>
  What happens beside one request: the work of other threads on the image and its uplink, and on the cache map the
  connection holds; the work of other threads in each round of waiting; the alt servers.
\<close>

record net_env =
  ne_others :: "uplink_state \<Rightarrow> uplink_state"
  ne_cache :: "dnbd3_cache_map_t \<Rightarrow> dnbd3_cache_map_t"
  ne_shutdown :: bool
  ne_alts :: alt_state
  ne_rounds :: "(uplink_state \<Rightarrow> uplink_state) list"
  ne_uplink :: uplink_env

definition conn_reply :: "dnbd3_reply_t \<Rightarrow> byte list option \<Rightarrow> conn \<Rightarrow> (bool \<times> conn) option" where
  "conn_reply reply payload c =
     map_option (\<lambda>(ok, out, s). (ok, c\<lparr>cn_reply := reply, cn_wire := cn_wire c @ out, cn_out := s\<rparr>))
       (send_reply reply payload (cn_out c))"

definition set_relayed :: "u8 \<Rightarrow> conn \<Rightarrow> conn" where
  "set_relayed n c = c\<lparr>cn_client := (cn_client c)\<lparr>relayedCount := n\<rparr>\<rparr>"

section \<open>Relayed requests\<close>

definition uplinkCallback :: "callback \<Rightarrow> conn \<Rightarrow> conn option" where
  "uplinkCallback cb c =
     (let reply = \<lparr>rp_magic = dnbd3_packet_magic, rp_cmd = (if cb_buffer cb = None then CMD_ERROR else CMD_GET_BLOCK),
                   rp_size = cb_length cb, rp_handle = cb_handle cb\<rparr>
      in case send_reply reply (cb_buffer cb) (cn_out c) of
           None \<Rightarrow> None
         | Some (_, out, s) \<Rightarrow>
             Some (set_relayed (relayedCount (cn_client c) - 1)
               (c\<lparr>cn_wire := cn_wire c @ out, cn_out := s, cn_down := (cn_down c \<or> cb_buffer cb = None)\<rparr>)))"

fun deliver :: "callback list \<Rightarrow> conn \<Rightarrow> conn option" where
  "deliver [] c = Some c"
| "deliver (cb # cbs) c = (case uplinkCallback cb c of None \<Rightarrow> None | Some c1 \<Rightarrow> deliver cbs c1)"

text \<open>Other threads work; the callbacks they fire for this client run in their course.\<close>

definition mine :: "nat \<Rightarrow> uplink_callback \<Rightarrow> nat \<Rightarrow> bool" where
  "mine client fn dat \<longleftrightarrow> fn = NetCallback \<and> dat = client"

definition run_others :: "(uplink_state \<Rightarrow> uplink_state) \<Rightarrow> conn \<Rightarrow> uplink_state \<Rightarrow> (conn \<times> uplink_state) option" where
  "run_others f c st =
     map_option (\<lambda>c1. (c1, f st))
       (deliver (filter (\<lambda>cb. mine (cn_id c) (cb_fn cb) (cb_data cb)) (drop (length (calls st)) (calls (f st)))) c)"

text \<open>Waiting for the uplink: \<open>n\<close> rounds at most, while the counter is above the limit.\<close>

fun wait_relayed ::
  "u8 \<Rightarrow> nat \<Rightarrow> (uplink_state \<Rightarrow> uplink_state) list \<Rightarrow> conn \<Rightarrow> uplink_state \<Rightarrow> (conn \<times> uplink_state) option" where
  "wait_relayed limit 0 rounds c st = Some (c, st)"
| "wait_relayed limit (Suc n) rounds c st =
     (if relayedCount (cn_client c) \<le> limit then Some (c, st)
      else case rounds of
        [] \<Rightarrow> wait_relayed limit n [] c st
      | r # rs \<Rightarrow> (case run_others r c st of None \<Rightarrow> None | Some (c1, st1) \<Rightarrow> wait_relayed limit n rs c1 st1))"

definition throttle ::
  "(uplink_state \<Rightarrow> uplink_state) list \<Rightarrow> conn \<Rightarrow> uplink_state \<Rightarrow> (bool \<times> conn \<times> uplink_state) option" where
  "throttle rounds c st =
     (if relayedCount (cn_client c) > 250
      then map_option (\<lambda>(c1, st1). (\<not> relayedCount (cn_client c1) > 250, c1, st1)) (wait_relayed 200 100 rounds c st)
      else Some (True, c, st))"

text \<open>The first component of the result is whether the loop goes on; otherwise the connection ends.\<close>

definition relay ::
  "config \<Rightarrow> net_env \<Rightarrow> dnbd3_request_t \<Rightarrow> conn \<Rightarrow> uplink_state \<Rightarrow> (bool \<times> conn \<times> uplink_state) option" where
  "relay cfg e req c st =
     (case throttle (ne_rounds e) c st of
        None \<Rightarrow> None
      | Some (False, c1, st1) \<Rightarrow> Some (False, c1, st1)
      | Some (True, c1, st1) \<Rightarrow>
          let c2 = set_relayed (relayedCount (cn_client c1) + 1) c1;
              (ok, st2) = uplink_requestClient cfg (ne_uplink e) (c_host (cn_client c2))
                \<lparr>r_data = cn_id c2, r_callback = NetCallback, r_handle = rq_handle req\<rparr>
                (offset_small req) (rq_size req) (hops req) st1
          in Some (ok, if ok then c2 else set_relayed (relayedCount (cn_client c2) - 1) c2, st2))"

section \<open>Blocks from the cache file\<close>

text \<open>
  The loop around \<^verbatim>\<open>sendfile\<close>: \<open>Inr\<close> after everything went out, \<open>Inl\<close> after a failure, with the flag that disables
  the image. \<open>flen\<close> is the length of the file: at its end \<^verbatim>\<open>sendfile\<close> returns 0.
\<close>

fun serve_loop ::
  "(nat \<Rightarrow> byte) \<Rightarrow> nat \<Rightarrow> nat \<Rightarrow> nat \<Rightarrow> sendfile_result list \<Rightarrow> ((bool + unit) \<times> byte list \<times> sendfile_result list) option" where
  "serve_loop d flen pos todo [] = (if todo = 0 then Some (Inr (), [], []) else None)"
| "serve_loop d flen pos todo (r # rs) =
     (if todo = 0 then Some (Inr (), [], r # rs)
      else case r of
        SfError bad \<Rightarrow> Some (Inl bad, [], rs)
      | SfSent n \<Rightarrow>
          let k = min n (min todo (flen - pos)) in
          if k = 0 then Some (Inl False, [], rs)
          else (case serve_loop d flen (pos + k) (todo - k) rs of
                  None \<Rightarrow> None
                | Some (res, out, rs1) \<Rightarrow> Some (res, map d [pos ..< pos + k] @ out, rs1)))"

definition real_bytes :: "u64 \<Rightarrow> u32 \<Rightarrow> dnbd3_image_t \<Rightarrow> u64" where
  "real_bytes off sz i = (if off + ucast sz \<le> realFilesize i then ucast sz else realFilesize i - off)"

fun send_once :: "byte list \<Rightarrow> send_event list \<Rightarrow> (int \<times> byte list \<times> send_event list) option" where
  "send_once bs [] = None"
| "send_once bs (Serr e # s) = Some (-1, [], s)"
| "send_once bs (Sent n # s) = Some (int (min n (length bs)), take n bs, s)"

definition send_block ::
  "nat \<Rightarrow> u64 \<Rightarrow> u32 \<Rightarrow> conn \<Rightarrow> uplink_state \<Rightarrow> (bool \<times> conn \<times> uplink_state) option" where
  "send_block flen off sz c st =
     (let realBytes = real_bytes off sz (img st) in
      case serve_loop (disk st) flen (unat off) (unat realBytes) (cn_file c) of
        None \<Rightarrow> None
      | Some (Inl bad, out, rs) \<Rightarrow>
          Some (False, c\<lparr>cn_wire := cn_wire c @ out, cn_file := rs\<rparr>,
            if bad then st\<lparr>img := (img st)\<lparr>problem := (problem (img st))\<lparr>p_read := True\<rparr>\<rparr>\<rparr> else st)
      | Some (Inr _, out, rs) \<Rightarrow>
          let c1 = c\<lparr>cn_wire := cn_wire c @ out, cn_file := rs\<rparr> in
          if sz > ucast realBytes
          then map_option (\<lambda>(ok, out2, s). (ok, c1\<lparr>cn_wire := cn_wire c1 @ out2, cn_out := s\<rparr>, st))
                 (sendPadding (unat (sz - ucast realBytes)) (cn_out c1))
          else Some (True, c1, st))"

definition answer_local ::
  "nat \<Rightarrow> dnbd3_request_t \<Rightarrow> conn \<Rightarrow> uplink_state \<Rightarrow> (bool \<times> conn \<times> uplink_state) option" where
  "answer_local flen req c st =
     (let reply = (cn_reply c)\<lparr>rp_cmd := CMD_GET_BLOCK, rp_size := rq_size req\<rparr>;
          count = (\<lambda>c. c\<lparr>cn_client := (cn_client c)\<lparr>bytesSent := bytesSent (cn_client c) + ucast (rq_size req)\<rparr>\<rparr>)
      in case send_once (reply_bytes reply) (cn_out c) of
           None \<Rightarrow> None
         | Some (ret, out, s) \<Rightarrow>
             let c1 = c\<lparr>cn_reply := reply, cn_wire := cn_wire c @ out, cn_out := s\<rparr> in
             if ret \<noteq> 16 then Some (False, c1, st)
             else if rq_size req = 0 then Some (True, count c1, st)
             else (case send_block flen (offset_small req) (rq_size req) c1 st of
                     None \<Rightarrow> None
                   | Some (ok, c2, st2) \<Rightarrow> Some (ok, if ok then count c2 else c2, st2)))"

text \<open>\<^verbatim>\<open>CMD_GET_BLOCK\<close>: two sanity checks, then relay or answer.\<close>

definition get_block ::
  "config \<Rightarrow> net_env \<Rightarrow> nat \<Rightarrow> dnbd3_request_t \<Rightarrow> conn \<Rightarrow> uplink_state \<Rightarrow> (bool \<times> conn \<times> uplink_state) option" where
  "get_block cfg e flen req c st =
     (let off = offset_small req; sz = rq_size req;
          c1 = c\<lparr>cn_reply := (cn_reply c)\<lparr>rp_handle := rq_handle req\<rparr>\<rparr>
      in if off \<ge> virtualFilesize (img st) \<or> off + ucast sz > virtualFilesize (img st)
         then map_option (\<lambda>(_, c2). (True, c2, st)) (conn_reply ((cn_reply c1)\<lparr>rp_size := 0, rp_cmd := CMD_ERROR\<rparr>) None c1)
         else let c2 = (case cn_cache c1 of None \<Rightarrow> c1\<lparr>cn_cache := ref_cacheMap (img st)\<rparr> | Some _ \<Rightarrow> c1) in
           case cn_cache c2 of
             Some cache \<Rightarrow>
               if sz \<noteq> 0 \<and> \<not> image_isRangeCachedUnsafe cache (block_floor off) (block_ceil (off + ucast sz))
               then relay cfg e req c2 st else answer_local flen req c2 st
           | None \<Rightarrow> answer_local flen req c2 st)"

section \<open>Other commands\<close>

definition server_entry_bytes :: "dnbd3_server_entry_t \<Rightarrow> byte list" where
  "server_entry_bytes e = addr (se_host e) @ to_le 2 (port (se_host e)) @ [htype (se_host e), se_failures e]"

definition get_servers :: "alt_state \<Rightarrow> conn \<Rightarrow> uplink_state \<Rightarrow> conn option" where
  "get_servers alts c st =
     (let entries = altservers_getListForClient (c_host (cn_client c)) (name (img st)) NUMBER_SERVERS alts;
          reply = (cn_reply c)\<lparr>rp_cmd := CMD_GET_SERVERS, rp_size := word_of_nat (20 * length entries)\<rparr>
      in map_option (\<lambda>(_, c1). c1\<lparr>cn_hasName := True\<rparr>)
           (conn_reply reply (Some (concat (map server_entry_bytes entries))) c))"

definition get_keepalive :: "conn \<Rightarrow> conn option" where
  "get_keepalive c =
     map_option (\<lambda>(_, c1). c1\<lparr>cn_hasName := True\<rparr>)
       (conn_reply ((cn_reply c)\<lparr>rp_cmd := CMD_KEEPALIVE, rp_size := 0\<rparr>) None c)"

text \<open>The list of checksums goes out in three pieces; the results of the last two are not looked at.\<close>

definition conn_send :: "byte list \<Rightarrow> conn \<Rightarrow> conn option" where
  "conn_send bs c = map_option (\<lambda>(_, out, s). c\<lparr>cn_wire := cn_wire c @ out, cn_out := s\<rparr>) (send_once bs (cn_out c))"

definition get_crc32 :: "conn \<Rightarrow> uplink_state \<Rightarrow> conn option" where
  "get_crc32 c st =
     (case dnbd3_image_t.crc32 (img st) of
        None \<Rightarrow> map_option snd (conn_reply ((cn_reply c)\<lparr>rp_cmd := CMD_GET_CRC32, rp_size := 0\<rparr>) None c)
      | Some crcs \<Rightarrow>
          let sz = (word_of_int ((IMGSIZE_TO_HASHBLOCKS (realFilesize (img st)) + 1) * 4) :: u32) in
          case conn_reply ((cn_reply c)\<lparr>rp_cmd := CMD_GET_CRC32, rp_size := sz\<rparr>) None c of
            None \<Rightarrow> None
          | Some (_, c1) \<Rightarrow>
              (case conn_send (to_le 4 (masterCrc32 (img st))) c1 of
                 None \<Rightarrow> None
               | Some c2 \<Rightarrow> conn_send (take (unat (sz - 4)) (concat (map (to_le 4) crcs))) c2))"

definition other_command :: "alt_state \<Rightarrow> dnbd3_request_t \<Rightarrow> conn \<Rightarrow> uplink_state \<Rightarrow> conn option" where
  "other_command alts req c st =
     (let c1 = c\<lparr>cn_cache := None\<rparr> in
      if rq_cmd req = CMD_GET_SERVERS then get_servers alts c1 st
      else if rq_cmd req = CMD_KEEPALIVE then get_keepalive c1
      else if rq_cmd req = CMD_SET_CLIENT_MODE then Some (c1\<lparr>cn_client := (cn_client c1)\<lparr>isServer := False\<rparr>\<rparr>)
      else if rq_cmd req = CMD_GET_CRC32 then get_crc32 c1 st
      else Some c1)"

definition handle_request ::
  "config \<Rightarrow> net_env \<Rightarrow> nat \<Rightarrow> dnbd3_request_t \<Rightarrow> conn \<Rightarrow> uplink_state \<Rightarrow> (bool \<times> conn \<times> uplink_state) option" where
  "handle_request cfg e flen req c st =
     (if rq_cmd req = CMD_GET_BLOCK then get_block cfg e flen req c st
      else map_option (\<lambda>c1. (True, c1, st)) (other_command (ne_alts e) req c st))"

text \<open>
  The loop over the requests. Before each request other threads have worked, on the image and on the cache map the
  connection holds, and the uplink has called back. One environment is used up per request.
\<close>

definition between :: "net_env \<Rightarrow> conn \<Rightarrow> uplink_state \<Rightarrow> (conn \<times> uplink_state) option" where
  "between e c st =
     map_option (\<lambda>(c1, st1). (c1\<lparr>cn_cache := map_option (ne_cache e) (cn_cache c1)\<rparr>, st1)) (run_others (ne_others e) c st)"

fun client_loop ::
  "config \<Rightarrow> nat \<Rightarrow> net_env list \<Rightarrow> conn \<Rightarrow> uplink_state \<Rightarrow> (conn \<times> uplink_state) option" where
  "client_loop cfg flen [] c st =
     (case recv_request_header (cn_errno c) (cn_in c) of
        Some (None, err, s) \<Rightarrow> Some (c\<lparr>cn_errno := err, cn_in := s\<rparr>, st)
      | _ \<Rightarrow> None)"
| "client_loop cfg flen (e # es) c st =
     (case recv_request_header (cn_errno c) (cn_in c) of
        None \<Rightarrow> None
      | Some (None, err, s) \<Rightarrow> Some (c\<lparr>cn_errno := err, cn_in := s\<rparr>, st)
      | Some (Some req, err, s) \<Rightarrow>
          (case between e (c\<lparr>cn_errno := err, cn_in := s\<rparr>) st of
             None \<Rightarrow> None
           | Some (c1, st1) \<Rightarrow>
               if ne_shutdown e then Some (c1, st1)
               else (case handle_request cfg e flen req c1 st1 of
                       None \<Rightarrow> None
                     | Some (False, c2, st2) \<Rightarrow> Some (c2, st2)
                     | Some (True, c2, st2) \<Rightarrow> client_loop cfg flen es c2 st2)))"

section \<open>The handshake\<close>

text \<open>The first request: something else, an HTTP request, or the selection of an image.\<close>

datatype first_request = FirstBad | FirstHttp | FirstSelect dnbd3_request_t

definition recv_first :: "recv_event list \<Rightarrow> (first_request \<times> recv_event list) option" where
  "recv_first s =
     (case recv_waitall 24 s of
        None \<Rightarrow> None
      | Some (Inl _, s1) \<Rightarrow> Some (FirstBad, s1)
      | Some (Inr bs, s1) \<Rightarrow>
          if length bs \<noteq> 24 then Some (FirstBad, s1)
          else let request = request_of_bytes bs in
            if rq_magic request \<noteq> dnbd3_packet_magic
            then Some (if bs ! 0 = of_char (CHR ''G'') \<or> bs ! 0 = of_char (CHR ''P'') then FirstHttp else FirstBad, s1)
            else if rq_cmd request \<noteq> CMD_SELECT_IMAGE then Some (FirstBad, s1)
            else Some (FirstSelect request, s1))"

record handshake =
  hs_version :: u16
  hs_name :: "byte list option"
  hs_rid :: u16
  hs_flags :: u8

definition parse_handshake :: "byte \<Rightarrow> serialized_buffer_t \<Rightarrow> handshake \<times> serialized_buffer_t" where
  "parse_handshake beyond b =
     (let (ver, b1) = serializer_get_uint16 b;
          (nm, b2) = serializer_get_string beyond b1;
          (revision, b3) = serializer_get_uint16 b2;
          (flags, b4) = serializer_get_uint8 b3
      in (\<lparr>hs_version = ver, hs_name = nm, hs_rid = revision, hs_flags = flags\<rparr>, b4))"

text \<open>
  Which image the client gets: \<open>loaded\<close> is what \<^verbatim>\<open>image_getOrLoad\<close> returns for the name and revision, \<open>known\<close> what
  \<^verbatim>\<open>image_get\<close> returns; the address of the image and its state. An image that is not handed out is released again.
\<close>

definition find_image ::
  "config \<Rightarrow> bool \<Rightarrow> u8 \<Rightarrow> (nat \<times> uplink_state) option \<Rightarrow> (nat \<times> uplink_state) option \<Rightarrow> (nat \<times> uplink_state) option" where
  "find_image cfg fromServer flags loaded known =
     (if \<not> fromServer \<or> \<not> isProxy cfg then loaded
      else if backgroundReplication cfg \<noteq> BGR_FULL \<and> flags AND FLAGS8_BG_REP \<noteq> 0
      then (case known of
              None \<Rightarrow> None
            | Some (a, st) \<Rightarrow> if ref_cacheMap (img st) \<noteq> None then None else Some (a, st))
      else if lookupMissingForProxy cfg then loaded
      else known)"

text \<open>Clients of an image with a clogged or unavailable uplink are let in by chance.\<close>

definition accept_client :: "nat \<Rightarrow> dnbd3_image_t \<Rightarrow> bool" where
  "accept_client rnd i \<longleftrightarrow> \<not> p_read (problem i) \<and> \<not> p_changed (problem i)
     \<and> (ref_cacheMap i \<noteq> None \<and> (p_queue (problem i) \<or> p_write (problem i)) \<longrightarrow> rnd mod 4 = 1)"

definition select_reply_payload :: "serialized_buffer_t \<Rightarrow> u16 \<Rightarrow> dnbd3_image_t \<Rightarrow> serialized_buffer_t" where
  "select_reply_payload payload ver i =
     serializer_put_uint64
       (serializer_put_uint16
          (serializer_put_string
             (serializer_put_uint16 (serializer_reset_write payload) (if ver < 3 then ver else PROTOCOL_VERSION))
             (cstr_bytes (name i)))
          (rid i))
       (virtualFilesize i)"

definition touch_image :: "ticks \<Rightarrow> uplink_state \<Rightarrow> uplink_state" where
  "touch_image now st = st\<lparr>img := (img st)\<lparr>atime := now, accessed := True\<rparr>\<rparr>"

text \<open>
  Everything from the payload of the first request to the reply. The results: whether the client goes on, the
  connection, and the image it is attached to, which is to be released at the end.
\<close>

definition select_image ::
  "config \<Rightarrow> byte \<Rightarrow> ticks \<Rightarrow> nat \<Rightarrow> (byte list \<Rightarrow> u16 \<Rightarrow> (nat \<times> uplink_state) option)
     \<Rightarrow> (byte list \<Rightarrow> u16 \<Rightarrow> (nat \<times> uplink_state) option) \<Rightarrow> dnbd3_request_t \<Rightarrow> conn
     \<Rightarrow> (bool \<times> conn \<times> uplink_state option) option" where
  "select_image cfg beyond now rnd getOrLoad get request c =
     (case recv_request_payload (rq_size request) \<lparr>buffer = replicate MAX_PAYLOAD 0, buffer_end = 0, buffer_pointer = 0\<rparr> (cn_in c) of
        None \<Rightarrow> None
      | Some (False, _, s) \<Rightarrow> Some (False, c\<lparr>cn_in := s\<rparr>, None)
      | Some (True, payload, s) \<Rightarrow>
          let (hs, payload1) = parse_handshake beyond payload;
              fromServer = (hs_flags hs AND FLAGS8_SERVER \<noteq> 0);
              c1 = c\<lparr>cn_in := s, cn_client := (cn_client c)\<lparr>isServer := fromServer\<rparr>\<rparr>
          in case hs_name hs of
               None \<Rightarrow> Some (False, c1, None)
             | Some nm \<Rightarrow>
                 if rq_size request < 3 \<or> hs_version hs < MIN_SUPPORTED_CLIENT then Some (False, c1, None)
                 else (case find_image cfg fromServer (hs_flags hs) (getOrLoad nm (hs_rid hs)) (get nm (hs_rid hs)) of
                         None \<Rightarrow> Some (False, c1, None)
                       | Some (a, st) \<Rightarrow>
                           let c2 = c1\<lparr>cn_client := (cn_client c1)\<lparr>c_image := Some a\<rparr>\<rparr> in
                           if \<not> accept_client rnd (img st) then Some (False, c2, Some st)
                           else let st1 = (if fromServer then st else touch_image now st);
                                    reply = select_reply_payload payload1 (hs_version hs) (img st1)
                                in map_option (\<lambda>(ok, c3). (ok, c3, Some st1))
                                     (conn_reply ((cn_reply c2)\<lparr>rp_cmd := CMD_SELECT_IMAGE,
                                        rp_size := serializer_get_written_length reply\<rparr>) (Some (buffer reply)) c2)))"

section \<open>The end of a connection\<close>

text \<open>
  \<^verbatim>\<open>freeClientStruct\<close>: the requests of the client are taken out of the queue, which calls back for each of them,
  then the rest is waited for. The socket is closed and the image given back.
\<close>

definition freeClientStruct ::
  "(uplink_state \<Rightarrow> uplink_state) list \<Rightarrow> conn \<Rightarrow> uplink_state option \<Rightarrow> (conn \<times> uplink_state option) option" where
  "freeClientStruct rounds c im =
     (case im of
        None \<Rightarrow> Some (c\<lparr>cn_client := (cn_client c)\<lparr>c_sock := -1\<rparr>\<rparr>, None)
      | Some st \<Rightarrow>
          let st1 = (if uplinkref (img st) \<noteq> None \<and> relayedCount (cn_client c) \<noteq> 0
                     then uplink_removeEntry (cn_id c) NetCallback st else st)
          in case deliver (drop (length (calls st)) (calls st1)) c of
               None \<Rightarrow> None
             | Some c1 \<Rightarrow>
                 map_option (\<lambda>(c2, st2). (c2\<lparr>cn_client := (cn_client c2)\<lparr>c_sock := -1, c_image := None\<rparr>\<rparr>,
                                          Some (st2\<lparr>img := (img st2)\<lparr>users := users (img st2) - 1\<rparr>\<rparr>)))
                   (wait_relayed 0 1000 rounds c1 st1))"

definition end_connection ::
  "ticks \<Rightarrow> (uplink_state \<Rightarrow> uplink_state) list \<Rightarrow> client_list \<Rightarrow> u64 \<Rightarrow> conn \<Rightarrow> uplink_state option
     \<Rightarrow> (client_list \<times> u64 \<times> conn \<times> uplink_state option) option" where
  "end_connection now rounds l totalSent c im =
     (let sent = bytesSent (cn_client c);
          image1 = (if sent > DNBD3_BLOCK_SIZE * 10 then map_option (touch_image now) im else im)
      in map_option (\<lambda>(c1, image2). (removeFromList (cn_id c) l, totalSent + sent, c1, image2))
           (freeClientStruct rounds (c\<lparr>cn_cache := None\<rparr>) image1))"

section \<open>A whole connection\<close>

record conn_env =
  ce_beyond :: byte
  ce_now :: ticks
  ce_end :: ticks
  ce_rnd :: nat
  ce_getOrLoad :: "byte list \<Rightarrow> u16 \<Rightarrow> (nat \<times> uplink_state) option"
  ce_get :: "byte list \<Rightarrow> u16 \<Rightarrow> (nat \<times> uplink_state) option"
  ce_requests :: "net_env list"
  ce_rounds :: "(uplink_state \<Rightarrow> uplink_state) list"
  ce_list :: "client_list \<Rightarrow> client_list"

text \<open>The part between the two changes of the list of clients; \<open>ce_list\<close> is what other threads do to it meanwhile.\<close>

definition serve_client ::
  "config \<Rightarrow> conn_env \<Rightarrow> nat \<Rightarrow> dnbd3_request_t \<Rightarrow> conn \<Rightarrow> client_list \<Rightarrow> u64
     \<Rightarrow> (client_list \<times> u64 \<times> conn \<times> uplink_state option) option" where
  "serve_client cfg e flen request c l totalSent =
     (let c1 = c\<lparr>cn_reply := \<lparr>rp_magic = dnbd3_packet_magic, rp_cmd = 0, rp_size = 0, rp_handle = 0\<rparr>,
                 cn_cache := None, cn_hasName := False\<rparr>
      in case select_image cfg (ce_beyond e) (ce_now e) (ce_rnd e) (ce_getOrLoad e) (ce_get e) request c1 of
           None \<Rightarrow> None
         | Some (True, c2, Some st) \<Rightarrow>
             (case client_loop cfg flen (ce_requests e) c2 st of
                None \<Rightarrow> None
              | Some (c3, st3) \<Rightarrow> end_connection (ce_end e) (ce_rounds e) (ce_list e l) totalSent c3 (Some st3))
         | Some (_, c2, im) \<Rightarrow> end_connection (ce_end e) (ce_rounds e) (ce_list e l) totalSent c2 im)"

definition net_handleNewConnection ::
  "config \<Rightarrow> conn_env \<Rightarrow> nat \<Rightarrow> conn \<Rightarrow> client_list \<Rightarrow> u64 \<Rightarrow> (client_list \<times> u64 \<times> conn \<times> uplink_state option) option" where
  "net_handleNewConnection cfg e flen c l totalSent =
     (case recv_first (cn_in c) of
        None \<Rightarrow> None
      | Some (FirstSelect request, s) \<Rightarrow>
          let c1 = c\<lparr>cn_in := s, cn_client := (cn_client c)\<lparr>bytesSent := 0, relayedCount := 0\<rparr>\<rparr>;
              (added, l1) = addToList cfg (cn_id c1) l
          in if \<not> added
             then map_option (\<lambda>(c2, im). (l1, totalSent, c2, im)) (freeClientStruct [] c1 None)
             else serve_client cfg e flen request c1 l1 totalSent
      | Some (_, s) \<Rightarrow> Some (l, totalSent, c\<lparr>cn_in := s, cn_client := (cn_client c)\<lparr>c_sock := -1\<rparr>\<rparr>, None))"

end
