(* ===== verification/NetProof.thy ===== *)
theory NetProof
  imports NetClient UplinkSteps
begin

text \<open>
  What the server does for its clients: the list of clients is a set, a block served from the cache file has the bytes
  of the file, the handshake tells the client what it asked for, and no request of a client outlives it.
\<close>

section \<open>The list of clients is a set\<close>

text \<open>What a client of such a list relies on.\<close>

locale registry =
  fixes wf :: "'s \<Rightarrow> bool" and members :: "'s \<Rightarrow> nat set"
    and add :: "nat \<Rightarrow> 's \<Rightarrow> bool \<times> 's" and remove :: "nat \<Rightarrow> 's \<Rightarrow> 's"
  assumes add_law: "wf s \<Longrightarrow> x \<notin> members s \<Longrightarrow> add x s = (True, s') \<Longrightarrow> wf s' \<and> members s' = insert x (members s)"
    and full_law: "add x s = (False, s') \<Longrightarrow> s' = s"
    and remove_law: "wf s \<Longrightarrow> wf (remove x s) \<and> members (remove x s) = members s - {x}"
begin

lemma add_remove:
  assumes "wf s" "x \<notin> members s"
  shows "members (remove x (snd (add x s))) = members s"
proof (cases "add x s")
  case (Pair r s')
  then show ?thesis
    using add_law [OF assms, of s'] full_law [of x s s'] remove_law [of s' x] remove_law [OF assms(1), of x] assms
    by (cases r) auto
qed

lemma remove_twice: "wf s \<Longrightarrow> members (remove x (remove x s)) = members (remove x s)"
  using remove_law [of s x] remove_law [of "remove x s" x] by auto

end

definition clients_of :: "client_list \<Rightarrow> nat set" where
  "clients_of l = {c. Some c \<in> set (take (num_clients l) (slots l))}"

definition clients_wf :: "config \<Rightarrow> client_list \<Rightarrow> bool" where
  "clients_wf cfg l \<longleftrightarrow> length (slots l) = SERVER_MAX_CLIENTS \<and> maxClients cfg \<le> int SERVER_MAX_CLIENTS
     \<and> num_clients l \<le> SERVER_MAX_CLIENTS
     \<and> (\<forall>i j c. i < num_clients l \<and> j < num_clients l \<and> slots l ! i = Some c \<and> slots l ! j = Some c \<longrightarrow> i = j)"

lemma clients_of_iff:
  assumes "clients_wf cfg l"
  shows "c \<in> clients_of l \<longleftrightarrow> (\<exists>i < num_clients l. slots l ! i = Some c)"
  using assms by (auto simp: clients_of_def clients_wf_def in_set_conv_nth)

lemma clients_unique:
  "clients_wf cfg l \<Longrightarrow> i < num_clients l \<Longrightarrow> j < num_clients l \<Longrightarrow> slots l ! i = Some c \<Longrightarrow> slots l ! j = Some c \<Longrightarrow> i = j"
  by (auto simp: clients_wf_def)

lemma free_slot_Some: "free_slot cs i n = Some j \<Longrightarrow> i \<le> j \<and> j < i + n \<and> cs ! j = None"
  by (induction cs i n rule: free_slot.induct) (auto split: if_splits)

lemma free_slot_None: "free_slot cs i n = None \<longleftrightarrow> (\<forall>j. i \<le> j \<and> j < i + n \<longrightarrow> cs ! j \<noteq> None)"
proof (induction cs i n rule: free_slot.induct)
  case (2 cs i n)
  show ?case
  proof (cases "cs ! i = None")
    case False
    have "(i \<le> j \<and> j < i + Suc n) = (j = i \<or> (i + 1 \<le> j \<and> j < i + 1 + n))" for j by auto
    then show ?thesis using False 2 by auto
  qed auto
qed auto

lemma last_slot_Some: "last_slot cs c n = Some i \<Longrightarrow> i < n \<and> cs ! i = Some c"
  by (induction cs c n rule: last_slot.induct) (auto split: if_splits)

lemma last_slot_None: "last_slot cs c n = None \<longleftrightarrow> (\<forall>i < n. cs ! i \<noteq> Some c)"
  by (induction cs c n rule: last_slot.induct) (auto simp: less_Suc_eq)

lemma shrink_to_bounds: "shrink_to cs n \<le> n"
  by (induction cs n rule: shrink_to.induct) auto

lemma shrink_to_free: "shrink_to cs n \<le> i \<Longrightarrow> i < n \<Longrightarrow> cs ! i = None"
  by (induction cs n rule: shrink_to.induct) (auto simp: less_Suc_eq split: if_splits)

lemma addToList_law:
  assumes "clients_wf cfg l" "x \<notin> clients_of l" "addToList cfg x l = (True, l')"
  shows "clients_wf cfg l' \<and> clients_of l' = insert x (clients_of l)"
proof -
  have x: "\<And>i. i < num_clients l \<Longrightarrow> slots l ! i \<noteq> Some x" using assms(1,2) clients_of_iff by blast
  have wf: "length (slots l) = SERVER_MAX_CLIENTS" "maxClients cfg \<le> int SERVER_MAX_CLIENTS" "num_clients l \<le> SERVER_MAX_CLIENTS"
    using assms(1) by (simp_all add: clients_wf_def)
  obtain i where i: "i < num_clients l'" "i < SERVER_MAX_CLIENTS" "slots l' = (slots l)[i := Some x]" "i \<ge> num_clients l \<or> slots l ! i = None"
    "num_clients l' = max (num_clients l) (i + 1)" "i \<le> num_clients l"
  proof (cases "free_slot (slots l) 0 (num_clients l)")
    case None
    then show thesis using that [of "num_clients l"] assms(3) wf by (auto simp: addToList_def split: if_splits)
  next
    case (Some i)
    then show thesis using that [of i] free_slot_Some [OF Some] assms(3) wf by (auto simp: addToList_def max_def)
  qed
  have old: "slots l' ! j = (if j = i then Some x else slots l ! j)" if "j < num_clients l'" for j
    using that i wf by (auto simp: nth_list_update)
  have lt: "j < num_clients l' \<Longrightarrow> j \<noteq> i \<Longrightarrow> j < num_clients l" for j using i(5,6) by simp
  have wf': "clients_wf cfg l'"
    unfolding clients_wf_def
  proof (intro conjI allI impI)
    show "num_clients l' \<le> SERVER_MAX_CLIENTS" using i wf by simp
    fix a b c
    assume "a < num_clients l' \<and> b < num_clients l' \<and> slots l' ! a = Some c \<and> slots l' ! b = Some c"
    then show "a = b"
      using clients_unique [OF assms(1), of a b c] old [of a] old [of b] x lt by (auto split: if_splits)
  qed (use i wf in simp_all)
  moreover have "c \<in> clients_of l' \<longleftrightarrow> c = x \<or> c \<in> clients_of l" for c
  proof -
    have "c \<in> clients_of l' \<longleftrightarrow> c = x \<or> (\<exists>j < num_clients l'. j \<noteq> i \<and> slots l ! j = Some c)"
      unfolding clients_of_iff [OF wf'] using old i(1) by (auto split: if_splits)
    moreover have "j < num_clients l' \<and> j \<noteq> i \<and> slots l ! j = Some c \<longleftrightarrow> j < num_clients l \<and> slots l ! j = Some c" for j
      using i(4,5,6) by auto
    ultimately show ?thesis unfolding clients_of_iff [OF assms(1)] by auto
  qed
  ultimately show ?thesis by auto
qed

lemma removeFromList_law:
  assumes wf: "clients_wf cfg l"
  shows "clients_wf cfg (removeFromList x l) \<and> clients_of (removeFromList x l) = clients_of l - {x}"
proof (cases "last_slot (slots l) x (num_clients l)")
  case None
  then have "x \<notin> clients_of l" by (auto simp: last_slot_None clients_of_iff [OF wf])
  then show ?thesis using None wf by (simp add: removeFromList_def)
next
  case (Some i)
  define cs n where "cs = (slots l)[i := None]" and "n = (if i \<noteq> 0 \<and> i + 1 = num_clients l then shrink_to cs i else num_clients l)"
  have i: "i < num_clients l" "slots l ! i = Some x" using last_slot_Some [OF Some] by simp_all
  have len: "length (slots l) = SERVER_MAX_CLIENTS" "num_clients l \<le> SERVER_MAX_CLIENTS" using wf by (simp_all add: clients_wf_def)
  have l': "removeFromList x l = l\<lparr>slots := cs, num_clients := n\<rparr>"
    using Some i by (auto simp: removeFromList_def cs_def n_def Let_def)
  have n: "n \<le> num_clients l" using shrink_to_bounds [of cs i] i by (auto simp: n_def)
  have cs: "cs ! j = (if j = i then None else slots l ! j)" if "j < num_clients l" for j
    using that len by (auto simp: cs_def nth_list_update)
  have gone: "cs ! j = None" if "n \<le> j" "j < num_clients l" for j
    using that shrink_to_free [of cs i j] cs i by (auto simp: n_def less_Suc_eq split: if_splits)
  have wf': "clients_wf cfg (removeFromList x l)"
    using wf n cs unfolding l' by (auto simp: clients_wf_def cs_def split: if_splits)
  moreover have "c \<in> clients_of (removeFromList x l) \<longleftrightarrow> c \<in> clients_of l \<and> c \<noteq> x" for c
  proof -
    have "c \<in> clients_of (removeFromList x l) \<longleftrightarrow> (\<exists>j < num_clients l. cs ! j = Some c)"
      unfolding clients_of_iff [OF wf'] using n gone by (auto simp: l' intro: less_le_trans) (metis linorder_not_le option.distinct(1))
    also have "\<dots> \<longleftrightarrow> c \<in> clients_of l \<and> c \<noteq> x"
      unfolding clients_of_iff [OF wf] using cs i by (metis clients_unique [OF wf] option.distinct(1) option.inject)
    finally show ?thesis .
  qed
  ultimately show ?thesis by auto
qed

interpretation cl: registry "clients_wf cfg" clients_of "addToList cfg" removeFromList for cfg
proof unfold_locales
  show "addToList cfg x s = (False, s') \<Longrightarrow> s' = s" for x s s'
    by (auto simp: addToList_def split: option.splits if_splits)
qed (rule addToList_law removeFromList_law; assumption)+

lemma addToList_full:
  assumes wf: "clients_wf cfg l" and "addToList cfg x l = (False, l')"
  shows "maxClients cfg \<le> int (card (clients_of l))"
proof -
  have "free_slot (slots l) 0 (num_clients l) = None" and full: "maxClients cfg \<le> int (num_clients l)"
    using assms(2) by (auto simp: addToList_def split: option.splits if_splits)
  then have used: "\<exists>c. slots l ! i = Some c" if "i < num_clients l" for i using that by (auto simp: free_slot_None)
  have "clients_of l = (\<lambda>i. the (slots l ! i)) ` {..< num_clients l}"
    using used by (force simp: clients_of_iff [OF wf] image_iff)
  moreover have "inj_on (\<lambda>i. the (slots l ! i)) {..< num_clients l}"
    by (rule inj_onI) (metis clients_unique [OF wf] lessThan_iff option.sel used)
  ultimately show ?thesis using full by (simp add: card_image)
qed

lemma net_disconnectAll_set: "set (net_disconnectAll l) = clients_of l"
  by (force simp: net_disconnectAll_def clients_of_def split: option.splits)

text \<open>
  C37: The array of clients implements a set. Adding a client that is not in it inserts it or, when the configured
  number of clients is connected, leaves the array alone; removing a client deletes exactly that one, shortening the
  array keeps all others, and what a shutdown disconnects is the set of clients.
\<close>

theorem client_list_refines_set:
  assumes "clients_wf cfg l" "x \<notin> clients_of l" "addToList cfg x l = (r, l')"
  shows "(if r then clients_wf cfg l' \<and> clients_of l' = insert x (clients_of l)
          else l' = l \<and> maxClients cfg \<le> int (card (clients_of l)))
    \<and> clients_of (removeFromList x l') = clients_of l
    \<and> clients_wf cfg (removeFromList y l) \<and> clients_of (removeFromList y l) = clients_of l - {y}
    \<and> set (net_disconnectAll l') = clients_of l'"
  using cl.add_law [of cfg l x l'] cl.full_law [of cfg x l l'] addToList_full [of cfg l x l'] cl.add_remove [of cfg l x]
    cl.remove_law [of cfg l y] net_disconnectAll_set [of l'] assms
  by (cases r) simp_all

definition sample_clients :: client_list where
  "sample_clients = \<lparr>slots = [Some 5, None, Some 9] @ replicate 3997 None, num_clients = 3\<rparr>"

definition net_config :: config where
  "net_config = \<lparr>isProxy = True, proxyPrivateOnly = False, backgroundReplication = BGR_FULL, bgrMinClients = 0,
     bgrWindowSize = 1, lookupMissingForProxy = True, sparseFiles = False, maxClients = 2000, maxImages = 5000,
     maxPayload = 9437184, maxReplicationSize = 0, pretendClient = False, autoFreeDiskSpaceDelay = 0,
     maxPrefetch = 262144, minRequestSize = 0, removeMissingImages = True, vmdkLegacyMode = False, closeUnusedFd = False\<rparr>"

lemma sample_clients_wf: "clients_wf net_config sample_clients" "clients_of sample_clients = {5, 9}"
  by (auto simp: clients_wf_def clients_of_def sample_clients_def net_config_def SERVER_MAX_CLIENTS_def numeral_3_eq_3 less_Suc_eq)

theorem client_list_refines_set_witness:
  "clients_of (removeFromList 9 sample_clients) = {5}
   \<and> clients_of (removeFromList 7 (snd (addToList net_config 7 sample_clients))) = {5, 9}"
  using client_list_refines_set [of net_config sample_clients 7 _ _ 9, OF _ _ surjective_pairing] sample_clients_wf
  by auto

section \<open>Blocks from the cache file\<close>

lemma serve_loop_prefix:
  assumes "serve_loop d flen pos todo rs = Some (res, out, rs')"
  shows "\<exists>n \<le> todo. out = map d [pos ..< pos + n] \<and> (res = Inr () \<longrightarrow> n = todo) \<and> pos + n \<le> max pos flen"
  using assms
proof (induction d flen pos todo rs arbitrary: res out rs' rule: serve_loop.induct)
  case (1 d flen pos todo)
  then show ?case by (auto split: if_splits)
next
  case (2 d flen pos todo r rs)
  show ?case
  proof (cases "todo = 0 \<or> (\<exists>bad. r = SfError bad)")
    case True
    then show ?thesis using 2(2) by (auto split: if_splits)
  next
    case False
    then obtain n where r: "r = SfSent n" and todo: "todo \<noteq> 0" by (cases r) auto
    define k where "k = min n (min todo (flen - pos))"
    note eq = 2(2) [unfolded r serve_loop.simps sendfile_result.case Let_def, folded k_def]
    show ?thesis
    proof (cases "k = 0")
      case True
      then show ?thesis using eq todo by auto
    next
      case k: False
      then obtain out1 where rest: "serve_loop d flen (pos + k) (todo - k) rs = Some (res, out1, rs')" "out = map d [pos ..< pos + k] @ out1"
        using eq todo by (auto split: option.splits)
      obtain m where m: "m \<le> todo - k" "out1 = map d [pos + k ..< pos + k + m]" "res = Inr () \<longrightarrow> m = todo - k" "pos + k + m \<le> max (pos + k) flen"
        using 2(1) [OF todo r k_def k rest(1)] by blast
      have "map d [pos ..< pos + (k + m)] = map d [pos ..< pos + k] @ map d [pos + k ..< pos + k + m]"
        by (simp only: add.assoc [symmetric] upt_add_eq_append [OF le_add1] map_append)
      moreover have "k \<le> todo" "k \<le> flen - pos" unfolding k_def by simp_all
      then have "k + m \<le> todo" "res = Inr () \<longrightarrow> k + m = todo" "pos + (k + m) \<le> max pos flen"
        using m k by linarith+
      ultimately show ?thesis using rest(2) m(2) by (intro exI [of _ "k + m"]) simp
    qed
  qed
qed

lemma sendAll_prefix:
  assumes "sock_sendAll buf tries s = Some (ret, out, s')"
  shows "\<exists>n \<le> length buf. out = take n buf \<and> (ret > 0 \<longrightarrow> ret = int n) \<and> (ret \<le> 0 \<longrightarrow> n = 0)"
proof -
  have o: "out = take (length out) buf" "if out = [] then ret \<le> 0 else ret = int (length out)"
    using send_loop_sound [OF assms [unfolded sock_sendAll_def]] by simp_all
  then have "length out \<le> length buf" by (metis length_take min.cobounded1)
  then show ?thesis using o by (intro exI [of _ "length out"]) (auto split: if_splits)
qed

lemma sendPadding_prefix:
  assumes "sendPadding b s = Some (ok, out, s')"
  shows "\<exists>n \<le> b. out = replicate n 0 \<and> (ok \<longrightarrow> n = b)"
  using assms
proof (induction b s arbitrary: ok out s' rule: sendPadding.induct)
  case (1 b s)
  show ?case
  proof (cases "b \<ge> 500")
    case False
    then obtain ret where s1: "sock_sendAll (replicate b 0) 2 s = Some (ret, out, s')" "ok = (ret = int b)"
      using 1(2) by (subst (asm) sendPadding.simps) (auto split: option.splits)
    from sendAll_prefix [OF s1(1)] obtain n where n: "n \<le> b" "out = take n (replicate b 0)" "ret > 0 \<longrightarrow> ret = int n" "ret \<le> 0 \<longrightarrow> n = 0"
      by auto
    then show ?thesis using s1(2) by (intro exI [of _ n]) (auto simp: min_def)
  next
    case True
    then obtain ret out1 s1 where s1: "sock_sendAll (replicate 500 0) 2 s = Some (ret, out1, s1)"
      using 1(2) by (subst (asm) sendPadding.simps) (auto split: option.splits)
    from sendAll_prefix [OF s1] obtain n where n: "n \<le> 500" "out1 = take n (replicate 500 0)" "ret > 0 \<longrightarrow> ret = int n" "ret \<le> 0 \<longrightarrow> n = 0"
      by auto
    have o1: "out1 = replicate n 0" using n by (simp add: min_def)
    show ?thesis
    proof (cases "ret \<le> 0")
      case ret: True
      then show ?thesis using 1(2) True s1 n by (subst (asm) sendPadding.simps) auto
    next
      case ret: False
      then obtain out2 where s2: "sendPadding (b - nat ret) s1 = Some (ok, out2, s')" "out = out1 @ out2"
        using 1(2) True s1 by (subst (asm) sendPadding.simps) (auto split: option.splits)
      obtain m where m: "m \<le> b - nat ret" "out2 = replicate m 0" "ok \<longrightarrow> m = b - nat ret"
        using 1(1) [OF True s1 refl refl ret s2(1)] by auto
      then show ?thesis using s2(2) o1 n ret True by (intro exI [of _ "n + m"]) (auto simp: replicate_add)
    qed
  qed
qed

text \<open>The bytes of a range of the image: those of the file, then zeros.\<close>

definition served :: "uplink_state \<Rightarrow> nat \<Rightarrow> nat \<Rightarrow> byte list" where
  "served st off n = map (\<lambda>i. if i < unat (realFilesize (img st)) then disk st i else 0) [off ..< off + n]"

lemma length_served [simp]: "length (served st off n) = n"
  by (simp add: served_def)

lemma served_split:
  assumes "off \<le> unat (realFilesize (img st))" "rb = min n (unat (realFilesize (img st)) - off)"
  shows "served st off n = map (disk st) [off ..< off + rb] @ replicate (n - rb) 0"
proof (rule nth_equalityI)
  fix i
  assume "i < length (served st off n)"
  then show "served st off n ! i = (map (disk st) [off ..< off + rb] @ replicate (n - rb) 0) ! i"
    using assms by (auto simp: served_def nth_append)
qed (use assms in simp)

lemma real_bytes_unat:
  assumes "unat off \<le> unat (realFilesize i)" "unat off + unat sz < 2 ^ 64" "rb = min (unat sz) (unat (realFilesize i) - unat off)"
  shows "unat (real_bytes off sz i) = rb" "(sz > ucast (real_bytes off sz i)) = (unat sz > rb)"
    "unat (sz - ucast (real_bytes off sz i)) = unat sz - rb"
proof -
  have sz: "unat (ucast sz :: u64) = unat sz" by simp
  then have sum: "unat (off + ucast sz) = unat off + unat sz" using assms(2) by (simp add: unat_add_no_wrap)
  show rb: "unat (real_bytes off sz i) = rb"
  proof (cases "off + ucast sz \<le> realFilesize i")
    case True
    then show ?thesis using sum sz assms(3) by (simp add: real_bytes_def word_le_nat_alt)
  next
    case False
    then show ?thesis using sum assms by (simp add: real_bytes_def word_le_nat_alt unat_sub)
  qed
  have "rb < 2 ^ 32" using assms(3) unsigned_less [of sz, where 'a = nat] by simp
  then have c: "unat (ucast (real_bytes off sz i) :: u32) = rb"
    by (simp add: unsigned_ucast_eq rb take_bit_nat_eq_self)
  then show "(sz > ucast (real_bytes off sz i)) = (unat sz > rb)" by (simp add: word_less_nat_alt)
  show "unat (sz - ucast (real_bytes off sz i)) = unat sz - rb"
    using c assms(3) by (simp add: unat_sub word_le_nat_alt)
qed

lemma send_block_prefix:
  assumes "send_block flen off sz c st = Some (ok, c', st')" "flen = unat (realFilesize (img st))" "unat off \<le> flen"
    and "unat off + unat sz < 2 ^ 64"
  shows "\<exists>n \<le> unat sz. cn_wire c' = cn_wire c @ take n (served st (unat off) (unat sz)) \<and> (ok \<longrightarrow> n = unat sz)
     \<and> cn_client c' = cn_client c"
proof -
  define rb where "rb = min (unat sz) (flen - unat off)"
  note rb = real_bytes_unat [OF assms(3) [unfolded assms(2)] assms(4), of rb, OF rb_def [unfolded assms(2)]]
  have sv: "served st (unat off) (unat sz) = map (disk st) [unat off ..< unat off + rb] @ replicate (unat sz - rb) 0"
    using served_split assms(2,3) rb_def by simp
  have le: "rb \<le> unat sz" by (simp add: rb_def)
  obtain res out rs where sl: "serve_loop (disk st) flen (unat off) rb (cn_file c) = Some (res, out, rs)"
    using assms(1) rb(1) by (auto simp: send_block_def Let_def split: option.splits)
  obtain n where n: "n \<le> rb" "out = map (disk st) [unat off ..< unat off + n]" "res = Inr () \<longrightarrow> n = rb"
    using serve_loop_prefix [OF sl] by auto
  have out: "out = take n (served st (unat off) (unat sz))" unfolding sv n(2) using n(1) by (simp add: take_map)
  show ?thesis
  proof (cases res)
    case (Inl bad)
    then show ?thesis using assms(1) sl rb(1) out n(1) le by (intro exI [of _ n]) (auto simp: send_block_def Let_def)
  next
    case (Inr u)
    then have nr: "n = rb" using n(3) by simp
    show ?thesis
    proof (cases "unat sz > rb")
      case False
      then show ?thesis
        using assms(1) sl rb Inr out nr le by (intro exI [of _ n]) (auto simp: send_block_def Let_def)
    next
      case True
      then obtain out2 s where pd: "sendPadding (unat sz - rb) (cn_out c) = Some (ok, out2, s)"
        and c': "cn_wire c' = cn_wire c @ out @ out2" "cn_client c' = cn_client c"
        using assms(1) sl rb Inr by (auto simp: send_block_def Let_def)
      obtain m where m: "m \<le> unat sz - rb" "out2 = replicate m 0" "ok \<longrightarrow> m = unat sz - rb"
        using sendPadding_prefix [OF pd] by auto
      have "out @ out2 = take (rb + m) (served st (unat off) (unat sz))"
        unfolding n(2) nr m(2) sv using m(1) by simp
      then show ?thesis using c' m le by (intro exI [of _ "rb + m"]) auto
    qed
  qed
qed

lemma send_once_prefix:
  assumes "send_once bs s = Some (ret, out, s')"
  shows "\<exists>k \<le> length bs. out = take k bs \<and> (ret = int (length bs) \<longrightarrow> k = length bs)"
proof (cases s)
  case (Cons e s1)
  show ?thesis
  proof (cases e)
    case (Sent n)
    then show ?thesis using assms Cons by (intro exI [of _ "min n (length bs)"]) (auto simp: min_def)
  qed (use assms Cons in auto)
qed (use assms in simp)

lemma answer_local_prefix:
  assumes "answer_local flen req c st = Some (ok, c', st')" "flen = unat (realFilesize (img st))" "unat (offset_small req) \<le> flen"
    and "unat (offset_small req) + unat (rq_size req) < 2 ^ 64"
  defines "msg \<equiv> reply_bytes ((cn_reply c)\<lparr>rp_cmd := CMD_GET_BLOCK, rp_size := rq_size req\<rparr>)
       @ served st (unat (offset_small req)) (unat (rq_size req))"
  shows "\<exists>n \<le> length msg. cn_wire c' = cn_wire c @ take n msg \<and> (ok \<longrightarrow> n = length msg
     \<and> cn_client c' = (cn_client c)\<lparr>bytesSent := bytesSent (cn_client c) + ucast (rq_size req)\<rparr>)"
proof -
  define r where "r = (cn_reply c)\<lparr>rp_cmd := CMD_GET_BLOCK, rp_size := rq_size req\<rparr>"
  obtain ret out s where so: "send_once (reply_bytes r) (cn_out c) = Some (ret, out, s)"
    using assms(1) by (auto simp: answer_local_def Let_def r_def split: option.splits)
  then obtain k where k: "k \<le> 16" "out = take k (reply_bytes r)" "ret = 16 \<longrightarrow> k = 16"
    using send_once_prefix [OF so] by auto
  define c1 where "c1 = c\<lparr>cn_reply := r, cn_wire := cn_wire c @ out, cn_out := s\<rparr>"
  have msg: "msg = reply_bytes r @ served st (unat (offset_small req)) (unat (rq_size req))" by (simp add: msg_def r_def)
  note eq = assms(1) [unfolded answer_local_def Let_def, folded r_def, unfolded so option.case prod.case, folded c1_def]
  consider "ret \<noteq> 16" | "ret = 16" "rq_size req = 0" | "ret = 16" "rq_size req \<noteq> 0" by blast
  then show ?thesis
  proof cases
    case 1
    then show ?thesis using eq k msg by (intro exI [of _ k]) (auto simp: c1_def)
  next
    case 2
    then show ?thesis using eq k msg by (intro exI [of _ 16]) (auto simp: c1_def served_def)
  next
    case 3
    then obtain c2 where sb: "send_block flen (offset_small req) (rq_size req) c1 st = Some (ok, c2, st')"
      and c': "c' = (if ok then c2\<lparr>cn_client := (cn_client c2)\<lparr>bytesSent := bytesSent (cn_client c2) + ucast (rq_size req)\<rparr>\<rparr> else c2)"
      using eq by (auto split: option.splits)
    obtain n where n: "n \<le> unat (rq_size req)" "cn_wire c2 = cn_wire c1 @ take n (served st (unat (offset_small req)) (unat (rq_size req)))"
      "ok \<longrightarrow> n = unat (rq_size req)" "cn_client c2 = cn_client c1"
      using send_block_prefix [OF sb assms(2-4)] by auto
    then show ?thesis using c' k 3 msg by (intro exI [of _ "16 + n"]) (auto simp: c1_def)
  qed
qed

text \<open>
  The map a connection looks at, that it claims no block the image does not have, and the range it finds available.
\<close>

definition held_map :: "conn \<Rightarrow> uplink_state \<Rightarrow> dnbd3_cache_map_t option" where
  "held_map c st = (case cn_cache c of None \<Rightarrow> ref_cacheMap (img st) | Some m \<Rightarrow> Some m)"

definition held_ok :: "conn \<Rightarrow> uplink_state \<Rightarrow> bool" where
  "held_ok c st \<longleftrightarrow> (case cn_cache c of
     None \<Rightarrow> True
   | Some m \<Rightarrow> cached_blocks (cmap m) \<inter> {..< image_blocks (img st)} \<subseteq> cached (img st)
       \<and> unat (virtualFilesize (img st)) \<le> 32768 * length (cmap m))"

definition available :: "conn \<Rightarrow> uplink_state \<Rightarrow> nat \<Rightarrow> nat \<Rightarrow> bool" where
  "available c st off n \<longleftrightarrow> (case held_map c st of
     None \<Rightarrow> True
   | Some m \<Rightarrow> blocks_touching off (off + n) \<subseteq> cached_blocks (cmap m))"

definition with_handle :: "dnbd3_request_t \<Rightarrow> conn \<Rightarrow> uplink_state \<Rightarrow> conn" where
  "with_handle req c st = c\<lparr>cn_reply := (cn_reply c)\<lparr>rp_handle := rq_handle req\<rparr>, cn_cache := held_map c st\<rparr>"

lemma held_map_length:
  assumes "image_wf (img st)" "held_ok c st" "held_map c st = Some m"
  shows "unat (virtualFilesize (img st)) \<le> 32768 * length (cmap m)"
    "cached_blocks (cmap m) \<inter> {..< image_blocks (img st)} \<subseteq> cached (img st)"
  using assms image_wf_map [OF assms(1), of m] by (auto simp: held_map_def held_ok_def cached_def split: option.splits)

lemma touching_same:
  "blocks_touching (a div 4096 * 4096) ((b + 4095) div 4096 * 4096) = blocks_touching a b"
  by (simp add: blocks_touching_eq)

lemma get_block_cases:
  assumes wf: "image_wf (img st)" and held: "held_ok c st" and sz: "rq_size req \<noteq> 0"
    and le: "unat (offset_small req) + unat (rq_size req) \<le> unat (virtualFilesize (img st))"
  shows "get_block cfg e flen req c st =
    (if available c st (unat (offset_small req)) (unat (rq_size req)) then answer_local flen req (with_handle req c st) st
     else relay cfg e req (with_handle req c st) st)"
proof -
  define off where "off = offset_small req"
  define en where "en = off + ucast (rq_size req)"
  have en: "unat en = unat off + unat (rq_size req)" "en \<le> virtualFilesize (img st)"
    using request_range [OF wf le] by (simp_all add: en_def off_def)
  have pos: "unat (rq_size req) > 0" using sz by (simp add: unat_gt_0)
  have in_range: "\<not> (off \<ge> virtualFilesize (img st) \<or> en > virtualFilesize (img st))"
    using en le pos by (auto simp: word_le_nat_alt word_less_nat_alt off_def)
  have ceil: "unat (block_ceil en) = (unat en + 4095) div 4096 * 4096" "block_ceil en \<le> virtualFilesize (img st)"
    using unat_block_ceil [of en] block_ceil_in_image(2) [OF wf en(2)] en le image_wf_size(2) [OF wf] by (simp_all add: off_def)
  have lt: "unat (block_floor off) < unat (block_ceil en)"
    using ceil(1) en(1) pos round_up_le [of "unat en"] div_times_less_eq_dividend [of "unat off" 4096]
    unfolding unat_block_floor by linarith
  have test: "image_isRangeCachedUnsafe m (block_floor off) (block_ceil en)
      \<longleftrightarrow> blocks_touching (unat off) (unat off + unat (rq_size req)) \<subseteq> cached_blocks (cmap m)" if "held_map c st = Some m" for m
    using range_test [OF lt, of m] held_map_length(1) [OF wf held that] ceil touching_same [of "unat off" "unat en"] en(1)
    by (simp add: word_le_nat_alt unat_block_floor)
  have same: "c\<lparr>cn_reply := r, cn_cache := Some m\<rparr> = c\<lparr>cn_reply := r\<rparr>" if "cn_cache c = Some m" for r m
    using that by simp
  show ?thesis
    using in_range test sz
    by (auto simp: same get_block_def Let_def with_handle_def available_def held_map_def off_def en_def split: option.splits)
qed

lemma served_upstream:
  assumes co: "coherent up st" and wf: "image_wf (img st)" and held: "held_ok c st" and av: "available c st off n"
    and le: "off + n \<le> unat (realFilesize (img st))" "off + n \<le> unat (virtualFilesize (img st))"
  shows "served st off n = map up [off ..< off + n]"
proof -
  have "disk st i = up i" if i: "off \<le> i" "i < off + n" for i
  proof -
    have b: "i div 4096 < image_blocks (img st)"
      using i le(2) image_wf_size(1) [OF wf] by (intro less_mult_imp_div_less) linarith
    have "i = 4096 * (i div 4096) + i mod 4096" "i mod 4096 < 4096" by simp_all
    then have "4096 * (i div 4096) < off + n" "off < 4096 * (i div 4096) + 4096" using i by linarith+
    then have "i div 4096 \<in> blocks_touching off (off + n)" by (simp add: blocks_touching_def)
    then have "i div 4096 \<in> cached (img st)"
      using av b held_map_length(2) [OF wf held]
      by (cases "held_map c st") (auto simp: available_def held_map_def cached_def split: option.splits)
    then show ?thesis using co by (auto simp: coherent_def)
  qed
  then show ?thesis using le(1) by (auto simp: served_def)
qed

text \<open>
  C35: A block whose range is in the cache is answered from the cache file with exactly the upstream data: whatever the
  kernel accepts at a time, what goes out is a prefix of the header followed by those bytes, and when the connection
  goes on it is all of it and the bytes are accounted to the client. A range that is not cached is relayed instead.
\<close>

theorem local_blocks_are_upstream_data:
  assumes "image_wf (img st)" "held_ok c st" "coherent up st" "rq_size req \<noteq> 0"
    and "unat (offset_small req) + unat (rq_size req) \<le> unat (realFilesize (img st))" "realFilesize (img st) \<le> virtualFilesize (img st)"
    and "get_block cfg e (unat (realFilesize (img st))) req c st = Some (ok, c', st')"
  defines "msg \<equiv> reply_bytes ((cn_reply c)\<lparr>rp_handle := rq_handle req, rp_cmd := CMD_GET_BLOCK, rp_size := rq_size req\<rparr>)
       @ map up [unat (offset_small req) ..< unat (offset_small req) + unat (rq_size req)]"
  shows "if available c st (unat (offset_small req)) (unat (rq_size req))
    then \<exists>n \<le> length msg. cn_wire c' = cn_wire c @ take n msg \<and> (ok \<longrightarrow> n = length msg
      \<and> cn_client c' = (cn_client c)\<lparr>bytesSent := bytesSent (cn_client c) + ucast (rq_size req)\<rparr>)
    else relay cfg e req (with_handle req c st) st = Some (ok, c', st')"
proof -
  have le: "unat (offset_small req) + unat (rq_size req) \<le> unat (virtualFilesize (img st))"
    using assms(5,6) by (simp add: word_le_nat_alt)
  note gb = get_block_cases [OF assms(1,2,4) le, of cfg e "unat (realFilesize (img st))"]
  show ?thesis
  proof (cases "available c st (unat (offset_small req)) (unat (rq_size req))")
    case True
    then have al: "answer_local (unat (realFilesize (img st))) req (with_handle req c st) st = Some (ok, c', st')"
      using assms(7) gb by simp
    have sv: "served st (unat (offset_small req)) (unat (rq_size req))
        = map up [unat (offset_small req) ..< unat (offset_small req) + unat (rq_size req)]"
      by (rule served_upstream [OF assms(3,1,2) True assms(5) le])
    have "unat (offset_small req) + unat (rq_size req) < 2 ^ 64"
      using le unsigned_less [of "virtualFilesize (img st)", where 'a = nat] by simp
    then show ?thesis
      using True answer_local_prefix [OF al refl] assms(5) sv by (simp add: with_handle_def msg_def)
  next
    case False
    then show ?thesis using assms(7) gb by simp
  qed
qed

text \<open>A connection of a client, and a request for eight bytes of the second block.\<close>

definition sample_conn :: conn where
  "sample_conn = \<lparr>cn_client = \<lparr>bytesSent = 0, c_image = Some 1, c_sock = 6, relayedCount = 0, isServer = False,
       c_host = \<lparr>addr = replicate 16 1, port = 0, htype = 2\<rparr>\<rparr>,
     cn_id = 7, cn_reply = \<lparr>rp_magic = dnbd3_packet_magic, rp_cmd = 0, rp_size = 0, rp_handle = 0\<rparr>, cn_cache = None,
     cn_hasName = False, cn_wire = [], cn_down = False, cn_errno = EOTHER, cn_in = [], cn_out = [Sent 16], cn_file = [SfSent 5, SfSent 9]\<rparr>"

definition sample_net_env :: net_env where
  "sample_net_env = \<lparr>ne_others = id, ne_cache = id, ne_shutdown = False,
     ne_alts = \<lparr>altServers = [], numAltServers = 0\<rparr>, ne_rounds = [],
     ne_uplink = \<lparr>ue_globalShutdown = False, ue_hasAlt = True, ue_signalOk = True, ue_threadOk = True, ue_ref = 3,
       ue_host = \<lparr>addr = replicate 16 2, port = 0, htype = 2\<rparr>, ue_ok1 = True, ue_ok2 = True\<rparr>\<rparr>"

theorem local_blocks_are_upstream_data_witness:
  "case get_block net_config sample_net_env 40000 (mk_request CMD_GET_BLOCK 8 4096 5) sample_conn sample_uplink of
     Some (True, c', _) \<Rightarrow> cn_wire c' = reply_bytes \<lparr>rp_magic = dnbd3_packet_magic, rp_cmd = CMD_GET_BLOCK, rp_size = 8, rp_handle = 5\<rparr>
        @ [0, 0, 0, 0, 0, 0, 0, 0]
   | _ \<Rightarrow> False"
proof -
  let ?rq = "mk_request CMD_GET_BLOCK 8 4096 5"
  have rq: "rq_size ?rq = 8" "rq_handle ?rq = 5" "offset_small ?rq = 4096" by (simp_all add: mk_request_def offset_small_def)
  have im: "image_wf (img sample_uplink)" "realFilesize (img sample_uplink) = 40000" "virtualFilesize (img sample_uplink) = 40960"
    "coherent (\<lambda>_. 0) sample_uplink" "held_ok sample_conn sample_uplink"
    by (simp_all add: sample_uplink_def coherent_def held_ok_def sample_conn_def sample_image_def image_wf_def IMGSIZE_TO_MAPBYTES_def)
  have av: "available sample_conn sample_uplink 4096 8"
    by (auto simp: available_def held_map_def sample_conn_def sample_uplink_def sample_image_def blocks_touching_eq cached_blocks_def less_2_cases_iff)
  have "\<exists>c' st'. answer_local 40000 ?rq (with_handle ?rq sample_conn sample_uplink) sample_uplink = Some (True, c', st')"
    by (simp add: answer_local_def send_block_def real_bytes_def rq im with_handle_def sample_conn_def sample_uplink_def Let_def)
  then obtain c' st' where r: "get_block net_config sample_net_env 40000 ?rq sample_conn sample_uplink = Some (True, c', st')"
    using get_block_cases [OF im(1,5), of ?rq net_config sample_net_env 40000] av by (auto simp: rq im)
  show ?thesis
    using local_blocks_are_upstream_data [of sample_uplink sample_conn "\<lambda>_. 0" "mk_request CMD_GET_BLOCK 8 4096 5" net_config sample_net_env True c' st']
      r rq im av by (simp add: sample_conn_def)
qed

text \<open>
  C36: A request that starts in the padding between the end of the file and the size told to the client is inside the
  image, but the number of bytes left in the file wraps around to a huge value: the client gets at most the header,
  then it is dropped.
\<close>

theorem request_in_padding_drops_client:
  assumes "unat (realFilesize (img st)) < unat (offset_small req)" "rq_size req \<noteq> 0" "held_map c st = None"
    and "unat (offset_small req) + unat (rq_size req) \<le> unat (virtualFilesize (img st))" "image_wf (img st)"
    and "get_block cfg e (unat (realFilesize (img st))) req c st = Some (ok, c', st')"
  shows "\<not> ok \<and> (\<exists>n \<le> 16. cn_wire c' = cn_wire c
    @ take n (reply_bytes ((cn_reply c)\<lparr>rp_handle := rq_handle req, rp_cmd := CMD_GET_BLOCK, rp_size := rq_size req\<rparr>)))"
proof -
  have held: "held_ok c st" using assms(3) by (simp add: held_ok_def held_map_def split: option.splits)
  have al: "answer_local (unat (realFilesize (img st))) req (with_handle req c st) st = Some (ok, c', st')"
    using get_block_cases [OF assms(5) held assms(2,4)] assms(3,6) by (simp add: available_def)
  have "\<not> offset_small req + ucast (rq_size req) \<le> realFilesize (img st)"
    using request_range(1) [OF assms(5,4)] assms(1) by (simp add: word_le_nat_alt)
  then have rb: "unat (real_bytes (offset_small req) (rq_size req) (img st)) \<noteq> 0"
    using assms(1) by (auto simp: real_bytes_def unat_gt_0)
  have none: "serve_loop d (unat (realFilesize (img st))) (unat (offset_small req)) (unat (real_bytes (offset_small req) (rq_size req) (img st))) rs
      = Some (res, o1, rs') \<Longrightarrow> o1 = [] \<and> (\<exists>bad. res = Inl bad)" for d rs res o1 rs'
    using assms(1) rb by (cases rs; cases "hd rs") auto
  define c0 where "c0 = with_handle req c st"
  define r where "r = (cn_reply c0)\<lparr>rp_cmd := CMD_GET_BLOCK, rp_size := rq_size req\<rparr>"
  have c0: "cn_wire c0 = cn_wire c" "r = (cn_reply c)\<lparr>rp_handle := rq_handle req, rp_cmd := CMD_GET_BLOCK, rp_size := rq_size req\<rparr>"
    by (simp_all add: c0_def r_def with_handle_def)
  obtain ret out s where so: "send_once (reply_bytes r) (cn_out c0) = Some (ret, out, s)"
    using al by (auto simp: answer_local_def Let_def r_def c0_def split: option.splits)
  obtain k where k: "k \<le> 16" "out = take k (reply_bytes r)" using send_once_prefix [OF so] by auto
  define c1 where "c1 = c0\<lparr>cn_reply := r, cn_wire := cn_wire c0 @ out, cn_out := s\<rparr>"
  note eq = al [unfolded answer_local_def Let_def, folded c0_def, folded r_def, unfolded so option.case prod.case, folded c1_def]
  have sb: "send_block f off sz c1 st = Some (ok2, c2, st2) \<Longrightarrow> \<not> ok2 \<and> cn_wire c2 = cn_wire c1"
    if "f = unat (realFilesize (img st))" "off = offset_small req" "sz = rq_size req" for f off sz ok2 c2 st2
    using none unfolding that send_block_def Let_def by (auto split: option.splits sum.splits dest: none)
  have "\<not> ok \<and> cn_wire c' = cn_wire c @ out"
  proof (cases "ret = 16")
    case True
    then show ?thesis using eq sb [OF refl refl refl] assms(2) c0(1) by (auto simp: c1_def split: option.splits if_splits)
  next
    case False
    then show ?thesis using eq c0(1) by (auto simp: c1_def)
  qed
  then show ?thesis using k c0(2) by auto
qed

theorem request_in_padding_drops_client_witness:
  "case get_block net_config sample_net_env 40000 (mk_request CMD_GET_BLOCK 512 40448 5) sample_conn
       (sample_uplink\<lparr>img := sample_image\<lparr>ref_cacheMap := None\<rparr>\<rparr>) of
     Some (ok, c', _) \<Rightarrow> \<not> ok \<and> length (cn_wire c') \<le> 16
   | None \<Rightarrow> False"
proof -
  let ?rq = "mk_request CMD_GET_BLOCK 512 40448 5" and ?st = "sample_uplink\<lparr>img := sample_image\<lparr>ref_cacheMap := None\<rparr>\<rparr>"
  have rq: "rq_size ?rq = 512" "rq_handle ?rq = 5" "offset_small ?rq = 40448" by (simp_all add: mk_request_def offset_small_def)
  have im: "image_wf (img ?st)" "realFilesize (img ?st) = 40000" "virtualFilesize (img ?st) = 40960"
    "held_ok sample_conn ?st" "held_map sample_conn ?st = None"
    by (simp_all add: held_ok_def held_map_def sample_conn_def sample_image_def image_wf_def)
  have "\<exists>x. answer_local 40000 ?rq (with_handle ?rq sample_conn ?st) ?st = Some x"
    by (simp add: answer_local_def send_block_def real_bytes_def rq im with_handle_def sample_conn_def Let_def ex_bool_eq)
  then obtain ok c' st' where r: "get_block net_config sample_net_env 40000 ?rq sample_conn ?st = Some (ok, c', st')"
    using get_block_cases [OF im(1,4), of ?rq net_config sample_net_env 40000] by (auto simp: rq im available_def)
  show ?thesis
    using request_in_padding_drops_client [of ?st ?rq sample_conn net_config sample_net_env ok c' st'] r rq im
    by (auto simp: sample_conn_def)
qed

end
