(* ===== verification/NetRelay.thy ===== *)
theory NetRelay
  imports NetProof
begin

text \<open>
  Relayed requests of one client: the counter of the connection is the number of its requests in the uplink's queue,
  it never wraps around, and when the connection ends no request refers to the client any more.
\<close>

section \<open>Accounting without invariants\<close>

abbreviation mine_client :: "nat \<Rightarrow> dnbd3_queue_client_t \<Rightarrow> bool" where
  "mine_client x q \<equiv> mine x (qc_callback q) (qc_data q)"

abbreviation mine_call :: "nat \<Rightarrow> callback \<Rightarrow> bool" where
  "mine_call x cb \<equiv> mine x (cb_fn cb) (cb_data cb)"

definition outstanding :: "nat \<Rightarrow> uplink_state \<Rightarrow> nat" where
  "outstanding x st = length (filter (mine_client x) (pending st))"

lemma mine_calls [simp]: "mine_call x (cancel_call q) = mine_client x q" "mine_call x (answer_call buf start q) = mine_client x q"
  by (simp_all add: cancel_call_def answer_call_def)

lemma length_filter_mset: "mset xs = mset ys \<Longrightarrow> length (filter P xs) = length (filter P ys)"
  by (metis mset_filter size_mset)

lemma length_filter_mset_plus: "mset xs = mset ys + mset zs \<Longrightarrow> length (filter P xs) = length (filter P ys) + length (filter P zs)"
  using length_filter_mset [of xs "ys @ zs" P] by simp

lemma pending_markUnsent [simp]: "pending (markRequestUnsent h st) = pending st" "calls (markRequestUnsent h st) = calls st"
proof -
  have "map qe_clients (q[i := (q ! i)\<lparr>qe_sent := False\<rparr>]) = map qe_clients q" for q :: "dnbd3_queue_entry_t list" and i
    by (cases "i < length q") (simp_all add: map_update list_update_same_conv list_update_beyond)
  then show "pending (markRequestUnsent h st) = pending st" "calls (markRequestUnsent h st) = calls st"
    by (auto simp: markRequestUnsent_def pending_def split: option.splits)
qed

lemma pending_send_frame [simp]:
  "pending (request_send isNew req pre h ok1 ok2 st) = pending st" "calls (request_send isNew req pre h ok1 ok2 st) = calls st"
proof -
  have rb: "pending (snd (requestBlock r h ok s)) = pending s" "calls (snd (requestBlock r h ok s)) = calls s" for r h ok s
    by (auto simp: requestBlock_def pending_def)
  have im: "pending (s\<lparr>img := i\<rparr>) = pending s" for s i by (simp add: pending_def)
  show "pending (request_send isNew req pre h ok1 ok2 st) = pending st" "calls (request_send isNew req pre h ok1 ok2 st) = calls st"
    unfolding request_send_def Let_def case_prod_unfold by (auto simp: rb im split: option.splits)
qed

lemma enqueue_parts:
  assumes "request_enqueue cfg client start len h st = Some (st', isNew, req, pre)"
  obtains st1 i st2 p where "request_attach client start (start + ucast len) (block_floor start) (req_end req) h st = Some (st1, i, isNew)"
    "request_prefetch cfg client (start + ucast len) len h i isNew st1 = (st2, p)"
    "st' = request_addClient client start (start + ucast len) i st2"
  using assms by (auto simp: request_enqueue_def Let_def split: option.splits prod.splits)

lemma enqueue_pending:
  assumes "request_enqueue cfg client start len h st = Some (st', isNew, req, pre)"
  shows "mset (pending st') = mset (pending st) + mset (accepted client start len)" "calls st' = calls st"
proof -
  obtain st1 i st2 p where at: "request_attach client start (start + ucast len) (block_floor start) (req_end req) h st = Some (st1, i, isNew)"
    and pf: "request_prefetch cfg client (start + ucast len) len h i isNew st1 = (st2, p)"
    and st': "st' = request_addClient client start (start + ucast len) i st2"
    using assms by (rule enqueue_parts)
  have "i < length (queue (ul st1))"
    using at by (auto simp: request_attach_def Let_def dest: queue_find_Some split: option.splits if_splits)
  then have "i < length (queue (ul st2))"
    using pf by (auto simp: request_prefetch_def Let_def split: option.splits if_splits)
  then show "mset (pending st') = mset (pending st) + mset (accepted client start len)" "calls st' = calls st"
    unfolding st' using pending_addClient [of i st2] pending_prefetch [OF pf] pending_attach [OF at] by simp_all
qed

lemma request_pending:
  assumes "uplink_requestInternal cfg client start len h ok1 ok2 st = (r, st')"
  shows "mset (pending st') = mset (pending st) + (if r then mset (accepted client start len) else {#})" "calls st' = calls st"
proof -
  have "mset (pending st') = mset (pending st) + (if r then mset (accepted client start len) else {#}) \<and> calls st' = calls st"
  proof (cases "request_enqueue cfg client start len (request_hops cfg client h) st")
    case None
    then show ?thesis using assms by (auto simp: uplink_requestInternal_def split: if_splits)
  next
    case (Some x)
    obtain st1 isNew req pre where x: "x = (st1, isNew, req, pre)" by (metis prod.exhaust)
    show ?thesis
      using assms enqueue_pending [OF Some [unfolded x]] Some x
      by (auto simp: uplink_requestInternal_def Let_def split: if_splits)
  qed
  then show "mset (pending st') = mset (pending st) + (if r then mset (accepted client start len) else {#})" "calls st' = calls st"
    by simp_all
qed

text \<open>One step of the uplink: what is taken from the queue is called back.\<close>

definition accounts :: "uplink_state \<Rightarrow> dnbd3_queue_client_t list \<Rightarrow> uplink_state \<Rightarrow> bool" where
  "accounts st new st' \<longleftrightarrow> (\<exists>xs cs. calls st' = calls st @ xs \<and> map call_key xs = map client_key cs
     \<and> mset (pending st) + mset new = mset (pending st') + mset cs)"

lemma accounts_same: "pending st' = pending st \<Longrightarrow> calls st' = calls st \<Longrightarrow> accounts st [] st'"
  unfolding accounts_def by (intro exI [of _ "[]"]) simp

lemma accounts_trans:
  assumes "accounts a n1 b" "accounts b n2 c"
  shows "accounts a (n1 @ n2) c"
proof -
  obtain xs cs where 1: "calls b = calls a @ xs" "map call_key xs = map client_key cs" "mset (pending a) + mset n1 = mset (pending b) + mset cs"
    using assms(1) by (auto simp: accounts_def)
  obtain ys ds where 2: "calls c = calls b @ ys" "map call_key ys = map client_key ds" "mset (pending b) + mset n2 = mset (pending c) + mset ds"
    using assms(2) by (auto simp: accounts_def)
  have "mset (pending a) + mset (n1 @ n2) = mset (pending c) + mset (cs @ ds)"
    using 1(3) 2(3) by (simp add: ac_simps) (metis add.assoc add.commute)
  then show ?thesis
    unfolding accounts_def using 1 2 by (intro exI [of _ "xs @ ys"] exI [of _ "cs @ ds"]) simp
qed

lemma account_ustep: "ustep cfg ok s s' \<Longrightarrow> \<exists>new. snd s' = snd s @ new \<and> accounts (fst s) new (fst s')"
proof (induction rule: ustep.induct)
  case (enqueue st start len client h st' isNew req pre acc)
  then show ?case
    using enqueue_pending [OF enqueue(2)] unfolding accounts_def
    by (intro exI [of _ "accepted client start len"]) (auto intro: exI [of _ "[]"])
next
  case (send st acc isNew req pre h ok1 ok2)
  then show ?case by (auto intro!: accounts_same)
next
  case (store start payload gs fd script st st' acc)
  have "queue (ul st') = queue (ul st) \<and> calls st' = calls st"
  proof (cases rule: receive_store_cases [OF store(2)])
    case (1 st1 n blocks)
    have "ul st' = ul st1" by (subst 1(5)) simp
    moreover have "calls st' = calls st1" by (subst 1(5)) simp
    ultimately show ?thesis using 1(1) by (auto simp: store_frame_def)
  qed (auto simp: store_frame_def)
  then show ?case by (auto intro!: accounts_same simp: pending_def)
next
  case (finish handle start "end" st st' acc)
  obtain cs buf where "mset (pending st) = mset (pending st') + mset cs" "calls st' = calls st @ map (answer_call buf start) cs"
    using pending_finish [OF finish] .
  then show ?case
    unfolding accounts_def by (intro exI [of _ "[]"] conjI exI [of _ "map (answer_call buf start) cs"] exI [of _ cs]) simp_all
next
  case (remove st acc dat cback)
  obtain cs where "mset (pending st) = mset (pending (uplink_removeEntry dat cback st)) + mset cs"
    "calls (uplink_removeEntry dat cback st) = calls st @ map cancel_call cs"
    using pending_remove [of st dat cback] .
  then show ?case
    unfolding accounts_def by (intro exI [of _ "[]"] conjI exI [of _ "map cancel_call cs"] exI [of _ cs]) simp_all
next
  case (cancel st acc)
  then show ?case
    using calls_cancel [of st] unfolding accounts_def
    by (intro exI [of _ "[]"] conjI exI [of _ "map cancel_call (pending st)"] exI [of _ "pending st"]) simp_all
next
  case (internal st st' acc)
  then show ?case using quiet_queue(1) [OF internal] by (auto intro!: accounts_same simp: pending_def quiet_def)
next
  case (stop st r st' acc)
  from shutdown_cases [OF stop] show ?case
  proof
    assume "pending st' = [] \<and> calls st' = calls st @ map cancel_call (pending st)"
    then show ?thesis
      unfolding accounts_def
      by (intro exI [of _ "[]"] conjI exI [of _ "map cancel_call (pending st)"] exI [of _ "pending st"]) simp_all
  qed (auto intro!: accounts_same)
qed

section \<open>The other threads\<close>

text \<open>An uplink that is not attached has no requests; whoever needs one may create it.\<close>

definition attached :: "uplink_state \<Rightarrow> bool" where
  "attached st \<longleftrightarrow> (uplinkref (img st) = None \<longrightarrow> queue (ul st) = [])"

inductive wstep :: "config \<Rightarrow> (u64 \<Rightarrow> byte list \<Rightarrow> bool) \<Rightarrow> uplink_state \<times> dnbd3_queue_client_t list
    \<Rightarrow> uplink_state \<times> dnbd3_queue_client_t list \<Rightarrow> bool"
  for cfg ok where
  act: "ustep cfg ok s s' \<Longrightarrow> wstep cfg ok s s'"
| create: "uplinkref (img st) = None \<Longrightarrow> queue (ul st) = [] \<Longrightarrow> wstep cfg ok (st, acc) (ensure_uplink cfg e st, acc)"

lemma ensure_uplink_frame:
  assumes "attached st"
  shows "pending (ensure_uplink cfg e st) = pending st" "calls (ensure_uplink cfg e st) = calls st" "attached (ensure_uplink cfg e st)"
  using assms
  by (auto simp: ensure_uplink_def attached_def pending_def uplink_init_def uplink_fresh_def Let_def set_problem_queue_def
      set_problem_write_def set_problem_uplink_def split: if_splits option.splits)

lemma account_wstep: "wstep cfg ok s s' \<Longrightarrow> \<exists>new. snd s' = snd s @ new \<and> accounts (fst s) new (fst s')"
proof (induction rule: wstep.induct)
  case (create st acc e)
  then have "attached st" by (simp add: attached_def)
  then show ?case using ensure_uplink_frame [of st cfg e] by (auto intro: accounts_same)
qed (rule account_ustep)

lemma account_wsteps:
  "(wstep cfg ok)\<^sup>*\<^sup>* s s' \<Longrightarrow> \<exists>new. snd s' = snd s @ new \<and> accounts (fst s) new (fst s')"
proof (induction rule: rtranclp_induct)
  case base
  then show ?case by (auto intro: accounts_same)
next
  case (step y z)
  then show ?case using account_wstep [OF step(2)] accounts_trans by fastforce
qed

text \<open>Work of other threads that issues no requests in the name of the client.\<close>

definition others_ok :: "config \<Rightarrow> (u64 \<Rightarrow> byte list \<Rightarrow> bool) \<Rightarrow> nat \<Rightarrow> (uplink_state \<Rightarrow> uplink_state) \<Rightarrow> bool" where
  "others_ok cfg ok x f \<longleftrightarrow> (\<forall>st. attached st \<longrightarrow> attached (f st)
     \<and> (\<exists>new. (wstep cfg ok)\<^sup>*\<^sup>* (st, []) (f st, new) \<and> (\<forall>q \<in> set new. \<not> mine_client x q)))"

lemma mine_keys:
  assumes "map call_key xs = map client_key cs"
  shows "length (filter (mine_call x) xs) = length (filter (mine_client x) cs)"
proof -
  have "list_all2 (\<lambda>cb q. call_key cb = client_key q) xs cs"
    using assms by (simp add: list_all2_conv_all_nth map_equality_iff)
  then show ?thesis by (induction rule: list_all2_induct) (auto simp: call_key_def client_key_def)
qed

lemma others_count:
  assumes "others_ok cfg ok x f" "attached st"
  shows "attached (f st)"
    "outstanding x st = outstanding x (f st) + length (filter (mine_call x) (drop (length (calls st)) (calls (f st))))"
proof -
  obtain new where w: "(wstep cfg ok)\<^sup>*\<^sup>* (st, []) (f st, new)" "\<forall>q \<in> set new. \<not> mine_client x q" and "attached (f st)"
    using assms unfolding others_ok_def by blast
  then show "attached (f st)" by simp
  obtain xs cs where "calls (f st) = calls st @ xs" "map call_key xs = map client_key cs"
    "mset (pending st) + mset new = mset (pending (f st)) + mset cs"
    using account_wsteps [OF w(1)] by (auto simp: accounts_def)
  moreover have "filter (mine_client x) new = []" using w(2) by (simp add: filter_empty_conv)
  ultimately show "outstanding x st = outstanding x (f st) + length (filter (mine_call x) (drop (length (calls st)) (calls (f st))))"
    using length_filter_mset [of "pending st @ new" "pending (f st) @ cs" "mine_client x"] mine_keys [of xs cs x]
    by (simp add: outstanding_def)
qed

section \<open>The counter of a connection\<close>

definition count_ok :: "conn \<Rightarrow> uplink_state \<Rightarrow> bool" where
  "count_ok c st \<longleftrightarrow> unat (relayedCount (cn_client c)) = outstanding (cn_id c) st \<and> relayedCount (cn_client c) \<le> 251 \<and> attached st"

definition conn_frame :: "conn \<Rightarrow> conn \<Rightarrow> bool" where
  "conn_frame c c' \<longleftrightarrow> cn_id c' = cn_id c \<and> relayedCount (cn_client c') = relayedCount (cn_client c)"

definition up_frame :: "uplink_state \<Rightarrow> uplink_state \<Rightarrow> bool" where
  "up_frame st st' \<longleftrightarrow> ul st' = ul st \<and> uplinkref (img st') = uplinkref (img st)"

lemma count_frame: "count_ok c st \<Longrightarrow> conn_frame c c' \<Longrightarrow> up_frame st st' \<Longrightarrow> count_ok c' st'"
  by (auto simp: count_ok_def conn_frame_def up_frame_def outstanding_def pending_def attached_def)

lemma deliver_count:
  "deliver cbs c = Some c' \<Longrightarrow> cn_id c' = cn_id c \<and> relayedCount (cn_client c') = relayedCount (cn_client c) - of_nat (length cbs)"
proof (induction cbs arbitrary: c)
  case (Cons cb cbs)
  then obtain c1 where c1: "uplinkCallback cb c = Some c1" "deliver cbs c1 = Some c'" by (auto split: option.splits)
  then have "cn_id c1 = cn_id c" "relayedCount (cn_client c1) = relayedCount (cn_client c) - 1"
    by (auto simp: uplinkCallback_def set_relayed_def Let_def split: option.splits)
  then show ?case using Cons.IH [OF c1(2)] by simp
qed simp

lemma u8_minus: "k \<le> unat (r :: u8) \<Longrightarrow> unat (r - of_nat k) = unat r - k"
  using unsigned_less [of r, where 'a = nat] by (subst unat_sub) (simp_all add: word_le_nat_alt unsigned_of_nat take_bit_nat_eq_self)

lemma run_others_count:
  assumes "others_ok cfg ok (cn_id c) f" "count_ok c st" "run_others f c st = Some (c', st')"
  shows "count_ok c' st'" "cn_id c' = cn_id c"
proof -
  let ?cbs = "filter (mine_call (cn_id c)) (drop (length (calls st)) (calls (f st)))"
  have d: "deliver ?cbs c = Some c'" "st' = f st" using assms(3) by (auto simp: run_others_def)
  note o = others_count [OF assms(1), of st]
  have "length ?cbs \<le> unat (relayedCount (cn_client c))" using assms(2) o by (simp add: count_ok_def)
  then have "unat (relayedCount (cn_client c')) = unat (relayedCount (cn_client c)) - length ?cbs"
    using deliver_count [OF d(1)] u8_minus by simp
  then show "count_ok c' st'" "cn_id c' = cn_id c"
    using deliver_count [OF d(1)] assms(2) o d(2) by (auto simp: count_ok_def word_le_nat_alt)
qed

lemma wait_relayed_count:
  assumes "\<forall>f \<in> set rounds. others_ok cfg ok (cn_id c) f" "count_ok c st" "wait_relayed limit n rounds c st = Some (c', st')"
  shows "count_ok c' st' \<and> cn_id c' = cn_id c"
  using assms
proof (induction limit n rounds c st rule: wait_relayed.induct)
  case (2 limit n rounds c st)
  show ?case
  proof (cases "relayedCount (cn_client c) \<le> limit")
    case False
    show ?thesis
    proof (cases rounds)
      case (Cons r rs)
      obtain c1 st1 where r: "run_others r c st = Some (c1, st1)" "wait_relayed limit n rs c1 st1 = Some (c', st')"
        using 2(5) False Cons by (auto split: option.splits)
      have "count_ok c1 st1" "cn_id c1 = cn_id c"
        using run_others_count [of cfg ok c r, OF _ 2(4) r(1)] 2(3) Cons by simp_all
      then show ?thesis using 2(2) [OF False Cons r(1) refl] 2(3) r(2) Cons by simp
    qed (use 2 False in simp)
  qed (use 2 in simp)
qed simp

lemma requestInternal_uplinkref:
  assumes "uplink_requestInternal cfg client start len h ok1 ok2 st = (r, st')"
  shows "uplinkref (img st') = uplinkref (img st)"
proof -
  have mark: "uplinkref (img (markRequestUnsent hd s)) = uplinkref (img s)" for hd s
    by (simp add: markRequestUnsent_def split: option.splits)
  have block: "img (snd (requestBlock rq hp ok s)) = img s" for rq hp ok s by (simp add: requestBlock_def)
  have send: "uplinkref (img (request_send isNew req pre hp ok1 ok2 s)) = uplinkref (img s)" for isNew req pre hp s
    unfolding request_send_def Let_def case_prod_unfold by (auto simp: mark block set_problem_uplink_def split: option.splits)
  have enq: "uplinkref (img s') = uplinkref (img s)" if en: "request_enqueue cfg client start len hp s = Some (s', new, rq, pr)" for hp s s' new rq pr
  proof -
    obtain s1 i s2 p where at: "request_attach client start (start + ucast len) (block_floor start) (req_end rq) hp s = Some (s1, i, new)"
      and pf: "request_prefetch cfg client (start + ucast len) len hp i new s1 = (s2, p)"
      and s': "s' = request_addClient client start (start + ucast len) i s2"
      using en by (rule enqueue_parts)
    have "uplinkref (img s1) = uplinkref (img s)"
      using at by (auto simp: request_attach_def set_problem_queue_def Let_def split: option.splits if_splits)
    moreover have "uplinkref (img s2) = uplinkref (img s1)"
      using pf by (auto simp: request_prefetch_def Let_def split: option.splits if_splits)
    moreover have "uplinkref (img s') = uplinkref (img s2)" by (simp add: s' request_addClient_def Let_def split: option.splits)
    ultimately show ?thesis by simp
  qed
  show ?thesis using assms enq send by (auto simp: uplink_requestInternal_def Let_def split: if_splits option.splits)
qed

lemma requestClient_count:
  assumes "uplink_requestClient cfg e host client start len h st = (r, st')" "attached st"
    and "r_callback client = NetCallback" "r_data client = x"
  shows "outstanding x st' = outstanding x st + (if r then 1 else 0)" "attached st'"
proof -
  define st1 where "st1 = ensure_uplink cfg e st"
  note en = ensure_uplink_frame [OF assms(2), of cfg e, folded st1_def]
  have "outstanding x st' = outstanding x st + (if r then 1 else 0) \<and> attached st'"
  proof (cases "h AND 0x3f > 60 \<or> uplinkref (img st1) = None \<or> (h > 1 \<and> isSameAddress (ue_host e) host)")
    case True
    then show ?thesis
      using assms(1,2) en unfolding uplink_requestClient_def Let_def st1_def [symmetric]
      by (auto simp: outstanding_def pending_def attached_def split: if_splits)
  next
    case False
    then have rq: "uplink_requestInternal cfg (Some client) start len h (ue_ok1 e) (ue_ok2 e) st1 = (r, st')"
      using assms(1) unfolding uplink_requestClient_def Let_def st1_def [symmetric] by (auto split: if_splits)
    have "mset (pending st') = mset (pending st1 @ (if r then accepted (Some client) start len else []))"
      using request_pending(1) [OF rq] by simp
    from length_filter_mset [OF this, of "mine_client x"]
    have "outstanding x st' = outstanding x st1 + (if r then 1 else 0)"
      using assms(3,4) by (simp add: outstanding_def accepted_def mine_def)
    then show ?thesis using en requestInternal_uplinkref [OF rq] False by (auto simp: outstanding_def attached_def)
  qed
  then show "outstanding x st' = outstanding x st + (if r then 1 else 0)" "attached st'" by simp_all
qed

lemma set_relayed_simps [simp]:
  "cn_id (set_relayed n c) = cn_id c" "relayedCount (cn_client (set_relayed n c)) = n"
  "cn_out (set_relayed n c) = cn_out c" "cn_wire (set_relayed n c) = cn_wire c"
  by (simp_all add: set_relayed_def)

lemma throttle_count:
  assumes "\<forall>f \<in> set rounds. others_ok cfg ok (cn_id c) f" "count_ok c st" "throttle rounds c st = Some (r, c', st')"
  shows "count_ok c' st'" "cn_id c' = cn_id c" "r \<Longrightarrow> relayedCount (cn_client c') \<le> 250"
  using assms wait_relayed_count [OF assms(1,2), of 200 100]
  by (auto simp: throttle_def split: if_splits)

lemma relay_count:
  assumes "\<forall>f \<in> set (ne_rounds e). others_ok cfg ok (cn_id c) f" "count_ok c st" "relay cfg e req c st = Some (r, c', st')"
  shows "count_ok c' st' \<and> cn_id c' = cn_id c"
proof -
  obtain t c1 st1 where t: "throttle (ne_rounds e) c st = Some (t, c1, st1)"
    using assms(3) by (auto simp: relay_def split: option.splits)
  note th = throttle_count [OF assms(1,2) t]
  show ?thesis
  proof (cases t)
    case False
    then show ?thesis using assms(3) t th by (simp add: relay_def)
  next
    case True
    define q where "q = \<lparr>r_data = cn_id c1, r_callback = NetCallback, r_handle = rq_handle req\<rparr>"
    obtain st2 where rq: "uplink_requestClient cfg (ne_uplink e) (c_host (cn_client (set_relayed (relayedCount (cn_client c1) + 1) c1))) q
          (offset_small req) (rq_size req) (hops req) st1 = (r, st2)"
      and c': "c' = (if r then set_relayed (relayedCount (cn_client c1) + 1) c1
          else set_relayed (relayedCount (cn_client c1)) (set_relayed (relayedCount (cn_client c1) + 1) c1))" "st' = st2"
      using assms(3) t True by (auto simp: relay_def Let_def q_def split: prod.splits)
    have le: "unat (relayedCount (cn_client c1)) \<le> 250" using th(3) [OF True] by (simp add: word_le_nat_alt)
    then have "unat (relayedCount (cn_client c1) + 1) = unat (relayedCount (cn_client c1)) + 1"
      by (subst unat_add_no_wrap) simp_all
    moreover have "attached st1" using th(1) by (simp add: count_ok_def)
    ultimately show ?thesis
      using requestClient_count [OF rq, of "cn_id c1"] th(1,2) le c'
      by (auto simp: count_ok_def q_def word_le_nat_alt)
  qed
qed

section \<open>A whole connection\<close>

lemma conn_reply_frame: "conn_reply reply payload c = Some (r, c') \<Longrightarrow> conn_frame c c'"
  by (auto simp: conn_reply_def conn_frame_def)

lemma conn_send_frame: "conn_send bs c = Some c' \<Longrightarrow> conn_frame c c'"
  by (auto simp: conn_send_def conn_frame_def)

lemma conn_frame_trans: "conn_frame a b \<Longrightarrow> conn_frame b c \<Longrightarrow> conn_frame a c"
  by (simp add: conn_frame_def)

lemma answer_local_frame:
  assumes "answer_local flen req c st = Some (r, c', st')"
  shows "conn_frame c c'" "up_frame st st'"
proof -
  have sb: "conn_frame c c' \<and> up_frame st st'" if "send_block f off sz c st = Some (r, c', st')" for f off sz r c c' st'
    using that by (auto simp: send_block_def conn_frame_def up_frame_def Let_def split: option.splits sum.splits if_splits)
  obtain ret out s where so: "send_once (reply_bytes ((cn_reply c)\<lparr>rp_cmd := CMD_GET_BLOCK, rp_size := rq_size req\<rparr>)) (cn_out c) = Some (ret, out, s)"
    using assms by (auto simp: answer_local_def Let_def split: option.splits)
  show "conn_frame c c'" "up_frame st st'"
    using assms so unfolding answer_local_def Let_def
    by (auto simp: conn_frame_def up_frame_def dest: sb split: option.splits if_splits)
qed

lemma other_command_frame: "other_command alts req c st = Some c' \<Longrightarrow> conn_frame c c'"
  by (auto simp: other_command_def get_servers_def get_keepalive_def get_crc32_def conn_reply_def conn_send_def conn_frame_def Let_def
      split: option.splits if_splits)

lemma get_block_split:
  assumes "get_block cfg e flen req c st = Some (r, c', st')"
  shows "(\<exists>rep r2. conn_reply rep None (c\<lparr>cn_reply := (cn_reply c)\<lparr>rp_handle := rq_handle req\<rparr>\<rparr>) = Some (r2, c') \<and> st' = st)
    \<or> relay cfg e req (with_handle req c st) st = Some (r, c', st')
    \<or> answer_local flen req (with_handle req c st) st = Some (r, c', st')"
proof -
  define c1 where "c1 = c\<lparr>cn_reply := (cn_reply c)\<lparr>rp_handle := rq_handle req\<rparr>\<rparr>"
  have wh: "with_handle req c st = (case cn_cache c1 of None \<Rightarrow> c1\<lparr>cn_cache := ref_cacheMap (img st)\<rparr> | Some _ \<Rightarrow> c1)"
    by (auto simp: c1_def with_handle_def held_map_def split: option.splits)
  show ?thesis
    using assms unfolding get_block_def Let_def c1_def [symmetric] wh [symmetric] by (auto split: if_splits option.splits)
qed

lemma handle_request_count:
  assumes "\<forall>f \<in> set (ne_rounds e). others_ok cfg ok (cn_id c) f" "count_ok c st" "handle_request cfg e flen req c st = Some (r, c', st')"
  shows "count_ok c' st' \<and> cn_id c' = cn_id c"
proof (cases "rq_cmd req = CMD_GET_BLOCK")
  case False
  then have "conn_frame c c'" "st' = st" using assms(3) other_command_frame by (auto simp: handle_request_def)
  then show ?thesis using count_frame [OF assms(2)] by (auto simp: up_frame_def conn_frame_def)
next
  case True
  then have gb: "get_block cfg e flen req c st = Some (r, c', st')" using assms(3) by (simp add: handle_request_def)
  have frame: "conn_frame c (with_handle req c st)" by (simp add: with_handle_def conn_frame_def)
  then have ok: "count_ok (with_handle req c st) st" "cn_id (with_handle req c st) = cn_id c"
    using count_frame [OF assms(2)] by (auto simp: up_frame_def conn_frame_def)
  from get_block_split [OF gb] show ?thesis
  proof (elim disjE exE conjE)
    fix rep r2
    assume "conn_reply rep None (c\<lparr>cn_reply := (cn_reply c)\<lparr>rp_handle := rq_handle req\<rparr>\<rparr>) = Some (r2, c')" "st' = st"
    then have "conn_frame c c'" "st' = st" by (auto simp: conn_reply_def conn_frame_def)
    then show ?thesis using count_frame [OF assms(2)] by (auto simp: up_frame_def conn_frame_def)
  next
    assume "relay cfg e req (with_handle req c st) st = Some (r, c', st')"
    then show ?thesis using relay_count [OF _ ok(1)] assms(1) ok(2) by simp
  next
    assume "answer_local flen req (with_handle req c st) st = Some (r, c', st')"
    then show ?thesis using answer_local_frame count_frame [OF ok(1)] ok(2) by (auto simp: conn_frame_def)
  qed
qed

lemma client_loop_count:
  assumes "\<forall>e \<in> set es. others_ok cfg ok (cn_id c) (ne_others e) \<and> (\<forall>f \<in> set (ne_rounds e). others_ok cfg ok (cn_id c) f)"
    and "count_ok c st" "client_loop cfg flen es c st = Some (c', st')"
  shows "count_ok c' st' \<and> cn_id c' = cn_id c"
  using assms
proof (induction cfg flen es c st rule: client_loop.induct)
  case (1 cfg flen c st)
  then show ?case
    using count_frame [of c st _ st] by (auto simp: conn_frame_def up_frame_def split: option.splits)
next
  case (2 cfg flen e es c st)
  have fr: "count_ok (c\<lparr>cn_errno := err, cn_in := s\<rparr>) st" for err s
    using count_frame [OF 2(3), of "c\<lparr>cn_errno := err, cn_in := s\<rparr>" st] by (simp add: conn_frame_def up_frame_def)
  obtain rq err s where h: "recv_request_header (cn_errno c) (cn_in c) = Some (rq, err, s)"
    using 2(4) by (auto split: option.splits)
  show ?case
  proof (cases rq)
    case None
    then show ?thesis using 2(4) h fr by auto
  next
    case (Some req)
    obtain c1 st1 where b: "between e (c\<lparr>cn_errno := err, cn_in := s\<rparr>) st = Some (c1, st1)"
      using 2(4) h Some by (auto split: option.splits)
    then obtain c0 where c0: "run_others (ne_others e) (c\<lparr>cn_errno := err, cn_in := s\<rparr>) st = Some (c0, st1)"
      "c1 = c0\<lparr>cn_cache := map_option (ne_cache e) (cn_cache c0)\<rparr>"
      by (auto simp: between_def)
    have "count_ok c0 st1" "cn_id c0 = cn_id c"
      using run_others_count [OF _ fr c0(1), of cfg ok] 2(2) by simp_all
    then have c1: "count_ok c1 st1" "cn_id c1 = cn_id c"
      using count_frame [of c0 st1 c1 st1] c0(2) by (simp_all add: conn_frame_def up_frame_def)
    show ?thesis
    proof (cases "ne_shutdown e")
      case True
      then show ?thesis using 2(4) h Some b c1 by simp
    next
      case False
      then obtain r c2 st2 where hr: "handle_request cfg e flen req c1 st1 = Some (r, c2, st2)"
        using 2(4) h Some b by (auto split: option.splits)
      have c2: "count_ok c2 st2" "cn_id c2 = cn_id c"
        using handle_request_count [OF _ c1(1) hr, of ok] 2(2) c1(2) by simp_all
      show ?thesis
      proof (cases r)
        case True
        then have hr': "handle_request cfg e flen req c1 st1 = Some (True, c2, st2)" using hr by simp
        show ?thesis
          using 2(1) [OF h refl Some refl b refl False hr' refl refl refl] 2(2,4) c2 h Some b False hr' by simp
      next
        case r: False
        then show ?thesis using 2(4) h Some b False hr c2 by simp
      qed
    qed
  qed
qed

lemma outstanding_remove: "outstanding x (uplink_removeEntry x NetCallback st) = 0"
  by (auto simp: outstanding_def uplink_removeEntry_def pending_def mine_def Let_def filter_empty_conv)

lemma calls_remove_mine:
  "length (drop (length (calls st)) (calls (uplink_removeEntry x NetCallback st))) = outstanding x st"
proof -
  have "length (concat (map (\<lambda>e. map cancel_call (filter P (qe_clients e))) q)) = length (filter P (concat (map qe_clients q)))" for P q
    by (induction q) auto
  then show ?thesis
    by (simp add: uplink_removeEntry_def outstanding_def pending_def mine_def Let_def conj_commute)
qed

lemma freeClient_clean:
  assumes "count_ok c st" "freeClientStruct rounds c (Some st) = Some (c', im)"
  shows "\<exists>st'. im = Some st' \<and> outstanding (cn_id c) st' = 0 \<and> relayedCount (cn_client c') = 0 \<and> c_sock (cn_client c') = -1"
proof -
  define st1 where "st1 = (if uplinkref (img st) \<noteq> None \<and> relayedCount (cn_client c) \<noteq> 0
                     then uplink_removeEntry (cn_id c) NetCallback st else st)"
  obtain c1 where d: "deliver (drop (length (calls st)) (calls st1)) c = Some c1"
    using assms(2) by (auto simp: freeClientStruct_def Let_def st1_def split: option.splits)
  have cnt: "unat (relayedCount (cn_client c)) = outstanding (cn_id c) st" "attached st" using assms(1) by (simp_all add: count_ok_def)
  have "unat (relayedCount (cn_client c1)) = 0 \<and> outstanding (cn_id c) st1 = 0"
  proof (cases "uplinkref (img st) \<noteq> None \<and> relayedCount (cn_client c) \<noteq> 0")
    case True
    then have "length (drop (length (calls st)) (calls st1)) = unat (relayedCount (cn_client c))"
      using calls_remove_mine cnt(1) by (simp add: st1_def)
    then have "unat (relayedCount (cn_client c1)) = 0"
      using deliver_count [OF d] u8_minus [of "unat (relayedCount (cn_client c))"] by (metis diff_self_eq_0 order_refl)
    then show ?thesis using True outstanding_remove by (simp add: st1_def)
  next
    case False
    then have "unat (relayedCount (cn_client c)) = 0"
      using cnt by (auto simp: attached_def outstanding_def pending_def)
    moreover have "st1 = st" using False unfolding st1_def by (rule if_not_P)
    ultimately show ?thesis using d cnt(1) by simp
  qed
  then have z: "relayedCount (cn_client c1) = 0" "outstanding (cn_id c) st1 = 0" by (simp_all add: unat_eq_0)
  then have "wait_relayed 0 1000 rounds c1 st1 = Some (c1, st1)" by (simp add: numeral_eq_Suc)
  then show ?thesis
    using assms(2) [unfolded freeClientStruct_def Let_def option.case, folded st1_def] d z
    by (auto simp: outstanding_def pending_def)
qed

lemma select_image_frame:
  assumes "select_image cfg beyond now rnd getOrLoad get request c = Some (ok, c', im)"
  shows "conn_frame c c'"
    "im = Some st \<Longrightarrow> \<exists>nm r a st0. (getOrLoad nm r = Some (a, st0) \<or> get nm r = Some (a, st0)) \<and> up_frame st0 st"
proof -
  have fi: "find_image cfg srv flags loaded known = Some x \<Longrightarrow> loaded = Some x \<or> known = Some x" for srv flags loaded known x
    by (auto simp: find_image_def split: if_splits option.splits)
  have tf: "up_frame st0 (touch_image now st0)" "up_frame st0 st0" for st0 by (simp_all add: up_frame_def touch_image_def)
  show "conn_frame c c'"
    using assms
    by (auto simp: select_image_def Let_def conn_frame_def conn_reply_def split: option.splits prod.splits bool.splits if_splits)
  show "im = Some st \<Longrightarrow> \<exists>nm r a st0. (getOrLoad nm r = Some (a, st0) \<or> get nm r = Some (a, st0)) \<and> up_frame st0 st"
    using assms tf
    by (fastforce simp: select_image_def Let_def split: option.splits prod.splits bool.splits if_splits dest!: fi)
qed

definition conn_env_ok :: "config \<Rightarrow> (u64 \<Rightarrow> byte list \<Rightarrow> bool) \<Rightarrow> nat \<Rightarrow> conn_env \<Rightarrow> bool" where
  "conn_env_ok cfg ok x e \<longleftrightarrow>
     (\<forall>r \<in> set (ce_requests e). others_ok cfg ok x (ne_others r) \<and> (\<forall>f \<in> set (ne_rounds r). others_ok cfg ok x f))
     \<and> (\<forall>nm r a st. ce_getOrLoad e nm r = Some (a, st) \<or> ce_get e nm r = Some (a, st) \<longrightarrow> attached st \<and> outstanding x st = 0)
     \<and> (\<forall>l. clients_wf cfg l \<longrightarrow> clients_wf cfg (ce_list e l))"

lemma end_connection_clean:
  assumes "\<And>st. im = Some st \<Longrightarrow> count_ok c st" "end_connection now rounds l sent c im = Some (l', sent', c', im')" "clients_wf cfg l"
  shows "clients_of l' = clients_of l - {cn_id c} \<and> c_sock (cn_client c') = -1 \<and> (\<forall>st'. im' = Some st' \<longrightarrow> outstanding (cn_id c) st' = 0)"
proof -
  define im1 where "im1 = (if bytesSent (cn_client c) > DNBD3_BLOCK_SIZE * 10 then map_option (touch_image now) im else im)"
  have fr: "freeClientStruct rounds (c\<lparr>cn_cache := None\<rparr>) im1 = Some (c', im')" and l': "l' = removeFromList (cn_id c) l"
    using assms(2) by (auto simp: end_connection_def Let_def im1_def)
  have ok: "count_ok (c\<lparr>cn_cache := None\<rparr>) st" if im1: "im1 = Some st" for st
  proof -
    obtain st0 where "im = Some st0" "up_frame st0 st"
      using im1 by (auto simp: im1_def up_frame_def touch_image_def split: if_splits)
    then show ?thesis using count_frame [OF assms(1), of st0] by (auto simp: conn_frame_def)
  qed
  have "c_sock (cn_client c') = -1 \<and> (\<forall>st'. im' = Some st' \<longrightarrow> outstanding (cn_id c) st' = 0)"
  proof (cases im1)
    case None
    then show ?thesis using fr by (auto simp: freeClientStruct_def)
  next
    case (Some st)
    then show ?thesis using freeClient_clean [OF ok [OF Some] fr [unfolded Some]] by auto
  qed
  then show ?thesis using cl.remove_law [OF assms(3)] l' by simp
qed

lemma serve_client_clean:
  assumes env: "conn_env_ok cfg ok (cn_id c) e" and wf: "clients_wf cfg l" and rel: "relayedCount (cn_client c) = 0"
    and sc: "serve_client cfg e flen request c l sent = Some (l', sent', c', im)"
  shows "cn_id c \<notin> clients_of l' \<and> c_sock (cn_client c') = -1 \<and> (\<forall>st. im = Some st \<longrightarrow> outstanding (cn_id c) st = 0)"
proof -
  define c1 where "c1 = c\<lparr>cn_reply := \<lparr>rp_magic = dnbd3_packet_magic, rp_cmd = 0, rp_size = 0, rp_handle = 0\<rparr>,
    cn_cache := None, cn_hasName := False\<rparr>"
  note eq = sc [unfolded serve_client_def Let_def, folded c1_def]
  obtain go c2 im2 where sel: "select_image cfg (ce_beyond e) (ce_now e) (ce_rnd e) (ce_getOrLoad e) (ce_get e) request c1 = Some (go, c2, im2)"
    using eq by (auto split: option.splits)
  have c2: "cn_id c2 = cn_id c" "relayedCount (cn_client c2) = 0"
    using select_image_frame(1) [OF sel] rel by (simp_all add: conn_frame_def c1_def)
  have ok2: "count_ok c2 st" if im2: "im2 = Some st" for st
  proof -
    obtain nm r a st0 where "ce_getOrLoad e nm r = Some (a, st0) \<or> ce_get e nm r = Some (a, st0)" "up_frame st0 st"
      using select_image_frame(2) [OF sel im2] by blast
    then have "attached st0" "outstanding (cn_id c) st0 = 0" "up_frame st0 st" using env by (auto simp: conn_env_ok_def)
    then show ?thesis using c2 by (auto simp: count_ok_def up_frame_def attached_def outstanding_def pending_def)
  qed
  have "clients_wf cfg (ce_list e l)" using env wf by (simp add: conn_env_ok_def)
  note fin = end_connection_clean [OF _ _ this, of _ _ "ce_end e" "ce_rounds e" sent l' sent' c' im]
  show ?thesis
  proof (cases "go \<and> im2 \<noteq> None")
    case False
    then have "end_connection (ce_end e) (ce_rounds e) (ce_list e l) sent c2 im2 = Some (l', sent', c', im)"
      using eq sel by (auto split: option.splits bool.splits)
    then show ?thesis using fin [of im2 c2] ok2 c2(1) by simp
  next
    case True
    then obtain st where st: "im2 = Some st" by blast
    obtain c3 st3 where loop: "client_loop cfg flen (ce_requests e) c2 st = Some (c3, st3)"
      and "end_connection (ce_end e) (ce_rounds e) (ce_list e l) sent c3 (Some st3) = Some (l', sent', c', im)"
      using eq sel True st by (auto split: option.splits)
    moreover have "count_ok c3 st3 \<and> cn_id c3 = cn_id c"
      using client_loop_count [OF _ ok2 [OF st] loop, of ok] env c2(1) by (simp add: conn_env_ok_def)
    ultimately show ?thesis using fin [of "Some st3" c3] by simp
  qed
qed

text \<open>
  C26: When a connection is over, for whatever reason, its client is not in the list of clients, its socket is closed
  and no request in the uplink's queue refers to it, whatever the other threads did meanwhile: the freed client is
  not used any more. Along the way the 8-bit counter of relayed requests is exact.
\<close>

theorem connection_leaves_nothing_behind:
  assumes "conn_env_ok cfg ok (cn_id c) e" "clients_wf cfg l" "cn_id c \<notin> clients_of l"
    and "net_handleNewConnection cfg e flen c l sent = Some (l', sent', c', im)"
  shows "cn_id c \<notin> clients_of l' \<and> c_sock (cn_client c') = -1
    \<and> (\<forall>st. im = Some st \<longrightarrow> (\<forall>q \<in> set (pending st). \<not> mine_client (cn_id c) q))"
proof -
  obtain f s where first: "recv_first (cn_in c) = Some (f, s)"
    using assms(4) by (auto simp: net_handleNewConnection_def split: option.splits)
  have "cn_id c \<notin> clients_of l' \<and> c_sock (cn_client c') = -1 \<and> (\<forall>st. im = Some st \<longrightarrow> outstanding (cn_id c) st = 0)"
  proof (cases f)
    case (FirstSelect request)
    define c1 where "c1 = c\<lparr>cn_in := s, cn_client := (cn_client c)\<lparr>bytesSent := 0, relayedCount := 0\<rparr>\<rparr>"
    have c1: "cn_id c1 = cn_id c" "relayedCount (cn_client c1) = 0" by (simp_all add: c1_def)
    obtain added l1 where add: "addToList cfg (cn_id c) l = (added, l1)" by (metis surj_pair)
    note eq = assms(4) [unfolded net_handleNewConnection_def first FirstSelect option.case prod.case first_request.case Let_def,
        folded c1_def, unfolded c1 add prod.case]
    show ?thesis
    proof (cases added)
      case False
      then have "l1 = l" using add cl.full_law [of cfg "cn_id c" l l1] by simp
      then show ?thesis using eq False assms(3) by (auto simp: freeClientStruct_def)
    next
      case True
      then have "clients_wf cfg l1" using add cl.add_law [OF assms(2,3)] by simp
      then show ?thesis
        using serve_client_clean [of cfg ok c1 e l1 flen request sent l' sent' c' im] eq True assms(1) c1 by simp
    qed
  qed (use assms(3,4) first in \<open>auto simp: net_handleNewConnection_def\<close>)
  then show ?thesis by (auto simp: outstanding_def filter_empty_conv)
qed

definition sample_conn_env :: conn_env where
  "sample_conn_env = \<lparr>ce_beyond = 0, ce_now = \<lparr>tv_sec = 0, tv_nsec = 0\<rparr>, ce_end = \<lparr>tv_sec = 9, tv_nsec = 0\<rparr>, ce_rnd = 0,
     ce_getOrLoad = (\<lambda>_ _. Some (3, sample_uplink\<lparr>ul := uplink_fresh\<rparr>)), ce_get = (\<lambda>_ _. None), ce_requests = [sample_net_env],
     ce_rounds = [], ce_list = removeFromList 5\<rparr>"

lemma sample_conn_env_ok: "conn_env_ok net_config ok x sample_conn_env"
proof -
  have "others_ok net_config ok x id" by (auto simp: others_ok_def)
  moreover have "attached (sample_uplink\<lparr>ul := uplink_fresh\<rparr>)" "outstanding x (sample_uplink\<lparr>ul := uplink_fresh\<rparr>) = 0"
    by (simp_all add: attached_def outstanding_def pending_def uplink_fresh_def)
  ultimately show ?thesis
    using cl.remove_law [of net_config] by (simp add: conn_env_ok_def sample_conn_env_def sample_net_env_def)
qed

theorem connection_leaves_nothing_behind_witness:
  "case net_handleNewConnection net_config sample_conn_env 40000
       (sample_conn\<lparr>cn_in := [Data (request_bytes (mk_request CMD_SELECT_IMAGE 7 0 0)), Data []]\<rparr>) sample_clients 0 of
     None \<Rightarrow> False
   | Some (l', _, c', _) \<Rightarrow> 7 \<notin> clients_of l' \<and> c_sock (cn_client c') = -1"
proof -
  let ?c = "sample_conn\<lparr>cn_in := [Data (request_bytes (mk_request CMD_SELECT_IMAGE 7 0 0)), Data []]\<rparr>"
  have id: "cn_id ?c = 7" by (simp add: sample_conn_def)
  have "request_bytes (mk_request CMD_SELECT_IMAGE 7 0 0) \<noteq> []" using length_headers(1) [of "mk_request CMD_SELECT_IMAGE 7 0 0"] by fastforce
  then have first: "recv_first (cn_in ?c) = Some (FirstSelect (mk_request CMD_SELECT_IMAGE 7 0 0), [Data []])"
    by (simp add: recv_first_def mk_request_def)
  obtain l1 where add: "addToList net_config 7 sample_clients = (True, l1)"
    by (simp add: addToList_def sample_clients_def numeral_3_eq_3)
  have small: "\<not> MAX_PAYLOAD < 7" by (simp add: MAX_PAYLOAD_def)
  have sel: "\<exists>c'. select_image cfg be now rnd g1 g2 (mk_request CMD_SELECT_IMAGE 7 0 0) c = Some (False, c', None)" if "cn_in c = [Data []]" for cfg be now rnd g1 g2 c
    using that small by (simp add: select_image_def recv_request_payload_def sock_recv_def recv_result_def mk_request_def Let_def)
  have sc: "\<exists>x. serve_client net_config sample_conn_env 40000 (mk_request CMD_SELECT_IMAGE 7 0 0) c l1 0 = Some x" if inp: "cn_in c = [Data []]" for c
  proof -
    define c1 where "c1 = c\<lparr>cn_reply := \<lparr>rp_magic = dnbd3_packet_magic, rp_cmd = 0, rp_size = 0, rp_handle = 0\<rparr>, cn_cache := None, cn_hasName := False\<rparr>"
    have "cn_in c1 = [Data []]" using inp by (simp add: c1_def)
    then obtain c2 where "select_image net_config (ce_beyond sample_conn_env) (ce_now sample_conn_env) (ce_rnd sample_conn_env)
        (ce_getOrLoad sample_conn_env) (ce_get sample_conn_env) (mk_request CMD_SELECT_IMAGE 7 0 0) c1 = Some (False, c2, None)"
      using sel by blast
    then show ?thesis
      unfolding serve_client_def Let_def c1_def [symmetric] by (simp add: end_connection_def freeClientStruct_def Let_def)
  qed
  let ?c1 = "?c\<lparr>cn_in := [Data []], cn_client := (cn_client ?c)\<lparr>bytesSent := 0, relayedCount := 0\<rparr>\<rparr>"
  obtain x where "serve_client net_config sample_conn_env 40000 (mk_request CMD_SELECT_IMAGE 7 0 0) ?c1 l1 0 = Some x"
    using sc [of ?c1] by auto
  moreover obtain l' s' c' im where "x = (l', s', c', im)" by (rule prod_cases4)
  ultimately have r: "net_handleNewConnection net_config sample_conn_env 40000 ?c sample_clients 0 = Some (l', s', c', im)"
    unfolding net_handleNewConnection_def first option.case prod.case first_request.case Let_def using add id by simp
  then show ?thesis
    using connection_leaves_nothing_behind [of net_config _ ?c, OF sample_conn_env_ok sample_clients_wf(1) _ r] id sample_clients_wf(2)
    by simp
qed

end
