(* ===== verification/NetHandshake.thy ===== *)
theory NetHandshake
  imports NetRelay
begin

text \<open>
  The handshake from both sides: what \<^verbatim>\<open>dnbd3_select_image\<close> sends, \<^verbatim>\<open>net_handleNewConnection\<close> understands, and its
  answer tells \<^verbatim>\<open>dnbd3_select_image_reply\<close> the name, revision and size of the image.
\<close>

section \<open>The server reads the request\<close>

definition select_request_bytes :: "byte list \<Rightarrow> u16 \<Rightarrow> u8 \<Rightarrow> byte list" where
  "select_request_bytes nm revision flags8 = to_le 2 PROTOCOL_VERSION @ nm @ [0] @ to_le 2 revision @ [flags8]"

lemma length_select_request [simp]: "length (select_request_bytes nm revision flags8) = length nm + 6"
  by (simp add: select_request_bytes_def)

lemma unat_of_nat_32: "n < 2 ^ 32 \<Longrightarrow> unat (word_of_nat n :: u32) = n"
  by (simp add: unsigned_of_nat take_bit_nat_eq_self)

lemma writev_full: "writev bs s = Some (int (length bs), out, s') \<Longrightarrow> out = bs"
  by (induction bs s rule: writev.induct) (auto simp: min_def split: if_splits)

lemma select_image_message:
  assumes "dnbd3_select_image b nm revision flags8 so = Some (True, msg, so')" "length (buffer b) = MAX_PAYLOAD" "length nm \<le> 994"
  shows "msg = request_bytes (mk_request CMD_SELECT_IMAGE (word_of_nat (length nm + 6)) 0 0) @ select_request_bytes nm revision flags8"
proof -
  note w = select_image_payload_written [OF assms(2,3), of revision flags8]
  let ?p = "select_image_payload b nm revision flags8"
  define n where "n = length nm + 6"
  have len: "serializer_get_written_length ?p = word_of_nat n" by (simp add: serializer_get_written_length_def w(3) n_def)
  have u: "unat (word_of_nat n :: u32) = n" using assms(3) by (intro unat_of_nat_32) (simp add: n_def)
  have "int (unat (word_of_nat n :: u32)) = int n" by (simp only: u)
  then have ui: "uint (word_of_nat n :: u32) = int n" by simp
  have p: "take n (buffer ?p) = select_request_bytes nm revision flags8"
    using w(2,3) by (simp add: written_def select_request_bytes_def n_def)
  have "writev (request_bytes (mk_request CMD_SELECT_IMAGE (word_of_nat n) 0 0) @ select_request_bytes nm revision flags8) so
      = Some (int n + 24, msg, so')"
    using assms(1) by (auto simp: dnbd3_select_image_def Let_def len u ui p)
  then show ?thesis unfolding n_def [symmetric] by (intro writev_full [where s = so and s' = so']) (simp add: n_def)
qed

lemma recv_first_select:
  assumes "stream s = request_bytes q @ rest" "rq_magic q = dnbd3_packet_magic" "rq_cmd q = CMD_SELECT_IMAGE"
  shows "\<exists>s'. recv_first s = Some (FirstSelect q, s') \<and> stream s' = rest"
proof -
  obtain s' where "recv_waitall 24 s = Some (Inr (request_bytes q), s')" "stream s' = rest"
    using recv_waitall_stream [of 24 s] assms(1) by auto
  then show ?thesis using assms(2,3) by (simp add: recv_first_def)
qed

lemma parse_handshake_fields:
  assumes "sbuf_wf b" "0 \<notin> set nm" "remaining b = select_request_bytes nm revision flags8"
  shows "\<exists>b'. parse_handshake beyond b = (\<lparr>hs_version = PROTOCOL_VERSION, hs_name = Some nm, hs_rid = revision, hs_flags = flags8\<rparr>, b')
    \<and> buffer b' = buffer b"
proof -
  obtain r1 b1 where g1: "serializer_get_uint16 b = (r1, b1)" by (metis surj_pair)
  note f1 = f16.get_takes [OF assms(1) TrueI _ g1, of PROTOCOL_VERSION "nm @ [0] @ to_le 2 revision @ [flags8]", unfolded id_apply]
  obtain r2 b2 where g2: "serializer_get_string beyond b1 = (r2, b2)" by (metis surj_pair)
  note f2 = fstr.get_takes [OF _ assms(2) _ g2, of "to_le 2 revision @ [flags8]"]
  obtain r3 b3 where g3: "serializer_get_uint16 b2 = (r3, b3)" by (metis surj_pair)
  note f3 = f16.get_takes [OF _ TrueI _ g3, of revision "[flags8]", unfolded id_apply]
  obtain r4 b4 where g4: "serializer_get_uint8 b3 = (r4, b4)" by (metis surj_pair)
  note f4 = f8.get_takes [OF _ TrueI _ g4, of flags8 "[]", unfolded id_apply]
  have "buffer b1 = buffer b" "buffer b2 = buffer b1" "buffer b3 = buffer b2" "buffer b4 = buffer b3"
    using g1 g2 g3 g4
    by (auto simp: serializer_get_uint16_def serializer_get_string_def serializer_get_uint8_def Let_def split: if_splits)
  then show ?thesis
    using assms(3) f1 f2 f3 f4 by (simp add: parse_handshake_def g1 g2 g3 g4 select_request_bytes_def)
qed

section \<open>The server answers\<close>

definition select_reply_bytes :: "u16 \<Rightarrow> dnbd3_image_t \<Rightarrow> byte list" where
  "select_reply_bytes ver i = to_le 2 ver @ cstr_bytes (name i) @ [0] @ to_le 2 (rid i) @ to_le 8 (virtualFilesize i)"

lemma select_reply_written:
  assumes "length (buffer b) = MAX_PAYLOAD" "length (name i) \<le> 987" "\<not> ver < 3"
  shows "take (length (name i) + 13) (buffer (select_reply_payload b ver i)) = select_reply_bytes PROTOCOL_VERSION i"
    "serializer_get_written_length (select_reply_payload b ver i) = word_of_nat (length (name i) + 13)"
proof -
  let ?nm = "cstr_bytes (name i)"
  let ?b0 = "serializer_reset_write b"
  let ?b1 = "serializer_put_uint16 ?b0 PROTOCOL_VERSION"
  let ?b2 = "serializer_put_string ?b1 ?nm"
  let ?b3 = "serializer_put_uint16 ?b2 (rid i)"
  let ?b4 = "serializer_put_uint64 ?b3 (virtualFilesize i)"
  have l: "length ?nm = length (name i)" "length (name i) \<le> 987" "MAX_PAYLOAD = 1000" using assms by (simp_all add: cstr_bytes_def MAX_PAYLOAD_def)
  note b0 = reset_write_empty [of b]
  have p1: "sbuf_wf ?b1" "written ?b1 = to_le 2 PROTOCOL_VERSION" "buffer_pointer ?b1 = 2" "buffer_end ?b1 = 1000"
    using f16.put_appends [of ?b0 PROTOCOL_VERSION] b0 assms(1) l by simp_all
  have p2: "sbuf_wf ?b2" "written ?b2 = to_le 2 PROTOCOL_VERSION @ ?nm @ [0]"
      "buffer_pointer ?b2 = length (name i) + 3" "buffer_end ?b2 = 1000"
    using fstr.put_appends [of ?b1 ?nm] p1 l by simp_all
  have p3: "sbuf_wf ?b3" "written ?b3 = to_le 2 PROTOCOL_VERSION @ ?nm @ [0] @ to_le 2 (rid i)"
      "buffer_pointer ?b3 = length (name i) + 5" "buffer_end ?b3 = 1000"
    using f16.put_appends [of ?b2 "rid i"] p2 l by simp_all
  have p4: "written ?b4 = select_reply_bytes PROTOCOL_VERSION i" "buffer_pointer ?b4 = length (name i) + 13"
    using f64.put_appends [of ?b3 "virtualFilesize i"] p3 l by (simp_all add: select_reply_bytes_def)
  then show "take (length (name i) + 13) (buffer (select_reply_payload b ver i)) = select_reply_bytes PROTOCOL_VERSION i"
    "serializer_get_written_length (select_reply_payload b ver i) = word_of_nat (length (name i) + 13)"
    using assms(3) by (simp_all add: select_reply_payload_def written_def serializer_get_written_length_def)
qed

text \<open>A peer that takes a message at once.\<close>

lemma send_whole: "0 < length bs \<Longrightarrow> length bs \<le> n \<Longrightarrow> sock_sendAll bs 1 (Sent n # s) = Some (int (length bs), bs, s)"
  by (cases s rule: list.exhaust; cases "hd s")
    (auto simp: sock_sendAll_def next_try_def send_result_def min_def)

lemma reply_sent:
  assumes "unat (rp_size r) = length p" "0 < length p" "take (length p) buf = p" "cn_out c = Sent 16 # Sent m # out" "length p \<le> m"
  shows "conn_reply r (Some buf) c = Some (True, c\<lparr>cn_reply := r, cn_wire := cn_wire c @ reply_bytes r @ p, cn_out := out\<rparr>)"
proof -
  have "sock_sendAll (reply_bytes r) 1 (Sent 16 # Sent m # out) = Some (16, reply_bytes r, Sent m # out)"
    using send_whole [of "reply_bytes r" 16 "Sent m # out"] by simp
  moreover have "sock_sendAll p 1 (Sent m # out) = Some (int (length p), p, out)" by (rule send_whole [OF assms(2,5)])
  moreover have "rp_size r \<noteq> 0" using assms(1,2) by auto
  ultimately show ?thesis using assms(1,3,4) by (simp add: conn_reply_def send_reply_def)
qed

lemma payload_received:
  assumes "stream s = p @ rest" "0 < length p" "length p \<le> MAX_PAYLOAD" "unat sz = length p" "length (buffer b) = MAX_PAYLOAD"
  shows "\<exists>b' s'. recv_request_payload sz b s = Some (True, b', s') \<and> sbuf_wf b' \<and> remaining b' = p \<and> stream s' = rest
    \<and> length (buffer b') = MAX_PAYLOAD"
proof -
  obtain s' where r: "sock_recv (length p) s = Some (int (length p), p, s')" "stream s' = rest"
    using recv_loop_stream [of "length p" "[]" s 0 0] assms(1,2) by (auto simp: sock_recv_def)
  let ?b = "serializer_reset_read (b\<lparr>buffer := p @ drop (length p) (buffer b)\<rparr>) (length p)"
  have "sbuf_wf ?b" "remaining ?b = p" "length (buffer ?b) = MAX_PAYLOAD"
    using assms(3,5) by (auto simp: sbuf_wf_def remaining_def serializer_reset_read_def)
  moreover have "sz \<noteq> 0" using assms(2,4) by auto
  ultimately show ?thesis using r assms(3,4) by (simp add: recv_request_payload_def Let_def)
qed

lemma select_image_answers:
  assumes st: "stream (cn_in c) = select_request_bytes nm revision flags8 @ rest" and nm: "length nm \<le> 994" "0 \<notin> set nm"
    and sz: "rq_size q = word_of_nat (length nm + 6)"
    and fi: "find_image cfg (flags8 AND FLAGS8_SERVER \<noteq> 0) flags8 (getOrLoad nm revision) (get nm revision) = Some (a, im)"
    and ok: "accept_client rnd (img im)" "length (name (img im)) \<le> 987"
    and out: "cn_out c = Sent 16 # Sent 1000 # out"
  defines "reply \<equiv> (cn_reply c)\<lparr>rp_cmd := CMD_SELECT_IMAGE, rp_size := word_of_nat (length (name (img im)) + 13)\<rparr>"
  shows "\<exists>c' im'. select_image cfg beyond now rnd getOrLoad get q c = Some (True, c', Some im') \<and> stream (cn_in c') = rest
    \<and> c_image (cn_client c') = Some a \<and> cn_wire c' = cn_wire c @ reply_bytes reply @ select_reply_bytes PROTOCOL_VERSION (img im)"
proof -
  define srv where "srv \<longleftrightarrow> flags8 AND FLAGS8_SERVER \<noteq> 0"
  have q: "unat (rq_size q) = length nm + 6" using sz nm(1) unat_of_nat_32 [of "length nm + 6"] by simp
  obtain b s1 where p: "recv_request_payload (rq_size q) \<lparr>buffer = replicate MAX_PAYLOAD 0, buffer_end = 0, buffer_pointer = 0\<rparr> (cn_in c) = Some (True, b, s1)"
    "sbuf_wf b" "remaining b = select_request_bytes nm revision flags8" "stream s1 = rest" "length (buffer b) = MAX_PAYLOAD"
    using payload_received [OF st, of "rq_size q" "\<lparr>buffer = replicate MAX_PAYLOAD 0, buffer_end = 0, buffer_pointer = 0\<rparr>"] q nm(1)
    by (auto simp: MAX_PAYLOAD_def)
  obtain b1 where h: "parse_handshake beyond b = (\<lparr>hs_version = PROTOCOL_VERSION, hs_name = Some nm, hs_rid = revision, hs_flags = flags8\<rparr>, b1)"
    "length (buffer b1) = MAX_PAYLOAD"
    using parse_handshake_fields [OF p(2) nm(2) p(3)] p(5) by metis
  define im1 where "im1 = (if srv then im else touch_image now im)"
  have im1: "name (img im1) = name (img im)" "rid (img im1) = rid (img im)" "virtualFilesize (img im1) = virtualFilesize (img im)"
    by (simp_all add: im1_def touch_image_def)
  have sr: "select_reply_bytes v (img im1) = select_reply_bytes v (img im)" for v by (simp add: select_reply_bytes_def im1)
  define rb where "rb = select_reply_payload b1 PROTOCOL_VERSION (img im1)"
  have w: "take (length (name (img im)) + 13) (buffer rb) = select_reply_bytes PROTOCOL_VERSION (img im)"
    "serializer_get_written_length rb = word_of_nat (length (name (img im)) + 13)"
    using select_reply_written [OF h(2), of "img im1" PROTOCOL_VERSION] ok(2) im1 sr by (simp_all add: rb_def PROTOCOL_VERSION_def)
  have l: "length (select_reply_bytes PROTOCOL_VERSION (img im)) = length (name (img im)) + 13"
    by (simp add: select_reply_bytes_def cstr_bytes_def)
  have le: "length (select_reply_bytes PROTOCOL_VERSION (img im)) \<le> 1000" using ok(2) unfolding l by linarith
  have u: "unat (rp_size reply) = length (name (img im)) + 13"
    using ok(2) unat_of_nat_32 [of "length (name (img im)) + 13"] by (simp add: reply_def)
  define c2 where "c2 = c\<lparr>cn_in := s1, cn_client := (cn_client c)\<lparr>isServer := srv, c_image := Some a\<rparr>\<rparr>"
  have sent: "conn_reply reply (Some (buffer rb)) c2
      = Some (True, c2\<lparr>cn_reply := reply, cn_wire := cn_wire c2 @ reply_bytes reply @ select_reply_bytes PROTOCOL_VERSION (img im), cn_out := out\<rparr>)"
    by (rule reply_sent [OF _ _ _ _ le]) (use w(1) l u out in \<open>simp_all add: c2_def\<close>)
  have "\<not> rq_size q < 3" using q by (simp add: word_less_nat_alt)
  moreover have "\<not> PROTOCOL_VERSION < MIN_SUPPORTED_CLIENT" by (simp add: PROTOCOL_VERSION_def MIN_SUPPORTED_CLIENT_def)
  ultimately have "select_image cfg beyond now rnd getOrLoad get q c
      = Some (True, c2\<lparr>cn_reply := reply, cn_wire := cn_wire c2 @ reply_bytes reply @ select_reply_bytes PROTOCOL_VERSION (img im), cn_out := out\<rparr>, Some im1)"
    using p(1) h(1) fi ok(1) sent w(2)
    by (simp add: select_image_def Let_def srv_def [symmetric] c2_def im1_def [symmetric] rb_def [symmetric] reply_def)
  then show ?thesis using p(4) by (auto simp: c2_def)
qed

section \<open>Property\<close>

text \<open>
  C34: The handshake works across the network, however the streams are fragmented: when the message of
  \<^verbatim>\<open>dnbd3_select_image\<close> arrives, the server takes it for what it is, looks up the image by the name and revision that
  were sent, attaches the client to it and leaves the rest of the stream for the commands; and from the server's
  answer \<^verbatim>\<open>dnbd3_select_image_reply\<close> reads the protocol version and the image's name, revision and size.
\<close>

theorem handshake_round_trip:
  assumes "dnbd3_select_image b nm revision flags8 so = Some (True, msg, so')" "length (buffer b) = MAX_PAYLOAD"
    and "length nm \<le> 994" "0 \<notin> set nm" "stream (cn_in c) = msg @ rest" "rp_magic (cn_reply c) = dnbd3_packet_magic"
    and "find_image cfg (flags8 AND FLAGS8_SERVER \<noteq> 0) flags8 (getOrLoad nm revision) (get nm revision) = Some (a, im)"
    and "accept_client rnd (img im)" "length (name (img im)) \<le> 987" "0 \<notin> set (cstr_bytes (name (img im)))"
    and "cn_out c = Sent 16 # Sent 1000 # out"
  shows "\<exists>request s1 c' im' w. recv_first (cn_in c) = Some (FirstSelect request, s1)
    \<and> select_image cfg beyond now rnd getOrLoad get request (c\<lparr>cn_in := s1\<rparr>) = Some (True, c', Some im')
    \<and> stream (cn_in c') = rest \<and> c_image (cn_client c') = Some a \<and> cn_wire c' = cn_wire c @ w
    \<and> (\<forall>s b2 rest2. stream s = w @ rest2 \<and> length (buffer b2) = MAX_PAYLOAD \<longrightarrow>
         (\<exists>s2. dnbd3_select_image_reply beyond b2 s = Some (Some \<lparr>sr_version = PROTOCOL_VERSION,
             sr_name = Some (cstr_bytes (name (img im))), sr_rid = rid (img im), sr_size = virtualFilesize (img im)\<rparr>, s2)
           \<and> stream s2 = rest2))"
proof -
  define q where "q = mk_request CMD_SELECT_IMAGE (word_of_nat (length nm + 6)) 0 0"
  have msg: "msg = request_bytes q @ select_request_bytes nm revision flags8"
    unfolding q_def by (rule select_image_message [OF assms(1-3)])
  have q: "rq_magic q = dnbd3_packet_magic" "rq_cmd q = CMD_SELECT_IMAGE" "rq_size q = word_of_nat (length nm + 6)"
    by (simp_all only: q_def mk_request_def dnbd3_request_t.simps)
  obtain s1 where first: "recv_first (cn_in c) = Some (FirstSelect q, s1)" "stream s1 = select_request_bytes nm revision flags8 @ rest"
    using recv_first_select [of "cn_in c" q] assms(5) msg q by auto
  define reply where "reply = (cn_reply c)\<lparr>rp_cmd := CMD_SELECT_IMAGE, rp_size := word_of_nat (length (name (img im)) + 13)\<rparr>"
  define w where "w = reply_bytes reply @ select_reply_bytes PROTOCOL_VERSION (img im)"
  obtain c' im' where sel: "select_image cfg beyond now rnd getOrLoad get q (c\<lparr>cn_in := s1\<rparr>) = Some (True, c', Some im')"
    "stream (cn_in c') = rest" "c_image (cn_client c') = Some a" "cn_wire c' = cn_wire c @ w"
    using select_image_answers [of "c\<lparr>cn_in := s1\<rparr>" nm revision flags8 rest q cfg getOrLoad get a im rnd out beyond now]
      first(2) assms(3,4,7-9,11) q(3) by (auto simp: reply_def w_def)
  have l: "length (select_reply_bytes PROTOCOL_VERSION (img im)) = length (name (img im)) + 13"
    by (simp add: select_reply_bytes_def cstr_bytes_def)
  have r: "rp_magic reply = dnbd3_packet_magic" "rp_cmd reply = CMD_SELECT_IMAGE"
    "unat (rp_size reply) = length (select_reply_bytes PROTOCOL_VERSION (img im))"
    using assms(6,9) unat_of_nat_32 [of "length (name (img im)) + 13"] by (simp_all add: reply_def l)
  have le: "length (select_reply_bytes PROTOCOL_VERSION (img im)) \<le> MAX_PAYLOAD" using l assms(9) unfolding MAX_PAYLOAD_def by linarith
  have "\<exists>s2. dnbd3_select_image_reply beyond b2 s = Some (Some \<lparr>sr_version = PROTOCOL_VERSION,
             sr_name = Some (cstr_bytes (name (img im))), sr_rid = rid (img im), sr_size = virtualFilesize (img im)\<rparr>, s2)
           \<and> stream s2 = rest2" if "stream s = w @ rest2" "length (buffer b2) = MAX_PAYLOAD" for s b2 rest2
    using select_image_reply_stream [OF _ r(1,2,3) select_reply_bytes_def assms(10) le that(2), of s rest2] that(1) by (simp add: w_def)
  then show ?thesis using first(1) sel by blast
qed

definition greeting :: conn where
  "greeting = sample_conn\<lparr>cn_in := [Data (request_bytes (mk_request CMD_SELECT_IMAGE 7 0 0)), Data (select_request_bytes [97] 1 0)],
     cn_out := [Sent 16, Sent 1000]\<rparr>"

theorem handshake_round_trip_witness:
  "\<exists>request s1 c' im'. recv_first (cn_in greeting) = Some (FirstSelect request, s1)
    \<and> select_image net_config 0 \<lparr>tv_sec = 0, tv_nsec = 0\<rparr> 0 (\<lambda>_ _. Some (3, sample_uplink)) (\<lambda>_ _. None) request (greeting\<lparr>cn_in := s1\<rparr>)
      = Some (True, c', Some im') \<and> c_image (cn_client c') = Some 3"
proof -
  let ?b = "\<lparr>buffer = replicate 1000 0, buffer_end = 0, buffer_pointer = 0\<rparr>"
  have b: "length (buffer ?b) = MAX_PAYLOAD" by (simp add: MAX_PAYLOAD_def)
  note w = select_image_payload_written [OF b, of "[97]" 1 0, simplified]
  have "length (buffer (select_image_payload ?b [97] 1 0)) = 1000" using w(1) by (simp add: sbuf_wf_def MAX_PAYLOAD_def)
  then obtain msg where m: "dnbd3_select_image ?b [97] 1 0 [Sent 100] = Some (True, msg, [])"
    by (simp add: dnbd3_select_image_def serializer_get_written_length_def w Let_def)
  have msg: "msg = request_bytes (mk_request CMD_SELECT_IMAGE 7 0 0) @ select_request_bytes [97] 1 0"
    using select_image_message [OF m b] by simp
  have "request_bytes (mk_request CMD_SELECT_IMAGE 7 0 0) \<noteq> []" using length_headers(1) [of "mk_request CMD_SELECT_IMAGE 7 0 0"] by fastforce
  then have st: "stream (cn_in greeting) = msg @ []" by (simp add: greeting_def msg stream_Data select_request_bytes_def)
  have im: "find_image net_config (0 AND FLAGS8_SERVER \<noteq> 0) 0 (Some (3, sample_uplink)) None = Some (3, sample_uplink)"
    "accept_client 0 (img sample_uplink)" "name (img sample_uplink) = ''a''" "rp_magic (cn_reply greeting) = dnbd3_packet_magic"
    "cn_out greeting = Sent 16 # Sent 1000 # []"
    by (simp_all add: find_image_def accept_client_def sample_uplink_def sample_image_def greeting_def sample_conn_def)
  show ?thesis
    using handshake_round_trip [OF m b _ _ st, of net_config "\<lambda>_ _. Some (3, sample_uplink)" "\<lambda>_ _. None" 3 sample_uplink 0 "[]" 0 "\<lparr>tv_sec = 0, tv_nsec = 0\<rparr>"]
      im by (fastforce simp: cstr_bytes_def)
qed

end
