(* ===== verification/ImageList.thy ===== *)
theory ImageList
  imports NetProof
begin

text \<open>
  The list of images of \<^verbatim>\<open>src/server/image.c\<close> and the life of an image: looking it up, holding on to it, giving it
  back, taking it out of the list and freeing it. Memory is a heap that maps an address to the image there, with its
  uplink and cache file, or to nothing when it is not allocated or was freed. An access to freed memory and a failed
  assertion are \<open>None\<close>. Each section under \<^verbatim>\<open>imageListLock\<close> is one function.
\<close>

section \<open>The store\<close>

record image_store =
  heap :: "nat \<Rightarrow> uplink_state option"
  islots :: "nat option list"
  num_images :: nat
  imgIdCounter :: int

definition listed :: "image_store \<Rightarrow> nat list" where
  "listed s = concat (map (\<lambda>x. case x of None \<Rightarrow> [] | Some a \<Rightarrow> [a]) (take (num_images s) (islots s)))"

definition put :: "nat \<Rightarrow> uplink_state option \<Rightarrow> image_store \<Rightarrow> image_store" where
  "put a st s = s\<lparr>heap := (heap s)(a := st)\<rparr>"

definition add_users :: "int \<Rightarrow> uplink_state \<Rightarrow> uplink_state" where
  "add_users n st = st\<lparr>img := (img st)\<lparr>users := users (img st) + n\<rparr>\<rparr>"

section \<open>Looking up\<close>

text \<open>The first image in the list that satisfies a test.\<close>

fun scan :: "(uplink_state \<Rightarrow> bool) \<Rightarrow> (nat \<Rightarrow> uplink_state option) \<Rightarrow> nat list \<Rightarrow> nat option option" where
  "scan P h [] = Some None"
| "scan P h (a # as) = (case h a of None \<Rightarrow> None | Some st \<Rightarrow> if P st then Some (Some a) else scan P h as)"

text \<open>One more user of an image.\<close>

definition hold :: "nat \<Rightarrow> image_store \<Rightarrow> image_store option" where
  "hold a s = (case heap s a of None \<Rightarrow> None | Some st \<Rightarrow> Some (put a (Some (add_users 1 st)) s))"

definition image_byId :: "int \<Rightarrow> image_store \<Rightarrow> (nat option \<times> image_store) option" where
  "image_byId imgId s =
     (case scan (\<lambda>st. img_id (img st) = imgId) (heap s) (listed s) of
        None \<Rightarrow> None
      | Some None \<Rightarrow> Some (None, s)
      | Some (Some a) \<Rightarrow> map_option (\<lambda>s1. (Some a, s1)) (hold a s))"

text \<open>
  The search of \<^verbatim>\<open>image_get\<close>: the image with the requested revision or, when 0 is requested, the one with the highest
  revision; \<open>best\<close> is the candidate so far.
\<close>

fun search ::
  "string \<Rightarrow> u16 \<Rightarrow> (nat \<Rightarrow> uplink_state option) \<Rightarrow> nat list \<Rightarrow> (nat \<times> u16) option \<Rightarrow> (nat \<times> u16) option option" where
  "search nm revision h [] best = Some best"
| "search nm revision h (a # as) best =
     (case h a of
        None \<Rightarrow> None
      | Some st \<Rightarrow>
          if name (img st) \<noteq> nm then search nm revision h as best
          else if revision = rid (img st) then Some (Some (a, rid (img st)))
          else if revision = 0 \<and> (case best of None \<Rightarrow> True | Some (_, r) \<Rightarrow> r < rid (img st))
          then search nm revision h as (Some (a, rid (img st)))
          else search nm revision h as best)"

text \<open>\<^verbatim>\<open>image_get\<close> up to the place where it unlocks the list.\<close>

definition image_find :: "string \<Rightarrow> u16 \<Rightarrow> image_store \<Rightarrow> (nat option \<times> image_store) option" where
  "image_find nm revision s =
     (if nm = [] \<or> last nm = CHR ''/'' \<or> hd nm = CHR ''/'' then Some (None, s)
      else case search nm revision (heap s) (listed s) None of
        None \<Rightarrow> None
      | Some None \<Rightarrow> Some (None, s)
      | Some (Some (a, _)) \<Rightarrow> map_option (\<lambda>s1. (Some a, s1)) (hold a s))"

text \<open>\<^verbatim>\<open>image_lock\<close>: the address is looked for in the list before it is used.\<close>

definition image_lock :: "nat \<Rightarrow> image_store \<Rightarrow> (bool \<times> image_store) option" where
  "image_lock a s = (if a \<in> set (listed s) then map_option (\<lambda>s1. (True, s1)) (hold a s) else Some (False, s))"

section \<open>Adding and removing\<close>

text \<open>The counter of identifiers is an \<^verbatim>\<open>int\<close> in the source, which lasts for \<open>2 ^ 31 - 1\<close> images; here it is unbounded.\<close>

definition image_addToList :: "config \<Rightarrow> nat \<Rightarrow> image_store \<Rightarrow> (bool \<times> image_store) option" where
  "image_addToList cfg a s =
     (case heap s a of
        None \<Rightarrow> None
      | Some st \<Rightarrow>
          let cnt = imgIdCounter s + 1;
              s1 = (put a (Some (st\<lparr>img := (img st)\<lparr>img_id := cnt\<rparr>\<rparr>)) s)\<lparr>imgIdCounter := cnt\<rparr>
          in case free_slot (islots s) 0 (num_images s) of
               Some i \<Rightarrow> Some (True, s1\<lparr>islots := (islots s)[i := Some a]\<rparr>)
             | None \<Rightarrow>
                 if int (num_images s) \<ge> maxImages cfg then Some (False, s1)
                 else Some (True, s1\<lparr>islots := (islots s)[num_images s := Some a], num_images := num_images s + 1\<rparr>))"

text \<open>The loop of \<^verbatim>\<open>image_remove\<close>, from the last slot to the first; the last component is whether the image was found.\<close>

fun remove_loop :: "nat \<Rightarrow> nat option list \<Rightarrow> nat \<Rightarrow> nat \<Rightarrow> bool \<Rightarrow> nat option list \<times> nat \<times> bool" where
  "remove_loop a cs n 0 found = (cs, n, found)"
| "remove_loop a cs n (Suc i) found =
     (let hit = (cs ! i = Some a);
          cs1 = (if hit then cs[i := None] else cs);
          n1 = (if cs1 ! i = None \<and> i + 1 = n then n - 1 else n)
      in remove_loop a cs1 n1 i (found \<or> hit))"

definition unlist :: "nat \<Rightarrow> image_store \<Rightarrow> bool \<times> image_store" where
  "unlist a s =
     (let (cs, n, found) = remove_loop a (islots s) (num_images s) (num_images s) False
      in (found, s\<lparr>islots := cs, num_images := n\<rparr>))"

text \<open>
  \<^verbatim>\<open>image_free\<close>: when an uplink is running it is told to shut down, and holds the image until it has; this is the
  second component of the result. Otherwise the memory is freed. The map and metadata files written then are not part of
  the store.
\<close>

definition image_free :: "nat \<Rightarrow> image_store \<Rightarrow> (image_store \<times> bool) option" where
  "image_free a s =
     (case heap s a of
        None \<Rightarrow> None
      | Some st \<Rightarrow>
          if users (img st) \<noteq> 0 then None
          else let (gone, st1) = uplink_shutdown st
               in if \<not> gone then Some (put a (Some st1) s, True) else Some (put a None s, False))"

text \<open>\<^verbatim>\<open>image_remove\<close>: first under the lock, with the result that the image is to be freed, then without.\<close>

definition remove_section :: "nat \<Rightarrow> image_store \<Rightarrow> (image_store \<times> bool) option" where
  "remove_section a s =
     (let (found, s1) = unlist a s
      in if \<not> found then Some (s1, False)
         else case heap s a of None \<Rightarrow> None | Some st \<Rightarrow> Some (s1, users (img st) = 0))"

definition image_remove :: "nat \<Rightarrow> image_store \<Rightarrow> (image_store \<times> bool) option" where
  "image_remove a s =
     (case remove_section a s of
        None \<Rightarrow> None
      | Some (s1, must) \<Rightarrow> if must then image_free a s1 else Some (s1, False))"

text \<open>\<^verbatim>\<open>image_release\<close> in the same two parts.\<close>

definition release_section :: "nat \<Rightarrow> image_store \<Rightarrow> (image_store \<times> bool) option" where
  "release_section a s =
     (case heap s a of
        None \<Rightarrow> None
      | Some st \<Rightarrow>
          if users (img st) \<le> 0 then None
          else let s1 = put a (Some (add_users (-1) st)) s
               in Some (s1, users (img st) - 1 = 0 \<and> a \<notin> set (listed s1)))"

definition image_release :: "nat \<Rightarrow> image_store \<Rightarrow> (image_store \<times> bool) option" where
  "image_release a s =
     (case release_section a s of
        None \<Rightarrow> None
      | Some (s1, must) \<Rightarrow> if must then image_free a s1 else Some (s1, False))"

section \<open>All images\<close>

text \<open>One round of the loop of \<^verbatim>\<open>image_tryFreeAll\<close>; the list of results has the images that are still held by their uplink.\<close>

definition trim_slot :: "nat \<Rightarrow> image_store \<Rightarrow> image_store" where
  "trim_slot i s = (if i + 1 = num_images s \<and> islots s ! i = None then s\<lparr>num_images := num_images s - 1\<rparr> else s)"

fun free_loop :: "nat \<Rightarrow> image_store \<Rightarrow> (image_store \<times> nat list) option" where
  "free_loop 0 s = Some (s, [])"
| "free_loop (Suc i) s =
     (case islots s ! i of
        None \<Rightarrow> free_loop i (trim_slot i s)
      | Some a \<Rightarrow>
          (case heap s a of
             None \<Rightarrow> None
           | Some st \<Rightarrow>
               if users (img st) \<noteq> 0 then free_loop i (trim_slot i s)
               else (case image_free a (s\<lparr>islots := (islots s)[i := None]\<rparr>) of
                       None \<Rightarrow> None
                     | Some (s1, kept) \<Rightarrow>
                         map_option (\<lambda>(s2, ks). (s2, if kept then a # ks else ks)) (free_loop i (trim_slot i s1)))))"

definition image_tryFreeAll :: "image_store \<Rightarrow> (bool \<times> image_store \<times> nat list) option" where
  "image_tryFreeAll s = map_option (\<lambda>(s1, ks). (num_images s1 = 0, s1, ks)) (free_loop (num_images s) s)"

text \<open>Stopping the uplink of an image, and whether that made it hold the image.\<close>

definition stop_uplink :: "nat \<Rightarrow> image_store \<Rightarrow> (image_store \<times> bool) option" where
  "stop_uplink a s =
     (case heap s a of
        None \<Rightarrow> None
      | Some st \<Rightarrow>
          Some (put a (Some (snd (uplink_shutdown st))) s, uplinkref (img st) \<noteq> None \<and> \<not> shutdown (ul st)))"

fun kill_loop :: "nat list \<Rightarrow> image_store \<Rightarrow> (image_store \<times> nat list) option" where
  "kill_loop [] s = Some (s, [])"
| "kill_loop (a # as) s =
     (case stop_uplink a s of
        None \<Rightarrow> None
      | Some (s1, kept) \<Rightarrow> map_option (\<lambda>(s2, ks). (s2, if kept then a # ks else ks)) (kill_loop as s1))"

definition image_killUplinks :: "image_store \<Rightarrow> (image_store \<times> nat list) option" where
  "image_killUplinks s = kill_loop (listed s) s"

text \<open>
  Checking for vanished images: one slot after the file was looked at without the lock. \<open>imgId\<close> is the number of the
  image that was in the slot then; the result has the image to be freed.
\<close>

definition vanish_section :: "nat \<Rightarrow> int \<Rightarrow> bool \<Rightarrow> image_store \<Rightarrow> (image_store \<times> nat option) option" where
  "vanish_section i imgId readable s =
     (if readable \<or> i \<ge> num_images s then Some (s, None)
      else case islots s ! i of
        None \<Rightarrow> Some (s, None)
      | Some a \<Rightarrow>
          (case heap s a of
             None \<Rightarrow> None
           | Some st \<Rightarrow>
               if img_id (img st) \<noteq> imgId then Some (s, None)
               else let s1 = trim_slot i (s\<lparr>islots := (islots s)[i := None]\<rparr>)
                    in Some (s1, if users (img st) = 0 then Some a else None)))"

definition vanish_slot :: "nat \<Rightarrow> int \<Rightarrow> bool \<Rightarrow> image_store \<Rightarrow> (image_store \<times> nat list) option" where
  "vanish_slot i imgId readable s =
     (case vanish_section i imgId readable s of
        None \<Rightarrow> None
      | Some (s1, None) \<Rightarrow> Some (s1, [])
      | Some (s1, Some a) \<Rightarrow> map_option (\<lambda>(s2, kept). (s2, if kept then [a] else [])) (image_free a s1))"

text \<open>Closing descriptors nobody has used for a while, and the list of them; at most 400 at a time.\<close>

fun close_loop :: "ticks \<Rightarrow> nat list \<Rightarrow> nat \<Rightarrow> image_store \<Rightarrow> (image_store \<times> int list) option" where
  "close_loop deadline [] n s = Some (s, [])"
| "close_loop deadline (a # as) n s =
     (case heap s a of
        None \<Rightarrow> None
      | Some st \<Rightarrow>
          if readFd (img st) \<noteq> -1 \<and> users (img st) = 0 \<and> uplinkref (img st) = None \<and> timing_reached (atime (img st)) deadline
          then let s1 = put a (Some (st\<lparr>img := (img st)\<lparr>readFd := -1\<rparr>\<rparr>)) s
               in if n + 1 = 400 then Some (s1, [readFd (img st)])
                  else map_option (\<lambda>(s2, fds). (s2, readFd (img st) # fds)) (close_loop deadline as (n + 1) s1)
          else close_loop deadline as n s)"

definition closeUnusedFds :: "config \<Rightarrow> ticks \<Rightarrow> image_store \<Rightarrow> (image_store \<times> int list) option" where
  "closeUnusedFds cfg deadline s = (if \<not> closeUnusedFd cfg then Some (s, []) else close_loop deadline (listed s) 0 s)"

text \<open>
  The choice of \<^verbatim>\<open>image_ensureDiskSpace\<close>: the replicated image nobody uses that was not accessed for the longest time.
  \<open>fromUpstream\<close> is \<^verbatim>\<open>isImageFromUpstream\<close>.
\<close>

fun oldest_loop :: "(string \<Rightarrow> bool) \<Rightarrow> (nat \<Rightarrow> uplink_state option) \<Rightarrow> nat list \<Rightarrow> (nat \<times> ticks) option \<Rightarrow> (nat \<times> ticks) option option" where
  "oldest_loop fromUpstream h [] best = Some best"
| "oldest_loop fromUpstream h (a # as) best =
     (case h a of
        None \<Rightarrow> None
      | Some st \<Rightarrow>
          if users (img st) \<noteq> 0 then oldest_loop fromUpstream h as best
          else if (case best of None \<Rightarrow> False | Some (_, t) \<Rightarrow> timing_1le2 t (atime (img st))) then oldest_loop fromUpstream h as best
          else if \<not> fromUpstream (name (img st)) then oldest_loop fromUpstream h as best
          else oldest_loop fromUpstream h as (Some (a, atime (img st))))"

definition pick_oldest :: "(string \<Rightarrow> bool) \<Rightarrow> image_store \<Rightarrow> (nat option \<times> image_store) option" where
  "pick_oldest fromUpstream s =
     (case oldest_loop fromUpstream (heap s) (listed s) None of
        None \<Rightarrow> None
      | Some None \<Rightarrow> Some (None, s)
      | Some (Some (a, _)) \<Rightarrow> map_option (\<lambda>s1. (Some a, s1)) (hold a s))"

end
