(* ===== verification/ImageProof.thy ===== *)
theory ImageProof
  imports ImageList UplinkThread
begin

text \<open>
  The life of an image: an image is in memory as long as it is in the list or somebody holds it, the count of users is
  exact, and whoever holds an image can give it back without tripping an assertion, unless its uplink ends by itself at a
  bad moment.
\<close>

section \<open>The list is a set\<close>

definition images_of :: "image_store \<Rightarrow> nat set" where
  "images_of s = set (listed s)"

definition SERVER_MAX_IMAGES :: nat where "SERVER_MAX_IMAGES = 5000"

definition images_wf :: "config \<Rightarrow> image_store \<Rightarrow> bool" where
  "images_wf cfg s \<longleftrightarrow> length (islots s) = SERVER_MAX_IMAGES \<and> maxImages cfg \<le> int SERVER_MAX_IMAGES
     \<and> num_images s \<le> SERVER_MAX_IMAGES
     \<and> (\<forall>i j a. i < num_images s \<and> j < num_images s \<and> islots s ! i = Some a \<and> islots s ! j = Some a \<longrightarrow> i = j)"

lemma images_of_set: "images_of s = {a. Some a \<in> set (take (num_images s) (islots s))}"
  by (force simp: images_of_def listed_def split: option.splits)

lemma images_of_iff:
  assumes "images_wf cfg s"
  shows "a \<in> images_of s \<longleftrightarrow> (\<exists>i < num_images s. islots s ! i = Some a)"
  using assms by (auto simp: images_of_set images_wf_def in_set_conv_nth)

lemma images_unique:
  "images_wf cfg s \<Longrightarrow> i < num_images s \<Longrightarrow> j < num_images s \<Longrightarrow> islots s ! i = Some a \<Longrightarrow> islots s ! j = Some a \<Longrightarrow> i = j"
  by (auto simp: images_wf_def)

lemma list_of_put [simp]:
  "images_wf cfg (put a st s) = images_wf cfg s" "listed (put a st s) = listed s" "images_of (put a st s) = images_of s"
  "islots (put a st s) = islots s" "num_images (put a st s) = num_images s" "heap (put a st s) = (heap s)(a := st)"
  by (simp_all add: put_def images_wf_def listed_def images_of_def)

text \<open>Clearing slots and giving up free slots at the end.\<close>

lemma clear_slots:
  assumes wf: "images_wf cfg s" and len: "length cs = length (islots s)" "n \<le> num_images s"
    and cs: "\<And>j. j < num_images s \<Longrightarrow> cs ! j = (if islots s ! j = Some a then None else islots s ! j)"
    and gone: "\<And>j. n \<le> j \<Longrightarrow> j < num_images s \<Longrightarrow> cs ! j = None"
  shows "images_wf cfg (s\<lparr>islots := cs, num_images := n\<rparr>)" "images_of (s\<lparr>islots := cs, num_images := n\<rparr>) = images_of s - {a}"
proof -
  let ?s = "s\<lparr>islots := cs, num_images := n\<rparr>"
  show wf': "images_wf cfg ?s"
    using wf len cs by (auto simp: images_wf_def split: if_splits)
  have "x \<in> images_of ?s \<longleftrightarrow> (\<exists>j < num_images s. cs ! j = Some x)" for x
    unfolding images_of_iff [OF wf'] using len(2) gone by (auto intro: less_le_trans) (metis linorder_not_le option.distinct(1))
  moreover have "(\<exists>j < num_images s. cs ! j = Some x) \<longleftrightarrow> x \<in> images_of s \<and> x \<noteq> a" for x
    unfolding images_of_iff [OF wf] using cs by (metis option.distinct(1) option.inject)
  ultimately show "images_of ?s = images_of s - {a}" by auto
qed

lemma remove_loop_spec:
  assumes "remove_loop a cs n i found = (cs', n', found')" "i \<le> n" "n \<le> length cs"
  shows "length cs' = length cs \<and> n' \<le> n \<and> (\<forall>j. cs' ! j = (if j < i \<and> cs ! j = Some a then None else cs ! j))
    \<and> (\<forall>j. n' \<le> j \<and> j < n \<longrightarrow> cs' ! j = None) \<and> (found' \<longleftrightarrow> found \<or> (\<exists>j < i. cs ! j = Some a))"
  using assms
proof (induction a cs n i found rule: remove_loop.induct)
  case (1 a cs n found)
  then show ?case by auto
next
  case (2 a cs n i found)
  define cs1 where "cs1 = (if cs ! i = Some a then cs[i := None] else cs)"
  define n1 where "n1 = (if cs1 ! i = None \<and> i + 1 = n then n - 1 else n)"
  have rl: "remove_loop a cs1 n1 i (found \<or> cs ! i = Some a) = (cs', n', found')"
    using 2(2) by (simp add: cs1_def n1_def Let_def)
  have c1: "length cs1 = length cs" "cs1 ! j = (if j = i \<and> cs ! j = Some a then None else cs ! j)" for j
    using 2(3,4) by (auto simp: cs1_def nth_list_update)
  have n1: "n1 \<le> n" "i \<le> n1" "n1 = n \<or> n1 = i \<and> n = Suc i \<and> cs1 ! i = None" using 2(3) by (auto simp: n1_def)
  have IH: "length cs' = length cs1 \<and> n' \<le> n1 \<and> (\<forall>j. cs' ! j = (if j < i \<and> cs1 ! j = Some a then None else cs1 ! j))
      \<and> (\<forall>j. n' \<le> j \<and> j < n1 \<longrightarrow> cs' ! j = None) \<and> (found' \<longleftrightarrow> (found \<or> cs ! i = Some a) \<or> (\<exists>j < i. cs1 ! j = Some a))"
    by (rule 2(1) [OF refl cs1_def n1_def rl n1(2)]) (use c1(1) 2(4) n1(1) in simp)
  have "cs' ! j = (if j < Suc i \<and> cs ! j = Some a then None else cs ! j)" for j
    using IH c1(2) [of j] by (cases "j = i") auto
  moreover have "cs' ! j = None" if "n' \<le> j" "j < n" for j
    using n1(3) IH that by (cases "j = i") auto
  moreover have "found' \<longleftrightarrow> found \<or> (\<exists>j < Suc i. cs ! j = Some a)"
    using IH c1(2) by (auto simp: less_Suc_eq split: if_splits)
  ultimately show ?case using IH c1(1) n1(1) by auto
qed

lemma unlist_law:
  assumes "images_wf cfg s" "unlist a s = (found, s')"
  shows "images_wf cfg s'" "images_of s' = images_of s - {a}" "heap s' = heap s" "found \<longleftrightarrow> a \<in> images_of s"
proof -
  obtain cs n f where rl: "remove_loop a (islots s) (num_images s) (num_images s) False = (cs, n, f)" by (metis prod_cases3)
  then have s': "found = f" "s' = s\<lparr>islots := cs, num_images := n\<rparr>" using assms(2) by (simp_all add: unlist_def)
  have spec: "length cs = length (islots s) \<and> n \<le> num_images s
      \<and> (\<forall>j. cs ! j = (if j < num_images s \<and> islots s ! j = Some a then None else islots s ! j))
      \<and> (\<forall>j. n \<le> j \<and> j < num_images s \<longrightarrow> cs ! j = None) \<and> (f \<longleftrightarrow> False \<or> (\<exists>j < num_images s. islots s ! j = Some a))"
    using assms(1) by (intro remove_loop_spec [OF rl]) (auto simp: images_wf_def)
  show "images_wf cfg s'" "images_of s' = images_of s - {a}"
    unfolding s' using spec clear_slots [OF assms(1), of cs n a] by metis+
  show "heap s' = heap s" "found \<longleftrightarrow> a \<in> images_of s" using spec images_of_iff [OF assms(1)] s' by auto
qed

lemma addToList_slot:
  assumes wf: "images_wf cfg s" and a: "a \<notin> images_of s" and i: "i < SERVER_MAX_IMAGES" "i \<le> num_images s"
    "i < num_images s \<Longrightarrow> islots s ! i = None"
  defines "s' \<equiv> s\<lparr>islots := (islots s)[i := Some a], num_images := max (num_images s) (Suc i)\<rparr>"
  shows "images_wf cfg s'" "images_of s' = insert a (images_of s)"
proof -
  have free: "islots s ! j \<noteq> Some a" if "j < num_images s" for j using a that images_of_iff [OF wf] by auto
  have nth: "islots s' ! j = (if j = i then Some a else islots s ! j)" for j
    using wf i(1) by (auto simp: images_wf_def nth_list_update s'_def)
  have n: "j < num_images s' \<longleftrightarrow> j < num_images s \<or> j = i" for j using i(2) by (auto simp: s'_def max_def)
  have "length (islots s') = SERVER_MAX_IMAGES" "num_images s' \<le> SERVER_MAX_IMAGES" "maxImages cfg \<le> int SERVER_MAX_IMAGES"
    using wf i(1) by (auto simp: images_wf_def s'_def)
  moreover have "j = k" if "j < num_images s'" "k < num_images s'" "islots s' ! j = Some x" "islots s' ! k = Some x" for j k x
    using that images_unique [OF wf, of j k x] free by (auto simp: n nth split: if_splits)
  ultimately show wf': "images_wf cfg s'" unfolding images_wf_def by blast
  have "(\<exists>j < num_images s'. islots s' ! j = Some x) \<longleftrightarrow> x = a \<or> (\<exists>j < num_images s. islots s ! j = Some x)" for x
    using i(3) by (auto simp: n nth) (metis option.distinct(1))
  then show "images_of s' = insert a (images_of s)"
    by (auto simp: images_of_iff [OF wf] images_of_iff [OF wf'])
qed

lemma image_addToList_law:
  assumes wf: "images_wf cfg s" and a: "a \<notin> images_of s" and st: "heap s a = Some st"
    and r: "image_addToList cfg a s = Some (ok, s')"
  shows "images_wf cfg s' \<and> images_of s' = (if ok then insert a (images_of s) else images_of s)
    \<and> (\<exists>k. heap s' = (heap s)(a \<mapsto> st\<lparr>img := (img st)\<lparr>img_id := k\<rparr>\<rparr>))"
proof -
  define s1 where "s1 = (put a (Some (st\<lparr>img := (img st)\<lparr>img_id := imgIdCounter s + 1\<rparr>\<rparr>)) s)\<lparr>imgIdCounter := imgIdCounter s + 1\<rparr>"
  have s1: "images_wf cfg s1" "images_of s1 = images_of s" "islots s1 = islots s" "num_images s1 = num_images s"
    using wf by (simp_all add: s1_def put_def images_wf_def images_of_def listed_def)
  have full: "num_images s < SERVER_MAX_IMAGES" if "int (num_images s) < maxImages cfg"
    using wf that by (simp add: images_wf_def)
  show ?thesis
  proof (cases "ok")
    case True
    obtain i where i: "i \<le> num_images s" "i < SERVER_MAX_IMAGES" "i < num_images s \<Longrightarrow> islots s ! i = None"
        "s' = s1\<lparr>islots := (islots s1)[i := Some a], num_images := max (num_images s1) (Suc i)\<rparr>"
    proof (cases "free_slot (islots s) 0 (num_images s)")
      case None
      then have "int (num_images s) < maxImages cfg"
          "s' = s1\<lparr>islots := (islots s1)[num_images s := Some a], num_images := max (num_images s1) (Suc (num_images s))\<rparr>"
        using True r st by (auto simp: image_addToList_def Let_def s1_def split: if_splits)
      then show thesis using that [of "num_images s"] full by simp
    next
      case (Some i)
      then have "i < num_images s" "islots s ! i = None" using free_slot_Some by fastforce+
      moreover from this have "s' = s1\<lparr>islots := (islots s1)[i := Some a], num_images := max (num_images s1) (Suc i)\<rparr>"
        using True r st Some by (auto simp: image_addToList_def Let_def s1_def max_def put_def intro!: image_store.equality)
      ultimately show thesis using that [of i] wf by (simp add: images_wf_def)
    qed
    have "images_wf cfg s' \<and> images_of s' = insert a (images_of s1)"
      unfolding i(4) using i s1 a by (intro conjI addToList_slot) auto
    then show ?thesis using True i(4) s1 by (auto simp: s1_def put_def)
  next
    case False
    then have "s' = s1" using r st by (auto simp: image_addToList_def Let_def s1_def split: option.splits if_splits)
    then show ?thesis using False s1 by (auto simp: s1_def put_def)
  qed
qed

text \<open>The operations on the list as one function each, without the memory.\<close>

definition list_add :: "config \<Rightarrow> nat \<Rightarrow> image_store \<Rightarrow> bool \<times> image_store" where
  "list_add cfg a s =
     (case image_addToList cfg a s of Some (True, s') \<Rightarrow> (True, s') | _ \<Rightarrow> (False, s))"

interpretation il: registry "images_wf cfg" images_of "list_add cfg" "\<lambda>a s. snd (unlist a s)" for cfg
proof unfold_locales
  show "images_wf cfg s' \<and> images_of s' = insert x (images_of s)"
    if "images_wf cfg s" "x \<notin> images_of s" "list_add cfg x s = (True, s')" for x s s'
  proof -
    have "image_addToList cfg x s = Some (True, s')"
      using that(3) by (auto simp: list_add_def split: option.splits prod.splits if_splits bool.splits)
    moreover from this obtain st where "heap s x = Some st" by (auto simp: image_addToList_def split: option.splits)
    ultimately show ?thesis using image_addToList_law [OF that(1,2)] by fastforce
  qed
  show "list_add cfg x s = (False, s') \<Longrightarrow> s' = s" for x s s'
    by (auto simp: list_add_def split: option.splits bool.splits)
  show "images_wf cfg s \<Longrightarrow> images_wf cfg (snd (unlist x s)) \<and> images_of (snd (unlist x s)) = images_of s - {x}" for s x
    using unlist_law [of cfg s x] by (metis prod.collapse)
qed

section \<open>Who may use an image\<close>

text \<open>
  \<open>H\<close> has an image once for each holder of it: a connection, the integrity checker, an uplink that is shutting down.
  \<open>D\<close> has an image once for each thread that is loading it or has decided to free it. An address is allocated exactly if it
  is in the list, held, or in these hands; the count of users is the number of holders.
\<close>

fun cell_ok :: "uplink_state option \<Rightarrow> bool \<Rightarrow> nat \<Rightarrow> nat \<Rightarrow> bool" where
  "cell_ok None l h d = (\<not> l \<and> h = 0 \<and> d = 0)"
| "cell_ok (Some st) l h d = (users (img st) = int h \<and> (d = 0 \<and> (l \<or> 0 < h) \<or> d = 1 \<and> \<not> l \<and> h = 0))"

definition store_ok :: "config \<Rightarrow> image_store \<Rightarrow> nat multiset \<Rightarrow> nat multiset \<Rightarrow> bool" where
  "store_ok cfg s H D \<longleftrightarrow> images_wf cfg s \<and> (\<forall>a. cell_ok (heap s a) (a \<in> images_of s) (count H a) (count D a))"

definition holders :: "nat \<Rightarrow> bool \<Rightarrow> nat multiset" where
  "holders a kept = (if kept then {#a#} else {#})"

lemma count_holders [simp]: "count (holders a kept) b = (if kept \<and> b = a then 1 else 0)"
  by (simp add: holders_def)

lemma store_ok_wf: "store_ok cfg s H D \<Longrightarrow> images_wf cfg s"
  by (simp add: store_ok_def)

lemma store_ok_cell: "store_ok cfg s H D \<Longrightarrow> cell_ok (heap s a) (a \<in> images_of s) (count H a) (count D a)"
  by (simp add: store_ok_def)

lemma store_ok_update:
  assumes "store_ok cfg s H D" "images_wf cfg s'"
    and "\<And>b. b \<noteq> a \<Longrightarrow> heap s' b = heap s b \<and> (b \<in> images_of s' \<longleftrightarrow> b \<in> images_of s) \<and> count H' b = count H b \<and> count D' b = count D b"
    and "cell_ok (heap s' a) (a \<in> images_of s') (count H' a) (count D' a)"
  shows "store_ok cfg s' H' D'"
  unfolding store_ok_def
proof (intro conjI allI assms(2))
  fix b show "cell_ok (heap s' b) (b \<in> images_of s') (count H' b) (count D' b)"
    using assms(3) [of b] assms(4) store_ok_cell [OF assms(1), of b] by (cases "b = a") auto
qed

lemma store_ok_alloc:
  assumes "store_ok cfg s H D" "a \<in> images_of s \<or> a \<in># H \<or> a \<in># D"
  obtains st where "heap s a = Some st" "users (img st) = int (count H a)"
  using store_ok_cell [OF assms(1), of a] assms(2) by (cases "heap s a") (auto simp: count_eq_zero_iff)

text \<open>The sections.\<close>

lemma hold_keeps:
  assumes ok: "store_ok cfg s H D" and a: "a \<in> images_of s"
  shows "\<exists>s'. hold a s = Some s' \<and> store_ok cfg s' (add_mset a H) D"
proof -
  obtain st where st: "heap s a = Some st" "users (img st) = int (count H a)" using store_ok_alloc [OF ok] a by blast
  have "store_ok cfg (put a (Some (add_users 1 st)) s) (add_mset a H) D"
    by (rule store_ok_update [OF ok, where a = a])
      (use store_ok_cell [OF ok, of a] store_ok_wf [OF ok] st a in \<open>auto simp: add_users_def\<close>)
  then show ?thesis by (simp add: hold_def st(1))
qed

lemma release_keeps:
  assumes ok: "store_ok cfg s H D" and a: "a \<in># H"
  shows "\<exists>s' must. release_section a s = Some (s', must)
    \<and> store_ok cfg s' (H - {#a#}) (if must then add_mset a D else D)"
proof -
  obtain st where st: "heap s a = Some st" "users (img st) = int (count H a)" using store_ok_alloc [OF ok] a by blast
  obtain n where pos: "count H a = Suc n" using a by (metis count_greater_zero_iff gr0_implies_Suc)
  let ?s = "put a (Some (add_users (-1) st)) s"
  let ?must = "users (img st) - 1 = 0 \<and> a \<notin> images_of s"
  have "store_ok cfg ?s (H - {#a#}) (if ?must then add_mset a D else D)"
    by (rule store_ok_update [OF ok, where a = a])
      (use store_ok_cell [OF ok, of a] store_ok_wf [OF ok] st pos in \<open>auto simp: add_users_def\<close>)
  then show ?thesis using st pos by (simp add: release_section_def Let_def images_of_def [symmetric])
qed

lemma remove_keeps:
  assumes ok: "store_ok cfg s H D"
  shows "\<exists>s' must. remove_section a s = Some (s', must) \<and> store_ok cfg s' H (if must then add_mset a D else D)"
proof -
  obtain found s1 where u: "unlist a s = (found, s1)" by fastforce
  note l = unlist_law [OF store_ok_wf [OF ok] u]
  show ?thesis
  proof (cases found)
    case True
    then obtain st where st: "heap s a = Some st" "users (img st) = int (count H a)" using store_ok_alloc [OF ok] l(4) by blast
    have "store_ok cfg s1 H (if users (img st) = 0 then add_mset a D else D)"
      by (rule store_ok_update [OF ok l(1), where a = a]) (use store_ok_cell [OF ok, of a] st True l in auto)
    then show ?thesis using True st by (simp add: remove_section_def u)
  next
    case False
    have "store_ok cfg s1 H D"
      by (rule store_ok_update [OF ok l(1), where a = a]) (use store_ok_cell [OF ok, of a] False l in auto)
    then show ?thesis using False by (intro exI [of _ s1] exI [of _ False]) (simp add: remove_section_def u)
  qed
qed

lemma users_cancelAllRequests [simp]: "users (img (cancelAllRequests st)) = users (img st)"
  by (simp add: cancelAllRequests_def)

lemma uplink_shutdown_users:
  assumes "uplink_shutdown st = (gone, st')"
  shows "users (img st') = users (img st) + (if uplinkref (img st) \<noteq> None \<and> \<not> shutdown (ul st) then 1 else 0)"
    "users (img st) = 0 \<Longrightarrow> gone \<longleftrightarrow> \<not> (uplinkref (img st) \<noteq> None \<and> \<not> shutdown (ul st))"
  using assms by (auto simp: uplink_shutdown_def Let_def split: if_splits)

lemma free_keeps:
  assumes ok: "store_ok cfg s H D" and a: "a \<in># D"
  shows "\<exists>s' kept. image_free a s = Some (s', kept) \<and> store_ok cfg s' (H + holders a kept) (D - {#a#})"
proof -
  obtain st where st: "heap s a = Some st" "users (img st) = int (count H a)" using store_ok_alloc [OF ok] a by blast
  have c: "a \<notin> images_of s" "count H a = 0" "count D a = 1"
    using store_ok_cell [OF ok, of a] st a by (auto simp flip: count_greater_zero_iff)
  obtain gone st1 where u: "uplink_shutdown st = (gone, st1)" by fastforce
  let ?s = "if gone then put a None s else put a (Some st1) s"
  have "store_ok cfg ?s (H + holders a (\<not> gone)) (D - {#a#})"
    by (rule store_ok_update [OF ok, where a = a])
      (use store_ok_wf [OF ok] st c uplink_shutdown_users [OF u] in auto)
  then show ?thesis using st c u by (cases gone) (auto simp: image_free_def)
qed

lemma stop_keeps:
  assumes ok: "store_ok cfg s H D" and a: "heap s a = Some st" "a \<notin># D"
  shows "\<exists>s' kept. stop_uplink a s = Some (s', kept) \<and> store_ok cfg s' (H + holders a kept) D"
proof -
  obtain gone st1 where u: "uplink_shutdown st = (gone, st1)" by fastforce
  have "store_ok cfg (put a (Some st1) s) (H + holders a (uplinkref (img st) \<noteq> None \<and> \<not> shutdown (ul st))) D"
    by (rule store_ok_update [OF ok, where a = a])
      (use store_ok_cell [OF ok, of a] store_ok_wf [OF ok] a uplink_shutdown_users [OF u] in \<open>auto simp: not_in_iff\<close>)
  then show ?thesis using a u by (auto simp: stop_uplink_def)
qed

text \<open>Searching the list never meets freed memory, and finds an image of the list.\<close>

lemma listed_alloc: "store_ok cfg s H D \<Longrightarrow> a \<in> set (listed s) \<Longrightarrow> heap s a \<noteq> None"
  using store_ok_alloc [of cfg s H D a] by (auto simp: images_of_def)

lemma scan_in: "(\<And>a. a \<in> set as \<Longrightarrow> h a \<noteq> None) \<Longrightarrow> \<exists>r. scan P h as = Some r \<and> (\<forall>a. r = Some a \<longrightarrow> a \<in> set as)"
  by (induction as) force+

lemma search_in:
  "(\<And>a. a \<in> set as \<Longrightarrow> h a \<noteq> None) \<Longrightarrow> \<exists>r. search nm r0 h as best = Some r
    \<and> (\<forall>a x. r = Some (a, x) \<longrightarrow> a \<in> set as \<or> best = Some (a, x))"
proof (induction as arbitrary: best)
  case (Cons b as)
  obtain st where st: "h b = Some st" using Cons(2) [of b] by auto
  have IH: "\<exists>r. search nm r0 h as best = Some r \<and> (\<forall>a x. r = Some (a, x) \<longrightarrow> a \<in> set as \<or> best = Some (a, x))" for best
    using Cons by simp
  show ?case using IH [of best] IH [of "Some (b, rid (img st))"] by (auto simp: st)
qed simp

lemma oldest_in:
  "(\<And>a. a \<in> set as \<Longrightarrow> h a \<noteq> None) \<Longrightarrow> \<exists>r. oldest_loop fu h as best = Some r
    \<and> (\<forall>a x. r = Some (a, x) \<longrightarrow> a \<in> set as \<or> best = Some (a, x))"
proof (induction as arbitrary: best)
  case (Cons b as)
  obtain st where st: "h b = Some st" using Cons(2) [of b] by auto
  have IH: "\<exists>r. oldest_loop fu h as best = Some r \<and> (\<forall>a x. r = Some (a, x) \<longrightarrow> a \<in> set as \<or> best = Some (a, x))" for best
    using Cons by simp
  show ?case using IH [of best] IH [of "Some (b, atime (img st))"] by (auto simp: st)
qed simp

definition grabbed :: "nat option \<Rightarrow> nat multiset" where
  "grabbed r = (case r of None \<Rightarrow> {#} | Some a \<Rightarrow> {#a#})"

lemma grabbed_simps [simp]: "grabbed None = {#}" "grabbed (Some a) = {#a#}"
  by (simp_all add: grabbed_def)

lemma found_keeps:
  assumes ok: "store_ok cfg s H D" and r: "\<And>a. r = Some a \<Longrightarrow> a \<in> set (listed s)"
    and f: "f = (case r of None \<Rightarrow> Some (None, s) | Some a \<Rightarrow> map_option (\<lambda>s1. (Some a, s1)) (hold a s))"
  shows "\<exists>x s'. f = Some (x, s') \<and> store_ok cfg s' (H + grabbed x) D"
proof (cases r)
  case (Some a)
  then show ?thesis using hold_keeps [OF ok, of a] r f by (auto simp: images_of_def)
qed (use ok f in auto)

lemma byId_keeps: "store_ok cfg s H D \<Longrightarrow> \<exists>x s'. image_byId k s = Some (x, s') \<and> store_ok cfg s' (H + grabbed x) D"
proof -
  assume ok: "store_ok cfg s H D"
  obtain r where r: "scan (\<lambda>st. img_id (img st) = k) (heap s) (listed s) = Some r" "\<And>a. r = Some a \<Longrightarrow> a \<in> set (listed s)"
    using scan_in [of "listed s" "heap s" "\<lambda>st. img_id (img st) = k"] listed_alloc [OF ok] by auto
  show ?thesis using r by (intro found_keeps [OF ok, of r]) (auto simp: image_byId_def split: option.splits)
qed

lemma find_keeps: "store_ok cfg s H D \<Longrightarrow> \<exists>x s'. image_find nm r0 s = Some (x, s') \<and> store_ok cfg s' (H + grabbed x) D"
proof -
  assume ok: "store_ok cfg s H D"
  obtain r where r: "search nm r0 (heap s) (listed s) None = Some r" "\<And>a x. r = Some (a, x) \<Longrightarrow> a \<in> set (listed s)"
    using search_in [of "listed s" "heap s" nm r0 None] listed_alloc [OF ok] by auto
  show ?thesis
  proof (cases "nm = [] \<or> last nm = CHR ''/'' \<or> hd nm = CHR ''/''")
    case False
    then show ?thesis using r
      by (intro found_keeps [OF ok, of "map_option fst r"]) (auto simp: image_find_def split: option.splits)
  qed (use ok in \<open>simp add: image_find_def\<close>)
qed

lemma pick_keeps: "store_ok cfg s H D \<Longrightarrow> \<exists>x s'. pick_oldest fu s = Some (x, s') \<and> store_ok cfg s' (H + grabbed x) D"
proof -
  assume ok: "store_ok cfg s H D"
  obtain r where r: "oldest_loop fu (heap s) (listed s) None = Some r" "\<And>a x. r = Some (a, x) \<Longrightarrow> a \<in> set (listed s)"
    using oldest_in [of "listed s" "heap s" fu None] listed_alloc [OF ok] by auto
  show ?thesis using r
    by (intro found_keeps [OF ok, of "map_option fst r"]) (auto simp: pick_oldest_def split: option.splits)
qed

lemma lock_keeps:
  "store_ok cfg s H D \<Longrightarrow> \<exists>x s'. image_lock a s = Some (x, s') \<and> store_ok cfg s' (H + holders a x) D"
  using hold_keeps [of cfg s H D a] by (auto simp: image_lock_def images_of_def holders_def)

text \<open>The loops over the slots.\<close>

lemma trim_slot_law:
  assumes "images_wf cfg s"
  shows "images_wf cfg (trim_slot i s)" "images_of (trim_slot i s) = images_of s" "heap (trim_slot i s) = heap s"
    "i < num_images s \<Longrightarrow> i \<le> num_images (trim_slot i s)" "islots (trim_slot i s) = islots s"
proof -
  have "images_wf cfg (trim_slot i s) \<and> images_of (trim_slot i s) = images_of s" if "i + 1 = num_images s" "islots s ! i = None"
  proof -
    have t: "trim_slot i s = s\<lparr>num_images := i\<rparr>" using that by (simp add: trim_slot_def flip: that(1))
    have wf': "images_wf cfg (trim_slot i s)" unfolding t using assms that by (auto simp: images_wf_def)
    have "(\<exists>j < i. islots s ! j = Some x) \<longleftrightarrow> (\<exists>j < num_images s. islots s ! j = Some x)" for x
      using that by (auto simp: less_Suc_eq simp flip: that(1))
    then show ?thesis using wf' images_of_iff [OF assms] images_of_iff [OF wf'] by (auto simp: t)
  qed
  then show "images_wf cfg (trim_slot i s)" "images_of (trim_slot i s) = images_of s"
    using assms by (cases "i + 1 = num_images s \<and> islots s ! i = None"; auto simp: trim_slot_def)+
qed (auto simp: trim_slot_def)

lemma clear_slot:
  assumes wf: "images_wf cfg s" and i: "i < num_images s" "islots s ! i = Some a"
  shows "images_wf cfg (s\<lparr>islots := (islots s)[i := None]\<rparr>)" "images_of (s\<lparr>islots := (islots s)[i := None]\<rparr>) = images_of s - {a}"
proof -
  let ?cs = "(islots s)[i := None]"
  have nth: "?cs ! j = (if islots s ! j = Some a then None else islots s ! j)" if "j < num_images s" for j
    using images_unique [OF wf that i(1) _ i(2)] i wf by (auto simp: nth_list_update images_wf_def)
  have "s\<lparr>islots := ?cs\<rparr> = s\<lparr>islots := ?cs, num_images := num_images s\<rparr>" by (simp add: image_store.equality)
  then show "images_wf cfg (s\<lparr>islots := ?cs\<rparr>)" "images_of (s\<lparr>islots := ?cs\<rparr>) = images_of s - {a}"
    using clear_slots [OF wf, of ?cs "num_images s" a] nth by simp_all
qed

lemma trim_keeps: "store_ok cfg s H D \<Longrightarrow> store_ok cfg (trim_slot i s) H D"
  using trim_slot_law(1-3) [of cfg s i] by (simp add: store_ok_def)

lemma clear_keeps:
  assumes ok: "store_ok cfg s H D" and i: "i < num_images s" "islots s ! i = Some a" "heap s a = Some st"
  shows "store_ok cfg (s\<lparr>islots := (islots s)[i := None]\<rparr>) H (if users (img st) = 0 then add_mset a D else D)"
    "a \<notin># D"
proof -
  note c = clear_slot [OF store_ok_wf [OF ok] i(1,2)]
  have a: "a \<in> images_of s" using images_of_iff [OF store_ok_wf [OF ok]] i by blast
  show "a \<notin># D" using store_ok_cell [OF ok, of a] a i(3) by (auto simp: not_in_iff)
  show "store_ok cfg (s\<lparr>islots := (islots s)[i := None]\<rparr>) H (if users (img st) = 0 then add_mset a D else D)"
    by (rule store_ok_update [OF ok c(1), where a = a]) (use store_ok_cell [OF ok, of a] i(3) a in \<open>auto simp: c(2) split: if_splits\<close>)
qed

lemma slot_alloc:
  assumes ok: "store_ok cfg s H D" and i: "i < num_images s" "islots s ! i = Some a"
  obtains st where "heap s a = Some st"
  using store_ok_alloc [OF ok, of a] images_of_iff [OF store_ok_wf [OF ok], of a] i by blast

lemma vanish_keeps:
  assumes ok: "store_ok cfg s H D"
  shows "\<exists>s' r. vanish_section i k readable s = Some (s', r) \<and> store_ok cfg s' H (D + grabbed r)"
proof (cases "readable \<or> i \<ge> num_images s \<or> islots s ! i = None")
  case False
  then obtain a where a: "i < num_images s" "islots s ! i = Some a" by auto
  obtain st where st: "heap s a = Some st" using slot_alloc [OF ok a] .
  show ?thesis using trim_keeps [OF clear_keeps(1) [OF ok a st]] ok False a st
    by (auto simp: vanish_section_def Let_def split: if_splits)
qed (use ok in \<open>auto simp: vanish_section_def\<close>)

lemma free_loop_keeps:
  assumes "store_ok cfg s H D" "i \<le> num_images s"
  shows "\<exists>s' ks. free_loop i s = Some (s', ks) \<and> store_ok cfg s' (H + mset ks) D"
  using assms
proof (induction i arbitrary: s H)
  case (Suc i)
  note ok = Suc(2)
  have skip: ?case if "free_loop (Suc i) s = free_loop i (trim_slot i s)"
    using Suc(1) [OF trim_keeps [OF ok, of i]] trim_slot_law(4) [OF store_ok_wf [OF ok], of i] Suc(3) that by simp
  show ?case
  proof (cases "islots s ! i")
    case (Some a)
    obtain st where st: "heap s a = Some st" using slot_alloc [OF ok _ Some] Suc(3) by auto
    show ?thesis
    proof (cases "users (img st) = 0")
      case True
      define s0 where "s0 = s\<lparr>islots := (islots s)[i := None]\<rparr>"
      have c: "store_ok cfg s0 H (add_mset a D)" "add_mset a D - {#a#} = D"
        using clear_keeps [OF ok _ Some st] Suc(3) True by (auto simp: s0_def)
      then obtain s1 kept where f: "image_free a s0 = Some (s1, kept)" "store_ok cfg s1 (H + holders a kept) D"
        using free_keeps [OF c(1), of a] by auto
      have n: "num_images s1 = num_images s"
        using f(1) by (auto simp: image_free_def s0_def split: option.splits if_splits prod.splits)
      obtain s2 ks where "free_loop i (trim_slot i s1) = Some (s2, ks)" "store_ok cfg s2 (H + holders a kept + mset ks) D"
        using Suc(1) [OF trim_keeps [OF f(2), of i]] trim_slot_law(4) [OF store_ok_wf [OF f(2)], of i] Suc(3) n by auto
      then show ?thesis using Some st True f(1) by (auto simp: s0_def [symmetric] holders_def split: if_splits)
    qed (use skip Some st in simp)
  qed (use skip in simp)
qed simp

lemma kill_loop_keeps:
  assumes "store_ok cfg s H D" "set as \<subseteq> images_of s"
  shows "\<exists>s' ks. kill_loop as s = Some (s', ks) \<and> store_ok cfg s' (H + mset ks) D"
  using assms
proof (induction as arbitrary: s H)
  case (Cons a as)
  obtain st where st: "heap s a = Some st" using store_ok_alloc [OF Cons(2), of a] Cons(3) by auto
  have "a \<notin># D" using store_ok_cell [OF Cons(2), of a] Cons(3) st by (auto simp: not_in_iff)
  then obtain s1 kept where s1: "stop_uplink a s = Some (s1, kept)" "store_ok cfg s1 (H + holders a kept) D"
    using stop_keeps [OF Cons(2) st] by blast
  have "images_of s1 = images_of s" using s1(1) by (auto simp: stop_uplink_def split: option.splits)
  then obtain s2 ks where "kill_loop as s1 = Some (s2, ks)" "store_ok cfg s2 (H + holders a kept + mset ks) D"
    using Cons(1) [OF s1(2)] Cons(3) by auto
  then show ?case using s1(1) by (auto simp: holders_def split: if_splits)
qed simp

lemma close_loop_keeps:
  assumes "store_ok cfg s H D" "set as \<subseteq> images_of s"
  shows "\<exists>s' fds. close_loop t as n s = Some (s', fds) \<and> store_ok cfg s' H D"
  using assms
proof (induction as arbitrary: s n)
  case (Cons a as)
  obtain st where st: "heap s a = Some st" using store_ok_alloc [OF Cons(2), of a] Cons(3) by auto
  define s1 where "s1 = put a (Some (st\<lparr>img := (img st)\<lparr>readFd := -1\<rparr>\<rparr>)) s"
  have s1: "store_ok cfg s1 H D" "images_of s1 = images_of s"
    unfolding s1_def by (rule store_ok_update [OF Cons(2), where a = a])
      (use store_ok_cell [OF Cons(2), of a] store_ok_wf [OF Cons(2)] st in auto)
  show ?case using Cons(1) [OF s1(1), of "n + 1"] Cons(1) [OF Cons(2), of n] Cons(3) s1
    by (auto simp: st s1_def [symmetric])
qed simp

section \<open>The server\<close>

text \<open>
  The steps of all threads, one section under the lock each. The uplink of an image can end at any time; its thread takes
  only the lock of the image then, so these steps are told apart from the others.
\<close>

type_synonym holding = "image_store \<times> nat multiset \<times> nat multiset"

datatype ievent = Section | Ends nat

inductive istep :: "config \<Rightarrow> ievent \<Rightarrow> holding \<Rightarrow> holding \<Rightarrow> bool" for cfg where
  by_name: "image_find nm r s = Some (x, s') \<Longrightarrow> istep cfg Section (s, H, D) (s', H + grabbed x, D)"
| by_id: "image_byId k s = Some (x, s') \<Longrightarrow> istep cfg Section (s, H, D) (s', H + grabbed x, D)"
| locks: "image_lock a s = Some (x, s') \<Longrightarrow> istep cfg Section (s, H, D) (s', H + holders a x, D)"
| picks: "pick_oldest fu s = Some (x, s') \<Longrightarrow> istep cfg Section (s, H, D) (s', H + grabbed x, D)"
| releases: "a \<in># H \<Longrightarrow> release_section a s = Some (s', must)
    \<Longrightarrow> istep cfg Section (s, H, D) (s', H - {#a#}, if must then add_mset a D else D)"
| removes: "remove_section a s = Some (s', must) \<Longrightarrow> istep cfg Section (s, H, D) (s', H, if must then add_mset a D else D)"
| vanishes: "vanish_section i k readable s = Some (s', r) \<Longrightarrow> istep cfg Section (s, H, D) (s', H, D + grabbed r)"
| frees: "a \<in># D \<Longrightarrow> image_free a s = Some (s', kept) \<Longrightarrow> istep cfg Section (s, H, D) (s', H + holders a kept, D - {#a#})"
| loads: "heap s a = None \<Longrightarrow> users (img st) = 0 \<Longrightarrow> istep cfg Section (s, H, D) (put a (Some st) s, H, add_mset a D)"
| clones: "heap s a = None \<Longrightarrow> users (img st) = 1 \<Longrightarrow> istep cfg Section (s, H, D) (put a (Some st) s, add_mset a H, D)"
| enlists_held: "a \<in># H \<Longrightarrow> a \<notin> set (listed s) \<Longrightarrow> image_addToList cfg a s = Some (ok, s') \<Longrightarrow> istep cfg Section (s, H, D) (s', H, D)"
| gives_up: "heap s a = Some st \<Longrightarrow> users (img st) = 1 \<Longrightarrow> a \<in># H \<Longrightarrow> a \<notin> set (listed s)
    \<Longrightarrow> istep cfg Section (s, H, D) (put a (Some (st\<lparr>img := (img st)\<lparr>users := 0\<rparr>\<rparr>)) s, H - {#a#}, add_mset a D)"
| enlists: "a \<in># D \<Longrightarrow> image_addToList cfg a s = Some (ok, s') \<Longrightarrow> istep cfg Section (s, H, D) (s', H, if ok then D - {#a#} else D)"
| frees_all: "image_tryFreeAll s = Some (r, s', ks) \<Longrightarrow> istep cfg Section (s, H, D) (s', H + mset ks, D)"
| kills: "image_killUplinks s = Some (s', ks) \<Longrightarrow> istep cfg Section (s, H, D) (s', H + mset ks, D)"
| closes: "closeUnusedFds cfg t s = Some (s', fds) \<Longrightarrow> istep cfg Section (s, H, D) (s', H, D)"
| stops: "heap s a = Some st \<Longrightarrow> stop_uplink a s = Some (s', kept) \<Longrightarrow> istep cfg (Ends a) (s, H, D) (s', H + holders a kept, D)"
| works: "heap s a = Some st \<Longrightarrow> users (img st') = users (img st) \<Longrightarrow> istep cfg Section (s, H, D) (put a (Some st') s, H, D)"

text \<open>
  A calm step: the uplink that ends is not that of an image some thread has decided to free and not freed yet, or is still
  loading.
\<close>

definition calm :: "config \<Rightarrow> holding \<Rightarrow> holding \<Rightarrow> bool" where
  "calm cfg x y \<longleftrightarrow> (\<exists>ev. istep cfg ev x y \<and> (\<forall>a. ev = Ends a \<longrightarrow> a \<notin># snd (snd x)))"

lemma calm_Section: "istep cfg Section x y \<Longrightarrow> calm cfg x y"
  by (auto simp: calm_def)

lemmas calm_by_name = calm_Section [OF istep.by_name]
lemmas calm_releases = calm_Section [OF istep.releases]
lemmas calm_removes = calm_Section [OF istep.removes]
lemmas calm_frees = calm_Section [OF istep.frees]
lemmas calm_loads = calm_Section [OF istep.loads]
lemmas calm_clones = calm_Section [OF istep.clones]
lemmas calm_enlists_held = calm_Section [OF istep.enlists_held]
lemmas calm_gives_up = calm_Section [OF istep.gives_up]
lemmas calm_enlists = calm_Section [OF istep.enlists]
lemmas calm_works = calm_Section [OF istep.works]

lemma loads_keeps:
  assumes ok: "store_ok cfg s H D" and a: "heap s a = None" "users (img st) = 0"
  shows "store_ok cfg (put a (Some st) s) H (add_mset a D)"
  by (rule store_ok_update [OF ok, where a = a])
    (use store_ok_cell [OF ok, of a] store_ok_wf [OF ok] a in auto)

lemma enlists_keeps:
  assumes ok: "store_ok cfg s H D" and a: "a \<in># D" and r: "image_addToList cfg a s = Some (b, s')"
  shows "store_ok cfg s' H (if b then D - {#a#} else D)"
proof -
  obtain st where st: "heap s a = Some st" using store_ok_alloc [OF ok] a by blast
  have c: "a \<notin> images_of s" "users (img st) = 0" "count H a = 0" "count D a = 1"
    using store_ok_cell [OF ok, of a] st a by (auto simp flip: count_greater_zero_iff)
  obtain k where l: "images_wf cfg s'" "images_of s' = (if b then insert a (images_of s) else images_of s)"
      "heap s' = (heap s)(a \<mapsto> st\<lparr>img := (img st)\<lparr>img_id := k\<rparr>\<rparr>)"
    using image_addToList_law [OF store_ok_wf [OF ok] c(1) st r] by blast
  show ?thesis
    by (rule store_ok_update [OF ok l(1), where a = a]; cases b) (use c a in \<open>simp_all add: l(2,3)\<close>)
qed

lemma clones_keeps:
  assumes ok: "store_ok cfg s H D" and a: "heap s a = None" "users (img st) = 1"
  shows "store_ok cfg (put a (Some st) s) (add_mset a H) D"
  by (rule store_ok_update [OF ok, where a = a])
    (use store_ok_cell [OF ok, of a] store_ok_wf [OF ok] a in auto)

lemma enlists_held_keeps:
  assumes ok: "store_ok cfg s H D" and a: "a \<in># H" "a \<notin> set (listed s)" and r: "image_addToList cfg a s = Some (b, s')"
  shows "store_ok cfg s' H D"
proof -
  obtain st where st: "heap s a = Some st" using store_ok_alloc [OF ok] a(1) by blast
  have c: "a \<notin> images_of s" "users (img st) = int (count H a)" "count D a = 0"
    using store_ok_cell [OF ok, of a] st a by (auto simp: images_of_def simp flip: count_greater_zero_iff)
  obtain k where l: "images_wf cfg s'" "images_of s' = (if b then insert a (images_of s) else images_of s)"
      "heap s' = (heap s)(a \<mapsto> st\<lparr>img := (img st)\<lparr>img_id := k\<rparr>\<rparr>)"
    using image_addToList_law [OF store_ok_wf [OF ok] c(1) st r] by blast
  show ?thesis
    by (rule store_ok_update [OF ok l(1), where a = a]; cases b) (use c a in \<open>simp_all add: l(2,3)\<close>)
qed

lemma gives_up_keeps:
  assumes ok: "store_ok cfg s H D" and a: "heap s a = Some st" "users (img st) = 1" "a \<notin> set (listed s)"
  shows "store_ok cfg (put a (Some (st\<lparr>img := (img st)\<lparr>users := 0\<rparr>\<rparr>)) s) (H - {#a#}) (add_mset a D)"
  by (rule store_ok_update [OF ok, where a = a])
    (use store_ok_cell [OF ok, of a] store_ok_wf [OF ok] a in \<open>auto simp: images_of_def split: if_splits\<close>)

lemma works_keeps:
  assumes ok: "store_ok cfg s H D" and a: "heap s a = Some st" "users (img st') = users (img st)"
  shows "store_ok cfg (put a (Some st') s) H D"
  by (rule store_ok_update [OF ok, where a = a])
    (use store_ok_cell [OF ok, of a] store_ok_wf [OF ok] a in auto)

lemma tryFreeAll_keeps:
  assumes "store_ok cfg s H D"
  shows "\<exists>r s' ks. image_tryFreeAll s = Some (r, s', ks) \<and> store_ok cfg s' (H + mset ks) D"
  using free_loop_keeps [OF assms order_refl] by (auto simp: image_tryFreeAll_def)

lemma killUplinks_keeps:
  "store_ok cfg s H D \<Longrightarrow> \<exists>s' ks. image_killUplinks s = Some (s', ks) \<and> store_ok cfg s' (H + mset ks) D"
  by (simp add: image_killUplinks_def kill_loop_keeps images_of_def)

lemma closeUnusedFds_keeps:
  "store_ok cfg s H D \<Longrightarrow> \<exists>s' fds. closeUnusedFds c t s = Some (s', fds) \<and> store_ok cfg s' H D"
  using close_loop_keeps [of cfg s H D "listed s" t 0] by (auto simp: closeUnusedFds_def images_of_def)

lemma calm_keeps:
  assumes step: "calm cfg (s, H, D) (s', H', D')" and ok: "store_ok cfg s H D"
  shows "store_ok cfg s' H' D'"
proof -
  obtain ev where ev: "istep cfg ev (s, H, D) (s', H', D')" "\<And>a. ev = Ends a \<Longrightarrow> a \<notin># D" using step by (auto simp: calm_def)
  from ev(1) show ?thesis
  proof cases
    case (by_name nm r x) then show ?thesis using find_keeps [OF ok, of nm r] by auto
  next
    case (by_id k x) then show ?thesis using byId_keeps [OF ok, of k] by auto
  next
    case (locks a x) then show ?thesis using lock_keeps [OF ok, of a] by auto
  next
    case (picks fu x) then show ?thesis using pick_keeps [OF ok, of fu] by auto
  next
    case (releases a must) then show ?thesis using release_keeps [OF ok, of a] by auto
  next
    case (removes a must) then show ?thesis using remove_keeps [OF ok, of a] by auto
  next
    case (vanishes i k readable r) then show ?thesis using vanish_keeps [OF ok, of i k readable] by auto
  next
    case (frees a kept) then show ?thesis using free_keeps [OF ok, of a] by auto
  next
    case (loads a st) then show ?thesis using loads_keeps [OF ok] by auto
  next
    case (clones a st) then show ?thesis using clones_keeps [OF ok] by auto
  next
    case (enlists_held a ok) then show ?thesis using enlists_held_keeps [OF ok] by auto
  next
    case (gives_up a st) then show ?thesis using gives_up_keeps [OF ok] by auto
  next
    case (enlists a ok) then show ?thesis using enlists_keeps [OF ok] by auto
  next
    case (frees_all r ks) then show ?thesis using tryFreeAll_keeps [OF ok] by auto
  next
    case (kills ks) then show ?thesis using killUplinks_keeps [OF ok] by auto
  next
    case (closes t fds) then show ?thesis using closeUnusedFds_keeps [OF ok, of cfg t] by auto
  next
    case (stops a st kept) then show ?thesis using stop_keeps [OF ok, of a st] ev(2) by auto
  next
    case (works a st st') then show ?thesis using works_keeps [OF ok] by auto
  qed
qed

definition no_images :: image_store where
  "no_images = \<lparr>heap = \<lambda>_. None, islots = replicate SERVER_MAX_IMAGES None, num_images = 0, imgIdCounter = 0\<rparr>"

lemma no_images_ok: "maxImages cfg \<le> int SERVER_MAX_IMAGES \<Longrightarrow> store_ok cfg no_images {#} {#}"
  by (simp add: store_ok_def no_images_def images_wf_def images_of_def listed_def)

lemma calms_keep:
  assumes "(calm cfg)\<^sup>*\<^sup>* (s, H, D) (s', H', D')" "store_ok cfg s H D"
  shows "store_ok cfg s' H' D'"
proof -
  have "(calm cfg)\<^sup>*\<^sup>* x y \<Longrightarrow> case x of (s, H, D) \<Rightarrow> store_ok cfg s H D \<Longrightarrow> case y of (s, H, D) \<Rightarrow> store_ok cfg s H D" for x y
    by (induction rule: rtranclp_induct) (auto dest: calm_keeps)
  from this [OF assms(1)] show ?thesis using assms(2) by simp
qed

lemma reachable_ok:
  assumes "(calm cfg)\<^sup>*\<^sup>* (no_images, {#}, {#}) (s, H, D)" "maxImages cfg \<le> int SERVER_MAX_IMAGES"
  shows "store_ok cfg s H D"
  by (rule calms_keep [OF assms(1) no_images_ok [OF assms(2)]])

lemma section_then_free:
  assumes "store_ok cfg s H D" "f = Some (s1, must)" "store_ok cfg s1 H' (if must then add_mset a D else D)"
  shows "(case f of None \<Rightarrow> None | Some (s1, must) \<Rightarrow> if must then image_free a s1 else Some (s1, False)) \<noteq> None"
  using assms(2,3) free_keeps [of cfg s1 H' "add_mset a D" a] by (auto split: if_splits)

lemma image_release_ok:
  assumes ok: "store_ok cfg s H D" and a: "a \<in># H"
  shows "image_release a s \<noteq> None"
  using release_keeps [OF ok a] section_then_free [OF ok] unfolding image_release_def by blast

lemma image_remove_ok: "store_ok cfg s H D \<Longrightarrow> image_remove a s \<noteq> None"
  using remove_keeps [of cfg s H D a] section_then_free [of cfg s H D] unfolding image_remove_def by blast

lemma vanish_slot_ok: "store_ok cfg s H D \<Longrightarrow> vanish_slot i k readable s \<noteq> None"
  using vanish_keeps [of cfg s H D i k readable] free_keeps
  by (fastforce simp: vanish_slot_def split: option.splits)

text \<open>
  C27: The memory of an image is allocated exactly while the image is in the list, or held, or in the hands of the one
  thread that loads or frees it, and its count of users is the number of holders. So looking up, holding, releasing,
  removing, freeing and closing images by those who may do so never meets freed memory and fails no assertion on the count
  of users. This holds for every order of the sections all threads run under the lock of the list, from the start of the
  server, as long as no uplink ends by itself between the decision to free its image and the freeing: the source does not
  rule that out, and C32 shows the assertion that fails then. The second exception of the source, a thread that uses the
  image it has just put in the list without holding it, is \<^verbatim>\<open>published_image_unprotected\<close> in \<^verbatim>\<open>ImageLoadProof\<close>.
\<close>

theorem image_memory_matches_holders:
  assumes "(calm cfg)\<^sup>*\<^sup>* (no_images, {#}, {#}) (s, H, D)" "maxImages cfg \<le> int SERVER_MAX_IMAGES"
  shows "(heap s a \<noteq> None \<longleftrightarrow> a \<in> set (listed s) \<or> a \<in># H \<or> a \<in># D)
    \<and> count D a \<le> 1 \<and> (a \<in># D \<longrightarrow> a \<notin> set (listed s) \<and> a \<notin># H)
    \<and> (\<forall>st. heap s a = Some st \<longrightarrow> users (img st) = int (count H a))
    \<and> image_find nm r s \<noteq> None \<and> image_byId k s \<noteq> None \<and> image_lock a s \<noteq> None \<and> pick_oldest fu s \<noteq> None
    \<and> (a \<in># H \<longrightarrow> image_release a s \<noteq> None) \<and> image_remove a s \<noteq> None \<and> vanish_slot i k readable s \<noteq> None
    \<and> (a \<in># D \<longrightarrow> image_free a s \<noteq> None \<and> image_addToList cfg a s \<noteq> None)
    \<and> image_tryFreeAll s \<noteq> None \<and> image_killUplinks s \<noteq> None \<and> closeUnusedFds cfg t s \<noteq> None"
proof -
  have ok: "store_ok cfg s H D" by (rule reachable_ok [OF assms])
  note c = store_ok_cell [OF ok, of a]
  have "heap s a \<noteq> None \<longleftrightarrow> a \<in> set (listed s) \<or> a \<in># H \<or> a \<in># D"
    using c by (cases "heap s a") (auto simp: images_of_def not_in_iff split: if_splits)
  moreover have "users (img st) = int (count H a)" if "heap s a = Some st" for st using c that by simp
  moreover have "count D a \<le> 1" "a \<in># D \<longrightarrow> a \<notin> set (listed s) \<and> a \<notin># H"
    using c by (cases "heap s a"; auto simp: images_of_def simp flip: count_greater_zero_iff)+
  moreover have "image_addToList cfg a s \<noteq> None" if "a \<in># D"
    using c that by (cases "heap s a") (auto simp: image_addToList_def Let_def split: option.splits simp flip: count_greater_zero_iff)
  ultimately show ?thesis
    using find_keeps [OF ok, of nm r] byId_keeps [OF ok, of k] lock_keeps [OF ok, of a] pick_keeps [OF ok, of fu]
      image_release_ok [OF ok] image_remove_ok [OF ok, of a] vanish_slot_ok [OF ok, of i k readable] free_keeps [OF ok, of a]
      tryFreeAll_keeps [OF ok] killUplinks_keeps [OF ok] closeUnusedFds_keeps [OF ok, of cfg t]
    by blast
qed

text \<open>An image is loaded, put in the list and requested by a client.\<close>

definition one_image :: image_store where
  "one_image = \<lparr>heap = [7 \<mapsto> sample_uplink\<lparr>img := sample_image\<lparr>users := 1\<rparr>\<rparr>],
     islots = Some 7 # replicate 4999 None, num_images = 1, imgIdCounter = 1\<rparr>"

lemma one_image_reachable: "(calm net_config)\<^sup>*\<^sup>* (no_images, {#}, {#}) (one_image, {#7#}, {#})"
proof -
  let ?s1 = "put 7 (Some sample_uplink) no_images"
  let ?s2 = "one_image\<lparr>heap := [7 \<mapsto> sample_uplink]\<rparr>"
  have id: "img_id sample_image = 1" by (simp add: sample_image_def)
  have r: "replicate SERVER_MAX_IMAGES None = None # replicate 4999 (None :: nat option)"
    by (simp add: SERVER_MAX_IMAGES_def flip: replicate_Suc)
  have "calm net_config (no_images, {#}, {#}) (?s1, {#}, add_mset 7 {#})"
    by (rule calm_loads) (simp_all add: no_images_def sample_uplink_def sample_image_def)
  moreover have "image_addToList net_config 7 ?s1 = Some (True, ?s2)"
    by (simp add: image_addToList_def no_images_def put_def one_image_def net_config_def sample_uplink_def sample_image_def r)
  then have "calm net_config (?s1, {#}, add_mset 7 {#}) (?s2, {#}, if True then add_mset 7 {#} - {#7#} else add_mset 7 {#})"
    by (intro calm_enlists) simp_all
  moreover have "image_find ''a'' 0 ?s2 = Some (Some 7, one_image)"
    by (simp add: image_find_def listed_def one_image_def hold_def put_def add_users_def sample_uplink_def sample_image_def)
  then have "calm net_config (?s2, {#}, {#}) (one_image, {#} + grabbed (Some 7), {#})"
    by (rule calm_by_name)
  ultimately show ?thesis by (simp add: converse_rtranclp_into_rtranclp)
qed

theorem image_memory_matches_holders_witness:
  "image_release 7 one_image \<noteq> None \<and> image_remove 7 one_image \<noteq> None \<and> image_tryFreeAll one_image \<noteq> None"
  using image_memory_matches_holders [OF one_image_reachable, of 7 _ 0] by (simp add: net_config_def SERVER_MAX_IMAGES_def)

section \<open>The image a client asked for\<close>

definition matches :: "string \<Rightarrow> (nat \<Rightarrow> uplink_state option) \<Rightarrow> nat \<Rightarrow> u16 \<Rightarrow> bool" where
  "matches nm h a x = (case h a of None \<Rightarrow> False | Some st \<Rightarrow> name (img st) = nm \<and> rid (img st) = x)"

lemma search_exact:
  assumes "search nm r h as best = Some res" "r \<noteq> 0"
  shows "(\<exists>a \<in> set as. matches nm h a r \<and> res = Some (a, r)) \<or> res = best \<and> (\<forall>a \<in> set as. \<not> matches nm h a r)"
  using assms by (induction as) (auto simp: matches_def split: option.splits if_splits)

lemma search_newest:
  assumes "search nm 0 h as best = Some res" "\<And>a. a \<in> set as \<Longrightarrow> \<not> matches nm h a 0"
  shows "(case res of None \<Rightarrow> best = None \<and> (\<forall>a \<in> set as. \<forall>x. \<not> matches nm h a x)
    | Some (a, x) \<Rightarrow> (best = res \<or> a \<in> set as \<and> matches nm h a x) \<and> (\<forall>b \<in> set as. \<forall>y. matches nm h b y \<longrightarrow> y \<le> x)
        \<and> (\<forall>b y. best = Some (b, y) \<longrightarrow> y \<le> x))"
  using assms
proof (induction as arbitrary: best)
  case (Cons a as)
  obtain st where st: "h a = Some st" using Cons(2) by (auto split: option.splits)
  have m: "matches nm h a x \<longleftrightarrow> name (img st) = nm \<and> rid (img st) = x" for x by (simp add: matches_def st)
  have nz: "name (img st) = nm \<Longrightarrow> rid (img st) \<noteq> 0" using Cons(3) [of a] m by auto
  consider (other) "name (img st) \<noteq> nm" "search nm 0 h as best = Some res"
    | (newer) "name (img st) = nm" "case best of None \<Rightarrow> True | Some (_, r) \<Rightarrow> r < rid (img st)"
        "search nm 0 h as (Some (a, rid (img st))) = Some res"
    | (older) b y where "name (img st) = nm" "best = Some (b, y)" "rid (img st) \<le> y" "search nm 0 h as best = Some res"
    using Cons(2) nz st by (auto split: if_splits option.splits)
  then show ?case
  proof cases
    case other
    then show ?thesis using Cons(1) [OF other(2)] Cons(3) m by (auto split: option.splits)
  next
    case newer
    then show ?thesis using Cons(1) [OF newer(3)] Cons(3) m by (fastforce split: option.splits)
  next
    case older
    then show ?thesis using Cons(1) [OF older(4)] Cons(3) m by (fastforce split: option.splits)
  qed
qed (auto split: option.splits)

text \<open>
  C31: \<^verbatim>\<open>image_get\<close> finds the image a client asked for: the one with the requested revision or, when none was requested,
  one with the highest revision of all loaded images of that name. It reports nothing only if there is no such image or
  the name begins or ends with a slash. The image it returns has one more user.
\<close>

theorem image_find_correct:
  assumes "image_find nm r s = Some (x, s')" "\<And>a. a \<in> set (listed s) \<Longrightarrow> \<not> matches nm (heap s) a 0"
    and "nm \<noteq> []" "last nm \<noteq> CHR ''/''" "hd nm \<noteq> CHR ''/''"
  shows "case x of
      None \<Rightarrow> s' = s \<and> (\<forall>a \<in> set (listed s). \<forall>y. matches nm (heap s) a y \<longrightarrow> r \<noteq> 0 \<and> y \<noteq> r)
    | Some a \<Rightarrow> a \<in> set (listed s) \<and> hold a s = Some s'
        \<and> (\<exists>y. matches nm (heap s) a y \<and> (if r = 0 then \<forall>b \<in> set (listed s). \<forall>z. matches nm (heap s) b z \<longrightarrow> z \<le> y else y = r))"
proof -
  obtain res where res: "search nm r (heap s) (listed s) None = Some res"
      "case res of None \<Rightarrow> x = None \<and> s' = s | Some (a, _) \<Rightarrow> x = Some a \<and> hold a s = Some s'"
    using assms by (auto simp: image_find_def split: option.splits prod.splits)
  show ?thesis
  proof (cases "r = 0")
    case True
    then show ?thesis using search_newest [of nm "heap s" "listed s" None res] res assms(2)
      by (fastforce split: option.splits prod.splits)
  next
    case False
    then show ?thesis using search_exact [OF res(1)] res(2) by (fastforce split: option.splits prod.splits)
  qed
qed

theorem image_find_correct_witness:
  "\<exists>s'. image_find ''a'' 0 one_image = Some (Some 7, s') \<and> hold 7 one_image = Some s'"
proof -
  have "listed one_image = [7]" by (simp add: listed_def one_image_def)
  moreover obtain s' where s': "image_find ''a'' 0 one_image = Some (Some 7, s')"
    by (simp add: image_find_def listed_def one_image_def hold_def sample_uplink_def sample_image_def)
  ultimately show ?thesis using image_find_correct [OF s']
    by (simp add: matches_def one_image_def sample_uplink_def sample_image_def)
qed

section \<open>A race\<close>

text \<open>
  C32: An assertion of \<^verbatim>\<open>image_free\<close> can fail. The last holder of an image that is no longer in the list releases it, and
  drops the lock of the list before it frees the image. The uplink of the image, whose thread takes only the lock of the
  image when it ends, can count itself as a user in between; then \<^verbatim>\<open>image_free\<close> finds a user.
\<close>

theorem release_races_with_ending_uplink:
  assumes "heap s a = Some (us t)" "users (img (us t)) = 1" "a \<notin> set (listed s)"
    and "uplinkref (img (us t)) = Some (me t)" "\<not> shutdown (ul (us t))"
  shows "\<exists>s1 st1. release_section a s = Some (s1, True) \<and> heap s1 a = Some st1
    \<and> image_free a s1 \<noteq> None
    \<and> image_free a (put a (Some (us (uplink_cleanup (t\<lparr>us := st1\<rparr>)))) s1) = None"
proof -
  have "users (img (us (uplink_cleanup (t\<lparr>us := add_users (-1) (us t)\<rparr>)))) = 1"
    using assms by (simp add: uplink_cleanup_def Let_def add_users_def)
  then show ?thesis
    using assms by (auto simp: release_section_def image_free_def add_users_def split: prod.splits)
qed

definition doomed_thread :: uplink_thread where
  "doomed_thread =
     \<lparr>us = sample_uplink\<lparr>img := sample_image\<lparr>users := 1, uplinkref := Some 0\<rparr>\<rparr>, alts = altservers_empty, me = 0,
      altCheckInterval = 5, discoverFailCount = 0, nextAltCheck = \<lparr>tv_sec = 0, tv_nsec = 0\<rparr>,
      lastKeepalive = \<lparr>tv_sec = 0, tv_nsec = 0\<rparr>, closed = [], checksQueued = 0, crcFile = None, unlinked = []\<rparr>"

definition doomed_store :: image_store where
  "doomed_store = \<lparr>heap = [7 \<mapsto> us doomed_thread], islots = replicate 5000 None, num_images = 0, imgIdCounter = 1\<rparr>"

lemma doomed_reachable: "(calm net_config)\<^sup>*\<^sup>* (no_images, {#}, {#}) (doomed_store, {#7#}, {#})"
proof -
  let ?s = "put 7 (Some (us doomed_thread)) one_image"
  have "calm net_config (one_image, {#7#}, {#}) (?s, {#7#}, {#})"
    by (rule calm_works) (auto simp: one_image_def doomed_thread_def)
  moreover have r: "replicate 5000 None = None # replicate 4999 (None :: nat option)"
    by (simp flip: replicate_Suc)
  have "remove_section 7 ?s = Some (doomed_store, False)"
    by (simp add: remove_section_def unlist_def one_image_def doomed_store_def put_def doomed_thread_def r)
  then have "calm net_config (?s, {#7#}, {#}) (doomed_store, {#7#}, if False then add_mset 7 {#} else {#})"
    by (rule calm_removes)
  ultimately show ?thesis using one_image_reachable by (simp add: rtranclp.rtrancl_into_rtrancl)
qed

theorem release_races_with_ending_uplink_witness:
  "(calm net_config)\<^sup>*\<^sup>* (no_images, {#}, {#}) (doomed_store, {#7#}, {#})
   \<and> (\<exists>s1 st1. release_section 7 doomed_store = Some (s1, True) \<and> heap s1 7 = Some st1
        \<and> image_free 7 (put 7 (Some (us (uplink_cleanup (doomed_thread\<lparr>us := st1\<rparr>)))) s1) = None)"
  using release_races_with_ending_uplink [of doomed_store 7 doomed_thread] doomed_reachable
  by (fastforce simp: doomed_store_def listed_def doomed_thread_def sample_uplink_def uplink_fresh_def)

end
