(* ===== verification/ImageOpen.thy ===== *)
theory ImageOpen
  imports ImageProof HashProof
begin

text \<open>
  Getting an image for use, from \<^verbatim>\<open>src/server/image.c\<close>: \<^verbatim>\<open>image_ensureOpen\<close> opens the file again when its descriptor
  was closed, and \<^verbatim>\<open>image_get\<close> looks an image up, opens it and, when that does not help, takes it out of the list or
  replaces it by a copy that will be opened afresh.
\<close>

section \<open>Opening the file\<close>

text \<open>
  The results of the system calls: \<open>oe_fd\<close> of \<^verbatim>\<open>open\<close> or \<^verbatim>\<open>dup\<close>, \<open>oe_flen\<close> of \<^verbatim>\<open>lseek\<close>, \<open>oe_pread\<close> whether the first bytes
  can be read; what the check of the first block reads; and the descriptor another thread has stored meanwhile, or -1.
\<close>

record open_env =
  oe_fd :: int
  oe_flen :: int
  oe_pread :: bool
  oe_pclmul :: bool
  oe_data :: "nat \<Rightarrow> byte"
  oe_rnds :: "nat stream"
  oe_reads :: "int list"
  oe_raced :: int

definition problem_read :: "bool \<Rightarrow> uplink_state \<Rightarrow> uplink_state" where
  "problem_read b st = st\<lparr>img := (img st)\<lparr>problem := (problem (img st))\<lparr>p_read := b\<rparr>\<rparr>\<rparr>"

definition problem_changed :: "bool \<Rightarrow> uplink_state \<Rightarrow> uplink_state" where
  "problem_changed b st = st\<lparr>img := (img st)\<lparr>problem := (problem (img st))\<lparr>p_changed := b\<rparr>\<rparr>\<rparr>"

definition set_readFd :: "int \<Rightarrow> uplink_state \<Rightarrow> uplink_state" where
  "set_readFd fd st = problem_read False (st\<lparr>img := (img st)\<lparr>readFd := fd\<rparr>\<rparr>)"

text \<open>
  Whether the file counts as changed, after its size was compared; \<open>None\<close> when the check of the checksums writes behind
  its array or \<open>oe_reads\<close> is too short.
\<close>

definition still_changed :: "open_env \<Rightarrow> bool \<Rightarrow> dnbd3_image_t \<Rightarrow> bool option" where
  "still_changed e sizeChanged i =
     (if p_changed (problem i) \<and> \<not> sizeChanged
      then if dnbd3_image_t.crc32 i = None then Some False
           else map_option (\<lambda>r. r \<noteq> Inr True) (image_checkRandomBlocks (oe_pclmul e) (oe_data e) False 1 (oe_rnds e) (oe_reads e) i)
      else Some sizeChanged)"

text \<open>The result, the image afterwards and the descriptors that were closed.\<close>

definition image_ensureOpen :: "open_env \<Rightarrow> uplink_state \<Rightarrow> (bool \<times> uplink_state \<times> int list) option" where
  "image_ensureOpen e st =
     (if readFd (img st) \<noteq> -1 \<and> \<not> p_changed (problem (img st)) then Some (True, st, [])
      else if oe_fd e = -1 then Some (False, problem_read True st, [])
      else if oe_flen e = -1 then Some (False, problem_read True st, [oe_fd e])
      else
        let sizeChanged = ((word_of_int (oe_flen e) :: u64) \<noteq> realFilesize (img st))
        in if \<not> sizeChanged \<and> \<not> oe_pread e then Some (False, problem_read True st, [oe_fd e])
           else case still_changed e sizeChanged (img st) of
             None \<Rightarrow> None
           | Some c \<Rightarrow>
               let st1 = problem_changed c st;
                   st2 = (if readFd (img st1) = -1 \<and> oe_raced e \<noteq> -1 then set_readFd (oe_raced e) st1 else st1)
               in if readFd (img st2) = -1 then Some (True, set_readFd (oe_fd e) st2, []) else Some (True, st2, [oe_fd e]))"

section \<open>Getting an image\<close>

text \<open>
  The environment of \<^verbatim>\<open>image_get\<close>: both calls of \<^verbatim>\<open>image_ensureOpen\<close>, whether the file is readable, the time, the address
  \<^verbatim>\<open>calloc\<close> returns and what \<^verbatim>\<open>uplink_init\<close> finds.
\<close>

record get_env =
  ge_open :: open_env
  ge_readable :: bool
  ge_now :: ticks
  ge_new :: nat
  ge_up :: uplink_env
  ge_again :: open_env

text \<open>
  The copy of an image whose file is to be opened afresh. It refers to the same cache map and to the same file.
\<close>

definition fresh_copy :: "ticks \<Rightarrow> uplink_state \<Rightarrow> uplink_state" where
  "fresh_copy now st =
     (let i = img st in
      \<lparr>ul = uplink_fresh,
       img = \<lparr>path = path i, name = name i, uplinkref = None, ref_cacheMap = ref_cacheMap i, virtualFilesize = virtualFilesize i,
         realFilesize = realFilesize i, atime = now, nextCompletenessEstimate = \<lparr>tv_sec = 0, tv_nsec = 0\<rparr>,
         crc32 = dnbd3_image_t.crc32 i, masterCrc32 = masterCrc32 i, readFd = -1, completenessEstimate = 0, users = 1, img_id = 0,
         problem = \<lparr>p_read = True, p_write = False, p_changed = p_changed (problem i), p_uplink = False, p_queue = False\<rparr>,
         rid = rid i, accessed = False\<rparr>,
       disk = disk st, totalBytesReceived = totalBytesReceived st, calls = [], sends = [], checks = []\<rparr>)"

text \<open>The image at an address changed by a function that may fail.\<close>

definition change :: "nat \<Rightarrow> (uplink_state \<Rightarrow> (bool \<times> uplink_state \<times> int list) option) \<Rightarrow> image_store
    \<Rightarrow> (bool \<times> image_store \<times> int list) option" where
  "change a f s =
     (case heap s a of
        None \<Rightarrow> None
      | Some st \<Rightarrow> map_option (\<lambda>(ok, st1, fds). (ok, put a (Some st1) s, fds)) (f st))"

text \<open>
  The image is replaced by a copy. The result is the image to return, the store, the images their uplinks still hold and
  the closed descriptors.
\<close>

definition replace_image :: "config \<Rightarrow> get_env \<Rightarrow> nat \<Rightarrow> image_store \<Rightarrow> (nat option \<times> image_store \<times> nat list \<times> int list) option" where
  "replace_image cfg e a s =
     (case remove_section a s of
        None \<Rightarrow> None
      | Some (_, True) \<Rightarrow> None
      | Some (s1, False) \<Rightarrow>
          (case heap s1 a of
             None \<Rightarrow> None
           | Some st \<Rightarrow>
               let b = ge_new e; s2 = put b (Some (fresh_copy (ge_now e) st)) s1
               in case image_addToList cfg b s2 of
                    None \<Rightarrow> None
                  | Some (True, s3) \<Rightarrow>
                      (case image_release a s3 of
                         None \<Rightarrow> None
                       | Some (s4, kept) \<Rightarrow>
                           (case change b (\<lambda>c. image_ensureOpen (ge_again e)
                                    (if ref_cacheMap (img c) \<noteq> None then ensure_uplink cfg (ge_up e) c else c)) s4 of
                              None \<Rightarrow> None
                            | Some (_, s5, fds) \<Rightarrow> Some (Some b, s5, if kept then [a] else [], fds)))
                  | Some (False, s3) \<Rightarrow>
                      (case heap s3 b of
                         None \<Rightarrow> None
                       | Some c \<Rightarrow>
                           map_option (\<lambda>(s4, kept). (Some a, s4, if kept then [b] else [], []))
                             (image_free b (put b (Some (c\<lparr>img := (img c)\<lparr>users := 0\<rparr>\<rparr>)) s3)))))"

text \<open>What \<^verbatim>\<open>image_get\<close> does with an image it could not open, or that had a problem.\<close>

definition recover_image :: "config \<Rightarrow> get_env \<Rightarrow> nat \<Rightarrow> image_store \<Rightarrow> (nat option \<times> image_store \<times> nat list \<times> int list) option" where
  "recover_image cfg e a s =
     (case heap s a of
        None \<Rightarrow> None
      | Some st \<Rightarrow>
          if removeMissingImages cfg \<and> \<not> ge_readable e
          then case remove_section a s of
                 None \<Rightarrow> None
               | Some (s1, False) \<Rightarrow> Some (Some a, s1, [], [])
               | Some (s1, True) \<Rightarrow> map_option (\<lambda>(s2, kept). (None, s2, if kept then [a] else [], [])) (image_free a s1)
          else if readFd (img st) \<noteq> -1 then replace_image cfg e a s
          else Some (Some a, s, [], []))"

definition image_get :: "config \<Rightarrow> get_env \<Rightarrow> string \<Rightarrow> u16 \<Rightarrow> bool \<Rightarrow> image_store
    \<Rightarrow> (nat option \<times> image_store \<times> nat list \<times> int list) option" where
  "image_get cfg e nm revision ensureFdOpen s =
     (case image_find nm revision s of
        None \<Rightarrow> None
      | Some (None, s1) \<Rightarrow> Some (None, s1, [], [])
      | Some (Some a, s1) \<Rightarrow>
          if \<not> ensureFdOpen then Some (Some a, s1, [], [])
          else case change a (image_ensureOpen (ge_open e)) s1 of
            None \<Rightarrow> None
          | Some (ok, s2, fds) \<Rightarrow>
              if ok \<and> (case heap s2 a of None \<Rightarrow> False | Some st \<Rightarrow> \<not> p_read (problem (img st)))
              then Some (Some a, s2, [], fds)
              else map_option (\<lambda>(x, s3, ks, fds1). (x, s3, ks, fds @ fds1)) (recover_image cfg e a s2))"

section \<open>Getting an image is a sequence of steps\<close>

lemma problem_fields [simp]:
  "users (img (problem_read b st)) = users (img st)" "users (img (problem_changed b st)) = users (img st)"
  "users (img (set_readFd fd st)) = users (img st)" "readFd (img (set_readFd fd st)) = fd"
  "readFd (img (problem_changed b st)) = readFd (img st)"
  by (simp_all add: problem_read_def problem_changed_def set_readFd_def)

lemma ensureOpen_users:
  assumes "image_ensureOpen e st = Some (ok, st1, fds)"
  shows "users (img st1) = users (img st)"
  using assms by (auto simp: image_ensureOpen_def Let_def split: if_splits option.splits)

lemma ensure_uplink_users [simp]: "users (img (ensure_uplink cfg e st)) = users (img st)"
  by (auto simp: ensure_uplink_def uplink_init_def Let_def set_problem_queue_def set_problem_write_def set_problem_uplink_def
      split: prod.splits option.splits)

lemma change_works:
  assumes "change a f s = Some (ok, s', fds)" "\<And>st ok st1 fds. f st = Some (ok, st1, fds) \<Longrightarrow> users (img st1) = users (img st)"
  shows "calm cfg (s, H, D) (s', H, D)"
  using assms by (auto simp: change_def split: option.splits intro!: calm_works)

lemma held_not_private: "store_ok cfg s H D \<Longrightarrow> a \<in># H \<Longrightarrow> a \<notin># D"
  using store_ok_cell [of cfg s H D a] by (cases "heap s a") (auto split: if_splits simp flip: count_greater_zero_iff)

lemma release_steps:
  assumes ok: "store_ok cfg s H D" and a: "a \<in># H" and r: "image_release a s = Some (s', kept)"
  shows "(calm cfg)\<^sup>*\<^sup>* (s, H, D) (s', H - {#a#} + holders a kept, D)"
proof -
  obtain s1 must where s1: "release_section a s = Some (s1, must)" "if must then image_free a s1 = Some (s', kept) else s1 = s' \<and> \<not> kept"
    using r by (auto simp: image_release_def split: option.splits if_splits)
  have step: "calm cfg (s, H, D) (s1, H - {#a#}, if must then add_mset a D else D)" by (rule calm_releases [OF a s1(1)])
  show ?thesis
  proof (cases must)
    case True
    then have "calm cfg (s1, H - {#a#}, add_mset a D) (s', H - {#a#} + holders a kept, add_mset a D - {#a#})"
      using s1(2) by (intro calm_frees) auto
    then show ?thesis using step True held_not_private [OF ok a] by (simp add: converse_rtranclp_into_rtranclp)
  qed (use step s1(2) in \<open>auto simp: holders_def\<close>)
qed

lemma remove_section_heap: "remove_section a s = Some (s', must) \<Longrightarrow> heap s' = heap s"
  by (auto simp: remove_section_def unlist_def split: prod.splits option.splits if_splits)

lemma unallocated:
  assumes "store_ok cfg s H D" "heap s a = None"
  shows "a \<notin> set (listed s)" "count H a = 0" "a \<notin># D"
  using store_ok_cell [OF assms(1), of a] assms(2) by (auto simp: images_of_def not_in_iff)

lemma copy_is_steps:
  assumes ok: "store_ok cfg s H D" and b: "heap s b = None" "users (img c) = 1"
    and r: "image_addToList cfg b (put b (Some c) s) = Some (added, s3)"
  shows "(calm cfg)\<^sup>*\<^sup>* (s, H, D) (s3, add_mset b H, D)" "store_ok cfg s3 (add_mset b H) D" "\<not> added \<Longrightarrow> b \<notin> set (listed s3)"
proof -
  have 1: "calm cfg (s, H, D) (put b (Some c) s, add_mset b H, D)" by (rule calm_clones) (use b in auto)
  have 2: "calm cfg (put b (Some c) s, add_mset b H, D) (s3, add_mset b H, D)"
    by (rule calm_enlists_held [OF _ _ r]) (use unallocated [OF ok b(1)] in auto)
  show "(calm cfg)\<^sup>*\<^sup>* (s, H, D) (s3, add_mset b H, D)" using 1 2 by (simp add: converse_rtranclp_into_rtranclp)
  have ok1: "store_ok cfg (put b (Some c) s) (add_mset b H) D" by (rule calm_keeps [OF 1 ok])
  show "store_ok cfg s3 (add_mset b H) D" by (rule calm_keeps [OF 2 ok1])
  show "b \<notin> set (listed s3)" if "\<not> added"
    using image_addToList_law [OF store_ok_wf [OF ok1] _ _ r] unallocated [OF ok b(1)] that by (simp add: images_of_def)
qed

lemma replace_is_steps:
  assumes ok: "store_ok cfg s H D" and a: "a \<in># H" and b: "heap s (ge_new e) = None"
    and r: "replace_image cfg e a s = Some (x, s', ks, fds)"
  shows "(calm cfg)\<^sup>*\<^sup>* (s, H, D) (s', H - {#a#} + grabbed x + mset ks, D)"
proof -
  let ?b = "ge_new e"
  obtain s1 st added s3 where s1: "remove_section a s = Some (s1, False)" "heap s1 a = Some st"
      and s3: "image_addToList cfg ?b (put ?b (Some (fresh_copy (ge_now e) st)) s1) = Some (added, s3)"
    using r by (auto simp: replace_image_def Let_def split: option.splits prod.splits bool.splits)
  have rm: "calm cfg (s, H, D) (s1, H, if False then add_mset a D else D)" by (rule calm_removes [OF s1(1)])
  have ok1: "store_ok cfg s1 H D" using calm_keeps [OF rm ok] by simp
  have b1: "heap s1 ?b = None" using b remove_section_heap [OF s1(1)] by simp
  note c = copy_is_steps [OF ok1 b1 _ s3]
  have u: "users (img (fresh_copy (ge_now e) st)) = 1" by (simp add: fresh_copy_def Let_def)
  have to3: "(calm cfg)\<^sup>*\<^sup>* (s, H, D) (s3, add_mset ?b H, D)"
    using rm c(1) [OF u] by (simp add: converse_rtranclp_into_rtranclp)
  have "(calm cfg)\<^sup>*\<^sup>* (s3, add_mset ?b H, D) (s', H - {#a#} + grabbed x + mset ks, D)"
  proof (cases added)
    case True
    then obtain s4 kept ok5 where s4: "image_release a s3 = Some (s4, kept)" "x = Some ?b" "ks = (if kept then [a] else [])"
        and s5: "change ?b (\<lambda>c. image_ensureOpen (ge_again e)
           (if ref_cacheMap (img c) \<noteq> None then ensure_uplink cfg (ge_up e) c else c)) s4 = Some (ok5, s', fds)"
      using r s1 s3 by (auto simp: replace_image_def Let_def split: option.splits prod.splits)
    have "(calm cfg)\<^sup>*\<^sup>* (s3, add_mset ?b H, D) (s4, add_mset ?b H - {#a#} + holders a kept, D)"
      using a by (intro release_steps [OF c(2) [OF u] _ s4(1)]) simp
    moreover have "calm cfg (s4, add_mset ?b H - {#a#} + holders a kept, D) (s', add_mset ?b H - {#a#} + holders a kept, D)"
      by (rule change_works [OF s5]) (auto dest: ensureOpen_users split: if_splits)
    moreover have "add_mset ?b H - {#a#} + holders a kept = H - {#a#} + grabbed x + mset ks"
      using a s4 by (auto simp: holders_def)
    ultimately show ?thesis by (simp add: rtranclp.rtrancl_into_rtrancl)
  next
    case False
    then obtain d kept where d: "heap s3 ?b = Some d" "x = Some a" "ks = (if kept then [?b] else [])"
        "image_free ?b (put ?b (Some (d\<lparr>img := (img d)\<lparr>users := 0\<rparr>\<rparr>)) s3) = Some (s', kept)"
      using r s1 s3 by (auto simp: replace_image_def Let_def split: option.splits prod.splits)
    let ?s = "put ?b (Some (d\<lparr>img := (img d)\<lparr>users := 0\<rparr>\<rparr>)) s3"
    have "users (img d) = 1" using store_ok_cell [OF c(2) [OF u], of ?b] d(1) unallocated(2) [OF ok1 b1] by simp
    then have 1: "calm cfg (s3, add_mset ?b H, D) (?s, add_mset ?b H - {#?b#}, add_mset ?b D)"
      using d(1) c(3) [OF u False] by (intro calm_gives_up) auto
    have 2: "calm cfg (?s, H, add_mset ?b D) (s', H + holders ?b kept, add_mset ?b D - {#?b#})"
      by (rule calm_frees [OF _ d(4)]) simp
    have "H + holders ?b kept = H - {#a#} + grabbed x + mset ks" "add_mset ?b D - {#?b#} = D"
      using a d(2,3) unallocated(3) [OF ok1 b1] by (auto simp: holders_def)
    then show ?thesis using 1 2 by (simp add: converse_rtranclp_into_rtranclp)
  qed
  then show ?thesis using to3 by (rule rtranclp_trans [rotated])
qed

lemma recover_is_steps:
  assumes ok: "store_ok cfg s H D" and a: "a \<in># H" and b: "heap s (ge_new e) = None"
    and r: "recover_image cfg e a s = Some (x, s', ks, fds)"
  shows "(calm cfg)\<^sup>*\<^sup>* (s, H, D) (s', H - {#a#} + grabbed x + mset ks, D)"
proof -
  obtain st where st: "heap s a = Some st" "users (img st) = int (count H a)" using store_ok_alloc [OF ok] a by blast
  consider (gone) "removeMissingImages cfg \<and> \<not> ge_readable e" | (keep) "s' = s" "x = Some a" "ks = []"
    | (replace) "replace_image cfg e a s = Some (x, s', ks, fds)"
    using r st by (auto simp: recover_image_def split: if_splits)
  then show ?thesis
  proof cases
    case gone
    have "users (img st) \<noteq> 0" using st(2) a by (simp add: not_in_iff [symmetric])
    then have s1: "remove_section a s = Some (s', False)" "x = Some a" "ks = []"
      using gone r st(1) by (auto simp: recover_image_def remove_section_def split: option.splits prod.splits if_splits bool.splits)
    then show ?thesis using calm_removes [OF s1(1), of cfg H D] a by auto
  qed (use a replace_is_steps [OF ok a b] in auto)
qed

lemma find_fresh:
  assumes "image_find nm r s = Some (x, s1)" "heap s b = None"
  shows "heap s1 b = None"
  using assms by (auto simp: image_find_def hold_def split: option.splits if_splits)

lemma image_get_is_steps:
  assumes ok: "store_ok cfg s H D" and b: "heap s (ge_new e) = None"
    and r: "image_get cfg e nm r ensureFdOpen s = Some (x, s', ks, fds)"
  shows "(calm cfg)\<^sup>*\<^sup>* (s, H, D) (s', H + grabbed x + mset ks, D)"
proof -
  obtain y s1 where s1: "image_find nm r s = Some (y, s1)" using r by (auto simp: image_get_def split: option.splits)
  have find: "calm cfg (s, H, D) (s1, H + grabbed y, D)" by (rule calm_by_name [OF s1])
  show ?thesis
  proof (cases "\<exists>a. y = Some a \<and> ensureFdOpen")
    case True
    then obtain a where a: "y = Some a" ensureFdOpen by blast
    obtain good s2 fds1 where s2: "change a (image_ensureOpen (ge_open e)) s1 = Some (good, s2, fds1)"
      using r a s1 by (auto simp: image_get_def split: option.splits)
    have open2: "calm cfg (s1, H + grabbed y, D) (s2, add_mset a H, D)"
      using change_works [OF s2 ensureOpen_users] a(1) by simp
    have ok2: "store_ok cfg s2 (add_mset a H) D" by (rule calm_keeps [OF open2 calm_keeps [OF find ok]])
    have new: "heap s2 (ge_new e) = None" using s2 find_fresh [OF s1 b] by (auto simp: change_def split: option.splits)
    have to2: "(calm cfg)\<^sup>*\<^sup>* (s, H, D) (s2, add_mset a H, D)" using find open2 by (simp add: converse_rtranclp_into_rtranclp)
    consider "s' = s2" "x = Some a" "ks = []" | fds2 where "recover_image cfg e a s2 = Some (x, s', ks, fds2)"
      using r a s1 s2 by (auto simp: image_get_def split: if_splits)
    then show ?thesis
    proof cases
      case 2
      then have "(calm cfg)\<^sup>*\<^sup>* (s2, add_mset a H, D) (s', add_mset a H - {#a#} + grabbed x + mset ks, D)"
        by (intro recover_is_steps [OF ok2 _ new]) simp_all
      with to2 show ?thesis by simp
    qed (use to2 in simp)
  next
    case False
    then have "x = y" "s' = s1" "ks = []" using r s1 by (auto simp: image_get_def split: option.splits)
    then show ?thesis using find by auto
  qed
qed

text \<open>
  C28: \<^verbatim>\<open>image_get\<close> hands out images safely. Whatever it finds, a good descriptor, a file that is gone or one that must be
  opened afresh, and whether there is room for the copy or not, it is a sequence of the steps of the server: its caller
  holds the image it returns once more, an image it replaces is given back, and no image is leaked. The image returned
  is allocated.
\<close>

theorem image_get_is_safe:
  assumes "(calm cfg)\<^sup>*\<^sup>* (no_images, {#}, {#}) (s, H, D)" "maxImages cfg \<le> int SERVER_MAX_IMAGES"
    and "heap s (ge_new e) = None" "image_get cfg e nm r ensureFdOpen s = Some (x, s', ks, fds)"
  shows "(calm cfg)\<^sup>*\<^sup>* (no_images, {#}, {#}) (s', H + grabbed x + mset ks, D) \<and> (\<forall>a. x = Some a \<longrightarrow> heap s' a \<noteq> None)"
proof -
  have reach: "(calm cfg)\<^sup>*\<^sup>* (no_images, {#}, {#}) (s', H + grabbed x + mset ks, D)"
    by (rule rtranclp_trans [OF assms(1) image_get_is_steps [OF reachable_ok [OF assms(1,2)] assms(3,4)]])
  have "heap s' a \<noteq> None" if "x = Some a" for a
    using store_ok_alloc [OF reachable_ok [OF reach assms(2)], of a] that by auto
  with reach show ?thesis by blast
qed

definition sample_open :: open_env where
  "sample_open = \<lparr>oe_fd = 9, oe_flen = 40000, oe_pread = True, oe_pclmul = False, oe_data = \<lambda>_. 0, oe_rnds = sconst 0,
     oe_reads = [], oe_raced = -1\<rparr>"

definition sample_get :: get_env where
  "sample_get = \<lparr>ge_open = sample_open\<lparr>oe_fd := -1\<rparr>, ge_readable = False, ge_now = \<lparr>tv_sec = 3, tv_nsec = 0\<rparr>, ge_new = 8,
     ge_up = \<lparr>ue_globalShutdown = False, ue_hasAlt = True, ue_signalOk = True, ue_threadOk = True, ue_ref = 1,
       ue_host = \<lparr>addr = [], port = 0, htype = 0\<rparr>, ue_ok1 = True, ue_ok2 = True\<rparr>, ge_again = sample_open\<rparr>"

text \<open>The descriptor was closed and the file is gone: the image leaves the list, but the two clients that hold it keep it.\<close>

definition closed_image :: image_store where
  "closed_image = put 7 (Some (sample_uplink\<lparr>img := sample_image\<lparr>users := 1, readFd := -1\<rparr>\<rparr>)) one_image"

theorem image_get_is_safe_witness:
  "\<exists>s'. image_get net_config sample_get ''a'' 1 True closed_image = Some (Some 7, s', [], [])
    \<and> (calm net_config)\<^sup>*\<^sup>* (no_images, {#}, {#}) (s', {#7, 7#}, {#}) \<and> heap s' 7 \<noteq> None"
proof -
  have "calm net_config (one_image, {#7#}, {#}) (closed_image, {#7#}, {#})"
    unfolding closed_image_def by (rule calm_works) (auto simp: one_image_def)
  then have reach: "(calm net_config)\<^sup>*\<^sup>* (no_images, {#}, {#}) (closed_image, {#7#}, {#})"
    using one_image_reachable by (rule rtranclp.rtrancl_into_rtrancl [rotated])
  obtain s' where s': "image_get net_config sample_get ''a'' 1 True closed_image = Some (Some 7, s', [], [])"
    by (simp add: image_get_def image_find_def listed_def closed_image_def one_image_def hold_def put_def add_users_def sample_uplink_def
        sample_image_def change_def image_ensureOpen_def sample_get_def sample_open_def problem_read_def recover_image_def net_config_def
        remove_section_def unlist_def)
  show ?thesis using image_get_is_safe [OF reach _ _ s'] s'
    by (simp add: net_config_def SERVER_MAX_IMAGES_def closed_image_def one_image_def sample_get_def)
qed

text \<open>
  C33: Reopening a file can write behind an array. Take a complete image with a list of checksums for two hash blocks or
  more whose file had changed its size and has the right size again. The check of a single block chooses two, the first
  and the last, fills both places of its array, and then puts the final -1 behind it.
\<close>

theorem reopening_writes_behind_array:
  assumes "p_changed (problem (img st))" "dnbd3_image_t.crc32 (img st) = Some crcs" "ref_cacheMap (img st) = None"
    and "1 < IMGSIZE_TO_HASHBLOCKS (virtualFilesize (img st))"
    and "oe_fd e \<noteq> -1" "oe_flen e \<noteq> -1" "word_of_int (oe_flen e) = realFilesize (img st)" "oe_pread e"
  shows "choose_blocks (img st) 1 rnds = Some [0, nat (IMGSIZE_TO_HASHBLOCKS (virtualFilesize (img st))) - 1]
    \<and> image_ensureOpen e st = None"
proof -
  have c: "choose_blocks (img st) 1 rs = Some [0, nat (IMGSIZE_TO_HASHBLOCKS (virtualFilesize (img st))) - 1]" for rs
    using assms(3,4) by (simp add: choose_blocks_def image_isHashBlockComplete_def push_block_def eval_nat_numeral)
  then show ?thesis
    using assms by (simp add: image_ensureOpen_def still_changed_def image_checkRandomBlocks_def)
qed

theorem reopening_writes_behind_array_witness:
  "let st = sample_uplink\<lparr>img := sample_image\<lparr>ref_cacheMap := None, virtualFilesize := 33554432, realFilesize := 33554432,
         crc32 := Some [1, 2], problem := (problem sample_image)\<lparr>p_changed := True\<rparr>\<rparr>\<rparr>
   in image_ensureOpen (sample_open\<lparr>oe_flen := 33554432\<rparr>) st = None"
  unfolding Let_def
  by (rule conjunct2 [OF reopening_writes_behind_array [where crcs = "[1, 2]" and rnds = "sconst 0"]])
    (simp_all add: sample_open_def IMGSIZE_TO_HASHBLOCKS_def HASH_BLOCK_SIZE_def c_int_def)

end
