(* ===== verification/ImageLoad.thy ===== *)
theory ImageLoad
  imports ImageOpen
begin

text \<open>
  Loading images from disk, from \<^verbatim>\<open>src/server/image.c\<close>: which files are images, the name and revision in a file name,
  the cache map and the time of the last access beside the image, and \<^verbatim>\<open>image_load\<close>, which puts a new image in the list
  or replaces one that has changed.
\<close>

section \<open>File names\<close>

definition isForbiddenExtension :: "string \<Rightarrow> bool" where
  "isForbiddenExtension nm =
     (let len = length nm in
      if len < 4 then False
      else if drop (len - 4) nm = ''.crc'' then True
      else if drop (len - 4) nm = ''.map'' then True
      else if len < 5 then False
      else drop (len - 5) nm = ''.meta'')"

text \<open>The loop that walks back over the digits at the end of a file name, but not before its second character.\<close>

fun back_digits :: "string \<Rightarrow> nat \<Rightarrow> nat" where
  "back_digits f 0 = 0"
| "back_digits f (Suc i) = (if Suc i > 1 \<and> is_digit (f ! Suc i) then back_digits f i else Suc i)"

definition after_last_slash :: "string \<Rightarrow> string" where
  "after_last_slash p = rev (takeWhile (\<lambda>c. c \<noteq> CHR ''/'') (rev p))"

text \<open>
  The first part of \<^verbatim>\<open>image_load\<close>: the virtual name, the file name and the revision, -1 for none. \<open>None\<close> is a failed
  assertion, or an empty file name, whose characters are read before its begin.
\<close>

definition parse_path :: "string \<Rightarrow> string \<Rightarrow> (string \<times> string \<times> int) option" where
  "parse_path base p =
     (if \<not> (take 1 p = ''/'' \<and> take (length base) p = base \<and> base \<noteq> [] \<and> last base \<noteq> CHR ''/'' \<and> length p > length base)
      then None
      else let fileName = after_last_slash p;
               virt = drop (length base + 1) p;
               dir = take (length p - length fileName - (length base + 1)) virt;
               i = back_digits fileName (length fileName - 1)
           in if take 1 virt = ''/'' \<or> fileName = [] then None
              else if i \<noteq> length fileName - 1 \<and> fileName ! i = CHR ''r'' \<and> fileName ! (i - 1) = CHR ''.''
              then Some (dir @ take (i - 1) fileName, fileName, atoi (drop (i + 1) fileName))
              else Some (dir, fileName, -1))"

text \<open>The name of the file \<^verbatim>\<open>image_create\<close> writes, cut off by \<^verbatim>\<open>snprintf\<close> to fit a buffer of \<open>PATHLEN\<close> bytes.\<close>

definition PATHLEN :: nat where "PATHLEN = 2000"

definition created_path :: "string \<Rightarrow> string \<Rightarrow> nat \<Rightarrow> string" where
  "created_path base nm revision = take (PATHLEN - 1) (base @ ''/'' @ nm @ ''.r'' @ print_nat revision)"

section \<open>Files beside the image\<close>

text \<open>\<open>file\<close> has the bytes \<^verbatim>\<open>read\<close> delivers from the map, at most as many as asked for, or is \<open>None\<close> if there is no map.\<close>

definition image_loadCacheMap :: "byte list option \<Rightarrow> u64 \<Rightarrow> dnbd3_cache_map_t option" where
  "image_loadCacheMap file fileSize =
     (case file of
        None \<Rightarrow> None
      | Some got \<Rightarrow>
          let map_size = nat (IMGSIZE_TO_MAPBYTES fileSize)
          in Some \<lparr>dirty = False, unchanged = False, cmap = take map_size got @ replicate (map_size - length got) 0\<rparr>)"

fun strstr :: "string \<Rightarrow> string \<Rightarrow> string option" where
  "strstr [] needle = (if needle = [] then Some [] else None)"
| "strstr (c # cs) needle = (if take (length needle) (c # cs) = needle then Some (c # cs) else strstr cs needle)"

text \<open>
  \<^verbatim>\<open>loadImageMeta\<close>: \<open>buf\<close> is what was read from the file of metadata, \<open>wall\<close> the result of \<^verbatim>\<open>time\<close>, \<open>mtime\<close> the
  modification time of the image if it can be found, \<open>now\<close> the clock.
\<close>

definition meta_offset :: "string option \<Rightarrow> int \<Rightarrow> 32 word" where
  "meta_offset buf wall =
     (case buf of
        None \<Rightarrow> 1
      | Some text \<Rightarrow> (case strstr text ''atime='' of None \<Rightarrow> 1 | Some pos \<Rightarrow> word_of_int (atol (drop 6 pos) - wall)))"

definition loadImageMeta :: "string option \<Rightarrow> int \<Rightarrow> int option \<Rightarrow> ticks \<Rightarrow> dnbd3_image_t \<Rightarrow> dnbd3_image_t" where
  "loadImageMeta buf wall mtime now i =
     (let off = meta_offset buf wall;
          off1 = (if off = 1 then (case mtime of None \<Rightarrow> 0 | Some t \<Rightarrow> word_of_int (t - wall)) else off);
          off2 = (if sint off1 > 0 then 0 else off1)
      in i\<lparr>accessed := (if off = 1 then True else accessed i), atime := now\<lparr>tv_sec := tv_sec now + sint off2\<rparr>\<rparr>)"

text \<open>\<^verbatim>\<open>saveMetaData\<close>: the text it writes, if any.\<close>

definition saveMetaData :: "ticks \<Rightarrow> int \<Rightarrow> dnbd3_image_t \<Rightarrow> dnbd3_image_t \<times> string option" where
  "saveMetaData now wall i =
     (if \<not> accessed i then (i, None)
      else (i\<lparr>accessed := False\<rparr>,
            Some (''[main]'' @ [CHR 0x0A] @ ''atime='' @ print_nat (unat (word_of_int wall - ucast (timing_diff (atime i) now) :: u64)) @ [CHR 0x0A])))"

section \<open>Loading one image\<close>

text \<open>
  What \<^verbatim>\<open>image_load\<close> finds: the descriptor, size and contents of the file, the three files beside it, the clocks, how a loaded image
  of that name opens, the address of the new image and what its uplink finds.
\<close>

record load_env =
  le_fd :: int
  le_size :: int
  le_disk :: "nat \<Rightarrow> byte"
  le_get :: get_env
  le_map :: "byte list option"
  le_pclmul :: bool
  le_align :: nat
  le_crc :: "byte list option"
  le_masterOk :: bool
  le_crcReads :: "(errno + int) list"
  le_meta :: "string option"
  le_wall :: int
  le_mtime :: "int option"
  le_now :: ticks
  le_new :: nat
  le_up :: uplink_env
  le_rnds :: "nat stream"

text \<open>The result, and the images their uplinks still hold, closed descriptors, unlinked files and blocks to be checked.\<close>

record load_result =
  lr_ok :: bool
  lr_store :: image_store
  lr_kept :: "nat list"
  lr_closed :: "int list"
  lr_unlinked :: "string list"
  lr_checks :: "nat list"

definition load_done :: "bool \<Rightarrow> image_store \<Rightarrow> nat list \<Rightarrow> int list \<Rightarrow> load_result" where
  "load_done ok s ks fds = \<lparr>lr_ok = ok, lr_store = s, lr_kept = ks, lr_closed = fds, lr_unlinked = [], lr_checks = []\<rparr>"

text \<open>The label \<^verbatim>\<open>load_error\<close>: the loaded image, if there is one, is released.\<close>

definition load_error :: "bool \<Rightarrow> nat option \<Rightarrow> image_store \<Rightarrow> nat list \<Rightarrow> int list \<Rightarrow> load_result option" where
  "load_error ok existing s ks fds =
     (case existing of
        None \<Rightarrow> Some (load_done ok s ks fds)
      | Some a \<Rightarrow> map_option (\<lambda>(s1, kept). load_done ok s1 (if kept then a # ks else ks) fds) (image_release a s))"

definition kept_list :: "nat \<Rightarrow> image_store \<times> bool \<Rightarrow> image_store \<times> nat list" where
  "kept_list a r = (fst r, if snd r then [a] else [])"

text \<open>Taking a changed image out of the list and releasing it.\<close>

definition drop_existing :: "nat \<Rightarrow> image_store \<Rightarrow> (image_store \<times> nat list) option" where
  "drop_existing a s =
     (case remove_section a s of
        None \<Rightarrow> None
      | Some (s1, True) \<Rightarrow> map_option (kept_list a) (image_free a s1)
      | Some (s1, False) \<Rightarrow> map_option (kept_list a) (image_release a s1))"

text \<open>The size of the file in whole blocks.\<close>

definition virtual_size :: "u64 \<Rightarrow> u64" where
  "virtual_size real = (real + (DNBD3_BLOCK_SIZE - 1)) AND NOT (DNBD3_BLOCK_SIZE - 1)"

text \<open>The first checksum of the list as far as it was read, even when the list is not used.\<close>

definition read_master :: "load_env \<Rightarrow> u64 \<Rightarrow> u32" where
  "read_master e fileSize =
     (case le_crc e of
        None \<Rightarrow> 0
      | Some content \<Rightarrow>
          if length content < (nat (IMGSIZE_TO_HASHBLOCKS fileSize) + 1) * 4 \<or> \<not> le_masterOk e then 0 else of_le (take 4 content))"

text \<open>The new image before it is put in the list, and the files its completeness makes superfluous.\<close>

definition fresh_image :: "config \<Rightarrow> load_env \<Rightarrow> bool \<Rightarrow> string \<Rightarrow> string \<Rightarrow> u16 \<Rightarrow> u32 list option \<Rightarrow> uplink_state \<times> string list" where
  "fresh_image cfg e withUplink p nm revision crcs =
     (let real = word_of_int (le_size e); virt = virtual_size real;
          i = \<lparr>path = p, name = nm, uplinkref = None, ref_cacheMap = image_loadCacheMap (le_map e) virt, virtualFilesize = virt,
               realFilesize = real, atime = \<lparr>tv_sec = 0, tv_nsec = 0\<rparr>, nextCompletenessEstimate = le_now e, crc32 = crcs,
               masterCrc32 = read_master e virt, readFd = -1, completenessEstimate = -1, users = 0, img_id = 0,
               problem = \<lparr>p_read = False, p_write = False, p_changed = False, p_uplink = False, p_queue = False\<rparr>,
               rid = revision, accessed = False\<rparr>;
          i1 = loadImageMeta (le_meta e) (le_wall e) (le_mtime e) (le_now e) i;
          (i2, files) = (if ref_cacheMap i1 = None then (i1, []) else snd (image_isComplete i1));
          st = \<lparr>ul = uplink_fresh, img = i2, disk = le_disk e, totalBytesReceived = 0, calls = [], sends = [], checks = []\<rparr>;
          st1 = (if ref_cacheMap i2 = None then st
                 else let st0 = st\<lparr>img := set_problem_uplink True i2\<rparr>
                      in if withUplink then ensure_uplink cfg (le_up e) st0 else st0)
      in (st1\<lparr>img := (img st1)\<lparr>readFd := le_fd e\<rparr>\<rparr>, files))"

text \<open>
  The blocks \<^verbatim>\<open>image_load\<close> hands to the integrity checker once the new image \<open>b\<close> is in the list; \<open>None\<close> is a failed assertion
  or an image that was freed meanwhile, which the source does not prevent.
\<close>

definition load_check :: "load_env \<Rightarrow> nat \<Rightarrow> image_store \<Rightarrow> nat list option" where
  "load_check e b s =
     (case heap s b of
        None \<Rightarrow> None
      | Some st \<Rightarrow> map_option (case_sum id (\<lambda>_. [])) (image_checkRandomBlocks (le_pclmul e) (disk st) True 4 (le_rnds e) [] (img st)))"

text \<open>The end of \<^verbatim>\<open>image_load\<close>, run without another thread in between: the new image is put in the list, or freed when the list is full.\<close>

definition load_fresh :: "config \<Rightarrow> load_env \<Rightarrow> uplink_state \<times> string list \<Rightarrow> image_store \<Rightarrow> load_result option" where
  "load_fresh cfg e fresh s =
     (let b = le_new e in
      case image_addToList cfg b (put b (Some (fst fresh)) s) of
        None \<Rightarrow> None
      | Some (True, s1) \<Rightarrow>
          map_option (\<lambda>bs. (load_done True s1 [] [])\<lparr>lr_unlinked := snd fresh, lr_checks := bs\<rparr>) (load_check e b s1)
      | Some (False, s1) \<Rightarrow>
          (case heap s1 b of
             None \<Rightarrow> None
           | Some st \<Rightarrow>
               map_option (\<lambda>(s2, kept). (load_done False s2 (if kept then [b] else []) [le_fd e])\<lparr>lr_unlinked := snd fresh\<rparr>)
                 (image_free b (put b (Some (st\<lparr>img := (img st)\<lparr>readFd := -1\<rparr>\<rparr>)) s1))))"

text \<open>
  A loaded image compared with what is on disk: \<open>Inl\<close> is the image to keep, with a list of checksums it may have gained;
  \<open>Inr\<close> tells to replace it.
\<close>

definition compare_existing :: "u64 \<Rightarrow> (u32 \<times> u32 list) option \<Rightarrow> uplink_state \<Rightarrow> uplink_state + unit" where
  "compare_existing real list st =
     (if realFilesize (img st) \<noteq> real then Inr ()
      else case (dnbd3_image_t.crc32 (img st), list) of
        (Some old, Some (_, new)) \<Rightarrow> if old \<noteq> new then Inr () else Inl st
      | (None, Some (master, new)) \<Rightarrow> Inl (st\<lparr>img := (img st)\<lparr>crc32 := Some new, masterCrc32 := master\<rparr>\<rparr>)
      | _ \<Rightarrow> Inl st)"

text \<open>
  \<^verbatim>\<open>image_load\<close> from the place where it has looked for a loaded image of that name and revision, with the images still
  held by their uplinks and the descriptors closed so far.
\<close>

definition load_data :: "config \<Rightarrow> load_env \<Rightarrow> bool \<Rightarrow> string \<Rightarrow> string \<Rightarrow> u16 \<Rightarrow> nat option \<Rightarrow> image_store \<Rightarrow> nat list \<Rightarrow> int list
    \<Rightarrow> load_result option" where
  "load_data cfg e withUplink p nm revision existing s ks fds =
     (if le_fd e = -1 then load_error False existing s ks fds
      else if le_size e \<le> 0 then load_error False existing s ks (le_fd e # fds)
      else let real = (word_of_int (le_size e) :: u64) in
        case image_loadCrcList (le_pclmul e) (le_align e) (le_crc e) (virtual_size real) (le_masterOk e) (le_crcReads e) of
          None \<Rightarrow> None
        | Some list \<Rightarrow>
            let load = (\<lambda>s2 ks2. map_option (\<lambda>r. r\<lparr>lr_kept := lr_kept r @ ks2, lr_closed := lr_closed r @ fds\<rparr>)
                          (load_fresh cfg e (fresh_image cfg e withUplink p nm revision (map_option snd list)) s2))
            in case existing of
                 None \<Rightarrow> load s ks
               | Some a \<Rightarrow>
                   (case heap s a of
                      None \<Rightarrow> None
                    | Some st \<Rightarrow>
                        (case compare_existing real list st of
                           Inl st1 \<Rightarrow> load_error True existing (put a (Some st1) s) ks (le_fd e # fds)
                         | Inr _ \<Rightarrow>
                             (case drop_existing a s of
                                None \<Rightarrow> None
                              | Some (s2, ks1) \<Rightarrow> load s2 (ks1 @ ks)))))"

definition image_load :: "config \<Rightarrow> load_env \<Rightarrow> string \<Rightarrow> string \<Rightarrow> bool \<Rightarrow> image_store \<Rightarrow> load_result option" where
  "image_load cfg e base p withUplink s =
     (case parse_path base p of
        None \<Rightarrow> None
      | Some (nm0, fileName, rev0) \<Rightarrow>
          let legacy = vmdkLegacyMode cfg \<and> rev0 = -1;
              nm = (if legacy then nm0 @ fileName else nm0);
              revision = (if legacy then 1 else rev0)
          in if legacy \<and> le_fd e = -1 then Some (load_done False s [] [])
             else if revision \<le> 0 \<or> revision \<ge> 65536 then Some (load_done False s [] [])
             else case image_get cfg (le_get e) nm (word_of_int revision) True s of
               None \<Rightarrow> None
             | Some (existing, s1, ks, fds) \<Rightarrow> load_data cfg e withUplink p nm (word_of_int revision) existing s1 ks fds)"

end
