(* ===== verification/Spec2Isabelle.thy ===== *)
theory Spec2Isabelle
  imports RttProtocol CrcBig HashProof NetHandshake ImageLoadProof
begin

text \<open>
  \<^bold>\<open>dnbd3, the distributed network block device.\<close> A dnbd3 server (\<^verbatim>\<open>src/server\<close>) exports disk images read-only over TCP.
  A proxy has images it holds only in part: a cache map marks the 4 KiB blocks it has, and a missing block is
  requested from another server by the uplink of the image, stored in the cache file and handed to all clients that wait
  for it. The uplink measures alternative servers, switches to better ones and replicates the rest of the image in the
  background. This library models the server and what it shares with the clients, and proves it correct.

  \<^bold>\<open>Conventions.\<close> Integers have the width of the C types; an \<^verbatim>\<open>int\<close> whose range does not matter is an \<open>int\<close>. A pointer that
  may be \<^verbatim>\<open>NULL\<close> is an \<open>option\<close>, a linked list a list, a descriptor an \<open>int\<close> with -1 for none. The code between taking and
  releasing a mutex is one function. Results of system calls, clocks, random numbers, the C library's conversion
  of addresses and the work of other threads during a call are arguments, as records or as scripts of
  events. Effects on the outside (bytes sent, callbacks, closed descriptors, unlinked files) are logged in the state or
  returned. \<open>None\<close> is a failed assertion, an access outside an array or to freed memory, or a script that is too short.

  \<^bold>\<open>Foundations.\<close> \<^verbatim>\<open>Prelude\<close> has the word types, block geometry and shared lemmas (collection \<open>word_nat\<close>), \<^verbatim>\<open>Bytes\<close> the memory
  images of integers, \<^verbatim>\<open>Timing\<close> the clock arithmetic of \<^verbatim>\<open>inc/dnbd3/shared/timing.h\<close>, \<^verbatim>\<open>Server_Types\<close> the structs of
  \<^verbatim>\<open>globals.h\<close> and the configuration, \<^verbatim>\<open>Host\<close> the addresses and strings of \<^verbatim>\<open>helper.c\<close>.

  \<^bold>\<open>Messages.\<close> \<^verbatim>\<open>Serializer\<close> models \<^verbatim>\<open>serialize.c\<close>, \<^verbatim>\<open>SockHelper\<close> the loops \<^verbatim>\<open>sock_recv\<close> and \<^verbatim>\<open>sock_sendAll\<close>, \<^verbatim>\<open>Wire\<close> the headers
  and requests of \<^verbatim>\<open>protocol.h\<close>. What was sent is received whatever the fragmentation; headers survive encoding.

  \<^bold>\<open>CRC-32.\<close> \<^verbatim>\<open>CrcTables\<close> and \<^verbatim>\<open>Crc\<close> hold the tables and routines of \<^verbatim>\<open>crc32.c\<close>, \<^verbatim>\<open>CrcProof\<close>, \<^verbatim>\<open>CrcFold\<close> and \<^verbatim>\<open>CrcBig\<close> show that each of
  them, also the one with carry-less multiplication, computes the bitwise definition.

  \<^bold>\<open>Cache map and checksums.\<close> \<^verbatim>\<open>CacheMap\<close> models \<^verbatim>\<open>image_updateCachemap\<close>, \<^verbatim>\<open>image_isRangeCachedUnsafe\<close>, \<^verbatim>\<open>image_isComplete\<close> and
  the like; \<^verbatim>\<open>CacheImage\<close> shows that they are set operations on the cached blocks (locale \<open>range_cache\<close>). \<^verbatim>\<open>HashFiles\<close> and
  \<^verbatim>\<open>HashProof\<close> are the checksums of hash blocks and the files that hold them: what \<^verbatim>\<open>image_generateCrcFile\<close> writes,
  \<^verbatim>\<open>image_loadCrcList\<close> accepts.

  \<^bold>\<open>The uplink.\<close> \<^verbatim>\<open>Uplink\<close> has the request queue and the reception of blocks of \<^verbatim>\<open>uplink.c\<close>, \<^verbatim>\<open>Replication\<close> the choice of blocks to
  replicate, \<^verbatim>\<open>UplinkThread\<close> the main loop. \<^verbatim>\<open>UplinkInv\<close> has the invariant of the queue; \<^verbatim>\<open>UplinkSteps\<close> makes the critical sections
  of all threads steps of a machine and shows, for every interleaving, that each accepted client is called back exactly
  once, with the bytes of the upstream server, and that a block marked as cached holds them. \<^verbatim>\<open>UplinkThreadProof\<close> and
  \<^verbatim>\<open>UplinkSystem\<close> show that the main loop, with client threads and measurements running beside it, is a run of this
  machine and that it leaks no descriptor; there an iteration of the loop and a measurement are one step each.
  \<^verbatim>\<open>RttProtocol\<close> takes both apart into the sections in which they touch \<^verbatim>\<open>rttTestResult\<close> and \<^verbatim>\<open>better\<close>: in every interleaving
  three of the four assertions around measurements hold, and the one in \<^verbatim>\<open>altservers_findUplinkAsync\<close> can fail.

  \<^bold>\<open>Alternative servers.\<close> \<^verbatim>\<open>AltServers\<close> models \<^verbatim>\<open>altservers.c\<close>; \<^verbatim>\<open>AltProof\<close> and \<^verbatim>\<open>AltCheck\<close> show what the lists for clients and
  uplinks contain, that blocked servers come back, that a measurement closes what it opened and that an uplink only switches to a server with the same image.

  \<^bold>\<open>Client connections.\<close> \<^verbatim>\<open>NetServer\<close> and \<^verbatim>\<open>NetClient\<close> model \<^verbatim>\<open>net.c\<close> from \<^verbatim>\<open>net_handleNewConnection\<close> on. \<^verbatim>\<open>NetProof\<close>: the array of
  clients is a set (locale \<open>registry\<close>) and cached blocks are answered with upstream bytes. \<^verbatim>\<open>NetRelay\<close>: a connection
  leaves nothing behind. \<^verbatim>\<open>NetHandshake\<close>: both ends of the handshake agree.

  \<^bold>\<open>Images.\<close> \<^verbatim>\<open>ImageList\<close> models the list, the counting of users and the freeing of images in \<^verbatim>\<open>image.c\<close> on a heap of addresses;
  \<^verbatim>\<open>ImageProof\<close> interprets \<open>registry\<close> for the list and makes the sections under \<^verbatim>\<open>imageListLock\<close> steps (\<open>istep\<close>). In a calm run,
  one in which no uplink ends by itself while a thread is about to free its image, an image is allocated exactly while
  it is listed, held, or being loaded or freed by one thread. The source does not exclude the other runs: the assertion
  of \<^verbatim>\<open>image_free\<close> that fails in them is shown as well, and so is the use \<^verbatim>\<open>image_load\<close> makes of an image it has published.
  \<^verbatim>\<open>ImageOpen\<close> adds \<^verbatim>\<open>image_ensureOpen\<close> and \<^verbatim>\<open>image_get\<close>, \<^verbatim>\<open>ImageLoad\<close> and \<^verbatim>\<open>ImageLoadProof\<close> add \<^verbatim>\<open>image_load\<close>: both are
  sequences of calm steps, every loaded image is well formed, and names survive being written to a path that fits its buffer and read back.
  The copy \<^verbatim>\<open>image_get\<close> makes of an image shares its cache map in the code; the model copies the map and does not
  follow later writes through the other image.

  \<^bold>\<open>Bounds.\<close> Images are smaller than \<open>2 ^ 45\<close> bytes (\<open>image_wf\<close>), so that byte counts of the map fit an \<^verbatim>\<open>int\<close>; this is the
  only bound on sizes. Loops over data are structural recursions; loops over the environment recurse over its script, so
  that there is no fuel. Theorems about them hold for every script on which the model returns, and the theorems on
  reception, sending and the end of the uplink thread say what the script must contain for that.

  \<^bold>\<open>Not modelled.\<close> The kernel module, the fuse client, the client and benchmark programs and the image mount of the server
  run inside frameworks whose code is not here. The integrity checker and the thread pool are queues around modelled
  calls; locks, event descriptors, log and file helpers are wrappers of the system. Reference counts in \<^verbatim>\<open>reference.c\<close>
  are lock-free pointer tricks below the level of the model. \<^verbatim>\<open>rpc.c\<close> only reports state, \<^verbatim>\<open>picohttpparser\<close> is
  third-party code. \<^verbatim>\<open>server.c\<close>, \<^verbatim>\<open>globals.c\<close> and \<^verbatim>\<open>ini.c\<close> start the server and read the configuration, which is an argument
  here. In \<^verbatim>\<open>image.c\<close>, walking directories, allocating and deleting files, writing maps and replicating a missing
  image are left out.
\<close>

end
